(* ===== verification/Prelude.thy ===== *)
theory Prelude
  imports Complex_Main "HOL-Library.Word" "HOL-Library.Multiset" "HOL-Library.Product_Lexorder"
    "HOL-Library.List_Lexorder" "HOL-Library.Char_ord"
begin

text \<open>
  Shared vocabulary of the development. Machine integers of the Rust sources (\<open>u8\<close> to
  \<open>u64\<close>), the sequencing of fallible computations (\<open>Result\<close> as a sum with the error
  on the left), the slice searches of the standard library (\<open>partition_point\<close>,
  \<open>binary_search\<close>), the population count, little-endian byte encodings and the set of the
  \<open>k\<close> smallest elements that every ranked search of the program returns.
\<close>

section \<open>Types and automation\<close>

type_synonym u8 = "8 word"
type_synonym u16 = "16 word"
type_synonym u32 = "32 word"
type_synonym u64 = "64 word"

text \<open>The largest value of \<open>usize\<close> on the 64-bit targets of the program.\<close>

abbreviation usize_max :: nat where
  "usize_max \<equiv> 2 ^ 64 - 1"

named_theorems codec_simps \<open>lengths and round trips of the byte codecs\<close>
named_theorems result_simps \<open>sequencing of fallible computations\<close>

unbundle bit_operations_syntax

section \<open>Definitions\<close>

text \<open>The \<open>?\<close> operator of Rust on \<open>Result\<close>: the first error ends the computation.\<close>

definition rbind :: "'e + 'a \<Rightarrow> ('a \<Rightarrow> 'e + 'b) \<Rightarrow> 'e + 'b" where
  "rbind x f = (case x of Inl e \<Rightarrow> Inl e | Inr a \<Rightarrow> f a)"

text \<open>\<open>usize::saturating_add\<close> and \<open>usize::saturating_mul\<close>.\<close>

definition saturating_add :: "nat \<Rightarrow> nat \<Rightarrow> nat" where
  "saturating_add a b = min usize_max (a + b)"

definition saturating_mul :: "nat \<Rightarrow> nat \<Rightarrow> nat" where
  "saturating_mul a b = min usize_max (a * b)"

text \<open>
  Binary search of a slice: \<open>partition_between p xs lo hi\<close> halves the window \<open>[lo, hi)\<close>
  and returns the first index whose element does not satisfy \<open>p\<close>.
\<close>

function partition_between :: "('a \<Rightarrow> bool) \<Rightarrow> 'a list \<Rightarrow> nat \<Rightarrow> nat \<Rightarrow> nat" where
  "partition_between p xs lo hi =
     (if lo < hi
      then (let mid = (lo + hi) div 2
            in if p (xs ! mid) then partition_between p xs (Suc mid) hi
               else partition_between p xs lo mid)
      else lo)"
  by pat_completeness auto
termination
  by (relation "measure (\<lambda>(p, xs, lo, hi). hi - lo)") auto

declare partition_between.simps [simp del]

definition partition_point :: "('a \<Rightarrow> bool) \<Rightarrow> 'a list \<Rightarrow> nat" where
  "partition_point p xs = partition_between p xs 0 (length xs)"

text \<open>\<open>binary_search_by_key\<close>: the index of an element with key \<open>k\<close>, or none.\<close>

definition binary_search_by :: "('a \<Rightarrow> 'k::linorder) \<Rightarrow> 'a list \<Rightarrow> 'k \<Rightarrow> nat option" where
  "binary_search_by f xs k =
     (let i = partition_point (\<lambda>x. f x < k) xs
      in if i < length xs \<and> f (xs ! i) = k then Some i else None)"

text \<open>Population count of a word.\<close>

definition popcount :: "'a::len word \<Rightarrow> nat" where
  "popcount w = length (filter (bit w) [0..<LENGTH('a)])"

text \<open>Population count of a natural number.\<close>

fun pop :: "nat \<Rightarrow> nat" where
  "pop n = (if n = 0 then 0 else n mod 2 + pop (n div 2))"

declare pop.simps [simp del]

text \<open>Little-endian bytes: \<open>to_le_bytes\<close> of a \<open>w\<close>-byte integer, and its inverse.\<close>

fun to_le_bytes :: "nat \<Rightarrow> nat \<Rightarrow> u8 list" where
  "to_le_bytes 0 x = []"
| "to_le_bytes (Suc w) x = word_of_nat (x mod 256) # to_le_bytes w (x div 256)"

fun from_le_bytes :: "u8 list \<Rightarrow> nat" where
  "from_le_bytes [] = 0"
| "from_le_bytes (b # bs) = unat b + 256 * from_le_bytes bs"

text \<open>The \<open>k\<close> smallest elements of a finite set.\<close>

definition topk :: "nat \<Rightarrow> 'a::linorder set \<Rightarrow> 'a set" where
  "topk k S = set (take k (sorted_list_of_set S))"

section \<open>Sequencing\<close>

lemma rbind_simps [simp, result_simps]:
  "rbind (Inl e) f = Inl e"
  "rbind (Inr a) f = f a"
  by (simp_all add: rbind_def)

lemma rbind_assoc [result_simps]: "rbind (rbind x f) g = rbind x (\<lambda>a. rbind (f a) g)"
  by (cases x) simp_all

lemma rbind_eq_Inr: "rbind x f = Inr b \<longleftrightarrow> (\<exists>a. x = Inr a \<and> f a = Inr b)"
  by (cases x) simp_all

lemma rbind_eq_Inl: "rbind x f = Inl e \<longleftrightarrow> x = Inl e \<or> (\<exists>a. x = Inr a \<and> f a = Inl e)"
  by (cases x) simp_all

section \<open>Slice searches\<close>

definition partitioned :: "('a \<Rightarrow> bool) \<Rightarrow> 'a list \<Rightarrow> bool" where
  "partitioned p xs \<longleftrightarrow> (\<forall>i j. i \<le> j \<longrightarrow> j < length xs \<longrightarrow> p (xs ! j) \<longrightarrow> p (xs ! i))"

lemma partition_between_window:
  assumes "partitioned p xs" "lo \<le> hi" "hi \<le> length xs"
    and "\<forall>i < lo. p (xs ! i)" and "\<forall>i. hi \<le> i \<longrightarrow> i < length xs \<longrightarrow> \<not> p (xs ! i)"
  shows "partition_between p xs lo hi \<le> length xs
    \<and> (\<forall>i < partition_between p xs lo hi. p (xs ! i))
    \<and> (\<forall>i. partition_between p xs lo hi \<le> i \<longrightarrow> i < length xs \<longrightarrow> \<not> p (xs ! i))"
  using assms
proof (induction p xs lo hi rule: partition_between.induct)
  case (1 p xs lo hi)
  show ?case
  proof (cases "lo < hi")
    case False
    then have "partition_between p xs lo hi = lo" by (subst partition_between.simps) simp
    with False "1.prems" show ?thesis by simp
  next
    case True
    let ?mid = "(lo + hi) div 2"
    have mid: "lo \<le> ?mid" "Suc ?mid \<le> hi" "?mid < length xs" "?mid \<le> length xs"
      using True "1.prems" by auto
    show ?thesis
    proof (cases "p (xs ! ?mid)")
      case p: True
      have eq: "partition_between p xs lo hi = partition_between p xs (Suc ?mid) hi"
        using True p by (subst partition_between.simps) (simp add: Let_def)
      have "\<forall>i < Suc ?mid. p (xs ! i)"
        using "1.prems"(1) p mid(3) unfolding partitioned_def by (auto simp: less_Suc_eq_le)
      then show ?thesis unfolding eq
        using "1.IH"(1) [OF True refl p "1.prems"(1) mid(2) "1.prems"(3)] "1.prems"(5) by blast
    next
      case np: False
      have eq: "partition_between p xs lo hi = partition_between p xs lo ?mid"
        using True np by (subst partition_between.simps) (simp add: Let_def)
      have "\<forall>i. ?mid \<le> i \<longrightarrow> i < length xs \<longrightarrow> \<not> p (xs ! i)"
        using "1.prems"(1) np unfolding partitioned_def by blast
      then show ?thesis unfolding eq
        using "1.IH"(2) [OF True refl np "1.prems"(1) mid(1,4) "1.prems"(4)] by blast
    qed
  qed
qed

lemma partition_point_takeWhile:
  assumes "partitioned p xs"
  shows "partition_point p xs = length (takeWhile p xs)"
proof -
  let ?n = "partition_point p xs"
  have n: "?n \<le> length xs" "\<forall>i < ?n. p (xs ! i)"
    "\<forall>i. ?n \<le> i \<longrightarrow> i < length xs \<longrightarrow> \<not> p (xs ! i)"
    using partition_between_window [OF assms, of 0 "length xs"] by (auto simp: partition_point_def)
  have "takeWhile p xs = take ?n xs"
    by (rule takeWhile_eq_take_P_nth) (use n in auto)
  then show ?thesis using n(1) by simp
qed

lemma partitioned_less:
  fixes f :: "'a \<Rightarrow> 'k::linorder"
  assumes "sorted (map f xs)"
  shows "partitioned (\<lambda>x. f x < k) xs"
  unfolding partitioned_def
proof (intro allI impI)
  fix i j assume "i \<le> j" "j < length xs" "f (xs ! j) < k"
  then show "f (xs ! i) < k"
    using sorted_nth_mono [OF assms, of i j] by simp
qed

lemma binary_search_by_Some:
  assumes "sorted (map f xs)" "binary_search_by f xs k = Some i"
  shows "i < length xs \<and> f (xs ! i) = k"
  using assms by (auto simp: binary_search_by_def Let_def split: if_splits)

lemma sorted_takeWhile_less_nth:
  fixes f :: "'a \<Rightarrow> 'k::linorder"
  assumes "sorted (map f xs)" "k \<in> f ` set xs"
  shows "length (takeWhile (\<lambda>x. f x < k) xs) < length xs
    \<and> f (xs ! length (takeWhile (\<lambda>x. f x < k) xs)) = k"
  using assms
proof (induction xs)
  case (Cons x xs)
  show ?case
  proof (cases "f x < k")
    case True
    with Cons show ?thesis by auto
  next
    case False
    with Cons.prems show ?thesis by fastforce
  qed
qed simp

lemma binary_search_by_found:
  fixes f :: "'a \<Rightarrow> 'k::linorder"
  assumes "sorted (map f xs)" "k \<in> f ` set xs"
  shows "binary_search_by f xs k = Some (length (takeWhile (\<lambda>x. f x < k) xs))"
  using sorted_takeWhile_less_nth [OF assms] assms(1)
  by (simp add: binary_search_by_def partition_point_takeWhile partitioned_less)

lemma binary_search_by_None:
  fixes f :: "'a \<Rightarrow> 'k::linorder"
  assumes "sorted (map f xs)"
  shows "binary_search_by f xs k = None \<longleftrightarrow> k \<notin> f ` set xs"
proof
  assume "binary_search_by f xs k = None"
  then show "k \<notin> f ` set xs" using binary_search_by_found [OF assms, of k] by fastforce
next
  assume "k \<notin> f ` set xs"
  then have "f (xs ! i) \<noteq> k" if "i < length xs" for i using that by force
  then show "binary_search_by f xs k = None" by (auto simp: binary_search_by_def Let_def)
qed

section \<open>Population count\<close>

lemma pop_0 [simp]: "pop 0 = 0"
  by (simp add: pop.simps)

lemma pop_rec: "pop n = n mod 2 + pop (n div 2)"
  by (cases "n = 0") (simp_all add: pop.simps)

lemma pop_double [simp]: "pop (2 * n) = pop n"
  using pop_rec [of "2 * n"] by simp

lemma pop_double_Suc [simp]: "pop (Suc (2 * n)) = Suc (pop n)"
  using pop_rec [of "Suc (2 * n)"] by simp

lemma pop_mult_power [simp]: "pop (n * 2 ^ k) = pop n"
proof (induction k)
  case (Suc k)
  have "n * 2 ^ Suc k = 2 * (n * 2 ^ k)" by simp
  then show ?case using Suc pop_double [of "n * 2 ^ k"] by presburger
qed simp

lemma pop_add_high: "a < 2 ^ k \<Longrightarrow> pop (h * 2 ^ k + a) = pop h + pop a"
proof (induction k arbitrary: a)
  case (Suc k)
  let ?n = "h * 2 ^ Suc k + a"
  have d: "?n div 2 = h * 2 ^ k + a div 2" and m: "?n mod 2 = a mod 2"
    by (simp_all add: mod_add_eq [symmetric] mult.assoc mult.left_commute)
  have "pop ?n = a mod 2 + pop (h * 2 ^ k + a div 2)"
    using pop_rec [of ?n] d m by simp
  also have "\<dots> = a mod 2 + (pop h + pop (a div 2))"
    using Suc by (simp add: less_mult_imp_div_less mult.commute)
  finally show ?case using pop_rec [of a] by simp
qed simp

lemma pop_ones [simp]: "pop (2 ^ k - 1) = k"
proof (induction k)
  case (Suc k)
  have "(1::nat) \<le> 2 ^ k" by simp
  then have "(2::nat) ^ Suc k - 1 = Suc (2 * (2 ^ k - 1))" unfolding power_Suc by linarith
  then show ?case using Suc pop_double_Suc [of "2 ^ k - 1"] by presburger
qed simp

lemma pop_ones_Suc [simp]: "pop (2 ^ k - Suc 0) = k"
  using pop_ones [of k] by simp

text \<open>A number with \<open>p\<close> set bits is at least \<open>2 ^ p - 1\<close>, and at most the \<open>p\<close> highest bits.\<close>

lemma pop_lower: "2 ^ pop n \<le> n + 1"
proof (induction n rule: pop.induct)
  case (1 n)
  show ?case
  proof (cases "n = 0")
    case False
    with "1" have ih: "2 ^ pop (n div 2) \<le> n div 2 + 1" by simp
    have "2 ^ pop n = 2 ^ (n mod 2) * (2::nat) ^ pop (n div 2)"
      using pop_rec [of n] by (simp add: power_add)
    also have "\<dots> \<le> 2 ^ (n mod 2) * (n div 2 + 1)" using ih by (rule mult_le_mono2)
    also have "\<dots> \<le> n + 1"
    proof (cases "n mod 2 = 0")
      case False
      then have "n mod 2 = 1" "n = 2 * (n div 2) + 1" by presburger+
      then show ?thesis by simp
    qed simp
    finally show ?thesis .
  qed simp
qed

lemma pop_upper: "n < 2 ^ w \<Longrightarrow> pop n \<le> w \<and> n + 2 ^ (w - pop n) \<le> 2 ^ w"
proof (induction w arbitrary: n)
  case (Suc w)
  have "n div 2 < 2 ^ w" using Suc.prems by (simp add: less_mult_imp_div_less mult.commute)
  then have ih: "pop (n div 2) \<le> w" "n div 2 + 2 ^ (w - pop (n div 2)) \<le> 2 ^ w"
    using Suc.IH by auto
  consider "n mod 2 = 0" | "n mod 2 = 1" by linarith
  then show ?case
  proof cases
    case 1
    then have "pop n = pop (n div 2)" "n = 2 * (n div 2)" using pop_rec [of n] by auto
    then show ?thesis using ih by (simp add: Suc_diff_le)
  next
    case 2
    then have "pop n = Suc (pop (n div 2))" "n = 2 * (n div 2) + 1"
      using pop_rec [of n] by presburger+
    moreover have "(1::nat) \<le> 2 ^ (w - pop (n div 2))" by simp
    ultimately have "n + 2 ^ (w - pop (n div 2)) \<le> 2 * 2 ^ w" using ih by linarith
    with \<open>pop n = Suc (pop (n div 2))\<close> ih(1) show ?thesis by simp
  qed
qed simp

lemma pop_0_iff [simp]: "pop n = 0 \<longleftrightarrow> n = 0"
proof (induction n rule: pop.induct)
  case (1 n)
  show ?case
  proof (cases "n = 0")
    case False
    have "pop n = 0 \<longleftrightarrow> n mod 2 = 0 \<and> n div 2 = 0" using pop_rec [of n] "1" False by simp
    then show ?thesis using False by presburger
  qed simp
qed

lemma pop_bit_count: "n < 2 ^ w \<Longrightarrow> pop n = length (filter (bit n) [0..<w])"
proof (induction w arbitrary: n)
  case (Suc w)
  have "n div 2 < 2 ^ w" using Suc.prems by (simp add: less_mult_imp_div_less mult.commute)
  then have "pop (n div 2) = length (filter (bit (n div 2)) [0..<w])" by (rule Suc.IH)
  also have "\<dots> = length (filter (bit n) (map Suc [0..<w]))"
    by (simp add: filter_map o_def bit_Suc)
  finally show ?case
    by (simp add: pop_rec [of n] upt_conv_Cons map_Suc_upt bit_0 odd_iff_mod_2_eq_one del: upt_Suc)
qed simp

lemma popcount_unat: "popcount (w :: 'a::len word) = pop (unat w)"
proof -
  have "unat w < 2 ^ LENGTH('a)" by (rule unsigned_less)
  then have "pop (unat w) = length (filter (bit (unat w)) [0..<LENGTH('a)])"
    by (rule pop_bit_count)
  also have "filter (bit (unat w)) [0..<LENGTH('a)] = filter (bit w) [0..<LENGTH('a)]"
    by (rule filter_cong) (auto simp: bit_unsigned_iff)
  finally show ?thesis by (simp add: popcount_def)
qed

section \<open>Words as numbers\<close>

lemma unat_u32_less: "unat (v :: u32) < 4294967296"
  using unsigned_less [where 'b = 32 and ?'a = nat, of v] by simp

lemma unat_u64_less: "unat (v :: u64) < 18446744073709551616"
  using unsigned_less [where 'b = 64 and ?'a = nat, of v] by simp

lemma sint_small: "unat (v :: u32) < 2 ^ 31 \<Longrightarrow> sint v = int (unat v)"
proof -
  assume "unat v < 2 ^ 31"
  then have "int (unat v) < int (2 ^ 31)" by (simp only: of_nat_less_iff)
  then have "uint v < 2 ^ 31" by (simp only: uint_nat of_nat_power of_nat_numeral)
  moreover have "0 \<le> uint v" by simp
  then have "- (2 ^ 31) \<le> uint v" by (rule order_trans [rotated]) simp
  ultimately have "signed_take_bit 31 (uint v) = uint v"
    by (intro signed_take_bit_int_eq_self)
  then show ?thesis by (simp add: sint_uint)
qed

section \<open>Little-endian bytes\<close>

lemma length_to_le_bytes [simp, codec_simps]: "length (to_le_bytes w x) = w"
  by (induction w arbitrary: x) simp_all

lemma unat_byte [simp]: "x < 256 \<Longrightarrow> unat (word_of_nat x :: u8) = x"
  by (simp add: unat_of_nat)

lemma from_to_le_bytes [simp, codec_simps]:
  "x < 256 ^ w \<Longrightarrow> from_le_bytes (to_le_bytes w x) = x"
proof (induction w arbitrary: x)
  case (Suc w)
  then have "x div 256 < 256 ^ w" by (simp add: less_mult_imp_div_less mult.commute)
  with Suc.IH show ?case by simp
qed simp

lemma from_le_bytes_bound: "from_le_bytes bs < 256 ^ length bs"
proof (induction bs)
  case (Cons b bs)
  have "unat b < 256" using unsigned_less [of b] by simp
  with Cons show ?case by simp
qed simp

lemma to_from_le_bytes [codec_simps]: "to_le_bytes (length bs) (from_le_bytes bs) = bs"
proof (induction bs)
  case (Cons b bs)
  have b: "unat b < 256" using unsigned_less [of b] by simp
  then have "(unat b + 256 * from_le_bytes bs) div 256 = from_le_bytes bs"
    and "(unat b + 256 * from_le_bytes bs) mod 256 = unat b" by simp_all
  with Cons show ?case by simp
qed simp

end
