(* ===== verification/Top_K.thy ===== *)
theory Top_K
  imports Prelude
begin

text \<open>
  The \<open>k\<close> smallest elements of a finite set, as every ranked search of the program returns
  them. The set is characterised without sorting (\<open>topk_unique\<close>); the other lemmas
  say how it changes when one element is added, which is the step of a bounded heap, and when it
  is already decided by a part of the candidates, which is the stopping rule of a search.
\<close>

lemma topk_subset: "finite S \<Longrightarrow> topk k S \<subseteq> S"
  unfolding topk_def by (metis set_sorted_list_of_set set_take_subset)

lemma finite_topk [simp]: "finite (topk k S)"
  by (simp add: topk_def)

lemma card_topk: "finite S \<Longrightarrow> card (topk k S) = min k (card S)"
  by (simp add: topk_def distinct_card distinct_take)

lemma topk_less:
  assumes "finite S" "t \<in> topk k S" "s \<in> S" "s \<notin> topk k S"
  shows "t < s"
proof -
  let ?xs = "sorted_list_of_set S"
  have xs: "sorted ?xs" "distinct ?xs" "set ?xs = S" using assms(1) by simp_all
  obtain i where i: "i < length ?xs" "i < k" "t = ?xs ! i"
    using assms(2) by (auto simp: topk_def in_set_conv_nth)
  obtain j where j: "j < length ?xs" "s = ?xs ! j"
    using assms(3) xs(3) by (metis in_set_conv_nth)
  have "k \<le> j"
  proof (rule ccontr)
    assume "\<not> k \<le> j"
    then have "?xs ! j \<in> set (take k ?xs)" using j(1) by (auto simp: in_set_conv_nth)
    then show False using assms(4) j(2) by (simp add: topk_def)
  qed
  then show ?thesis
    using i j xs(1,2) by (simp add: order.strict_iff_order nth_eq_iff_index_eq sorted_nth_mono)
qed

lemma topk_unique:
  fixes S T :: "'a::linorder set"
  assumes "finite S" "T \<subseteq> S" "card T = min k (card S)"
    and less: "\<And>t s. t \<in> T \<Longrightarrow> s \<in> S \<Longrightarrow> s \<notin> T \<Longrightarrow> t < s"
  shows "T = topk k S"
proof -
  have T: "finite T" using assms(1,2) finite_subset by blast
  have card: "card T = card (topk k S)" using assms(1,3) by (simp add: card_topk)
  have sub: "topk k S \<subseteq> S" using assms(1) by (rule topk_subset)
  have "T \<subseteq> topk k S \<or> topk k S \<subseteq> T"
  proof (rule ccontr)
    assume "\<not> ?thesis"
    then obtain a b where "a \<in> T" "a \<notin> topk k S" "b \<in> topk k S" "b \<notin> T" by blast
    then have "a < b" "b < a"
      using less [of a b] topk_less [of S b k a] assms(1,2) sub by blast+
    then show False by simp
  qed
  then show ?thesis using card T by (metis card_subset_eq finite_topk)
qed

lemma sorted_list_of_topk:
  "finite S \<Longrightarrow> sorted_list_of_set (topk k S) = take k (sorted_list_of_set S)"
  by (rule sorted_distinct_set_unique)
     (simp_all add: topk_def sorted_wrt_take distinct_take)

lemma sort_distinct_topk:
  assumes "finite S" "distinct xs" "set xs = topk k S"
  shows "sort xs = take k (sorted_list_of_set S)"
  using assms by (metis sorted_list_of_set_sort_remdups distinct_remdups_id sorted_list_of_topk)

lemma topk_all: "finite S \<Longrightarrow> card S \<le> k \<Longrightarrow> topk k S = S"
  by (simp add: topk_def)

lemma topk_empty [simp]: "topk k {} = {}"
  by (simp add: topk_def)

text \<open>One more candidate.\<close>

lemma topk_insert_room:
  assumes "finite S" "card (topk k S) < k"
  shows "topk k (insert x S) = insert x (topk k S)"
proof -
  have "card S < k" using assms by (simp add: card_topk)
  then have "card (insert x S) \<le> k" using card_insert_le_m1 [of k S x] by simp
  with \<open>card S < k\<close> assms(1) show ?thesis by (simp add: topk_all)
qed

lemma topk_insert_worse:
  assumes "finite S" "card (topk k S) = k" "\<And>t. t \<in> topk k S \<Longrightarrow> t < x"
  shows "topk k (insert x S) = topk k S"
proof (rule topk_unique [symmetric])
  show "topk k S \<subseteq> insert x S" using topk_subset [OF assms(1)] by blast
  have "k \<le> card S" using assms(1,2) by (simp add: card_topk)
  also have "\<dots> \<le> card (insert x S)" using assms(1) by (simp add: card_insert_le)
  finally show "card (topk k S) = min k (card (insert x S))" using assms(2) by simp
qed (use assms topk_less in auto)

lemma topk_insert_better:
  assumes "finite S" "card (topk k S) = k" "x \<notin> S" "w \<in> topk k S" "x < w"
    and worst: "\<And>t. t \<in> topk k S \<Longrightarrow> t \<le> w"
  shows "topk k (insert x S) = insert x (topk k S - {w})"
proof (rule topk_unique [symmetric])
  have sub: "topk k S \<subseteq> S" using assms(1) by (rule topk_subset)
  show "insert x (topk k S - {w}) \<subseteq> insert x S" using sub by blast
  have "k \<le> card S" using assms(1,2) by (simp add: card_topk)
  moreover have "card (insert x (topk k S - {w})) = k"
  proof -
    have "x \<notin> topk k S - {w}" using assms(3) sub by blast
    then have "card (insert x (topk k S - {w})) = Suc (card (topk k S - {w}))" by simp
    then show ?thesis using assms(2,4) by (simp only: card_Suc_Diff1 finite_topk)
  qed
  ultimately show "card (insert x (topk k S - {w})) = min k (card (insert x S))"
    using assms(1,3) by simp
  fix t s
  assume t: "t \<in> insert x (topk k S - {w})" and s: "s \<in> insert x S" "s \<notin> insert x (topk k S - {w})"
  then consider "s = w" | "s \<in> S" "s \<notin> topk k S" by blast
  then show "t < s"
  proof cases
    case 1
    then show ?thesis using t assms(5) worst by (auto simp: order.strict_iff_order)
  next
    case 2
    then have "w < s" using topk_less [OF assms(1) assms(4)] by blast
    then show ?thesis using t worst [of t] assms(5) by force
  qed
qed (use assms in simp)

text \<open>The stopping rule: the candidates seen so far decide the result.\<close>

lemma topk_decided:
  assumes "finite S" "A \<subseteq> S" "card (topk k A) = k"
    and "\<And>t s. t \<in> topk k A \<Longrightarrow> s \<in> S \<Longrightarrow> s \<notin> A \<Longrightarrow> t < s"
  shows "topk k S = topk k A"
proof (rule topk_unique [symmetric])
  have A: "finite A" using assms(1,2) finite_subset by blast
  then show "topk k A \<subseteq> S" using topk_subset [OF A] assms(2) by blast
  have "k \<le> card A" using assms(3) A by (simp add: card_topk)
  also have "\<dots> \<le> card S" using assms(1,2) by (rule card_mono)
  finally show "card (topk k A) = min k (card S)" using assms(3) by simp
  show "t < s" if "t \<in> topk k A" "s \<in> S" "s \<notin> topk k A" for t s
    using that assms(4) topk_less [OF A] by blast
qed (rule assms)

end
