(* ===== verification/Vector_Types.thy ===== *)
theory Vector_Types
  imports Top_K
begin

text \<open>
  The foundation types of VectorKit (\<open>engine/key.rs\<close>, \<open>engine/metric.rs\<close>,
  \<open>engine/payload.rs\<close>, \<open>engine/hit.rs\<close>, \<open>engine/seam.rs\<close>, \<open>error.rs\<close>):
  record keys with their lexicographic order, metrics, typed payloads, hits, metadata filters and
  errors. A \<open>String\<close> is the list of its bytes (\<open>string\<close>), whose lexicographic order is
  Rust's. A \<open>format!\<close> message is its template and its arguments. An \<open>f32\<close> is its
  bit pattern. The Hamming distance is the external crate \<open>engram_lib\<close>: a parameter of every
  definition that uses it, with the locale \<open>engram_lib\<close> stating what its documentation
  promises.
\<close>

section \<open>Metrics, kinds and errors\<close>

datatype binary_metric = Hamming | Jaccard
datatype float_metric = Cosine | L2 | Dot
datatype dense_metric = DenseBinary binary_metric | DenseFloat float_metric

fun is_binary :: "dense_metric \<Rightarrow> bool" where
  "is_binary (DenseBinary _) = True"
| "is_binary (DenseFloat _) = False"

fun is_float :: "dense_metric \<Rightarrow> bool" where
  "is_float (DenseFloat _) = True"
| "is_float (DenseBinary _) = False"

datatype vector_kind = Binary | Float32 | Int8

text \<open>The stable integer of the \<open>kind\<close> column and its decoder.\<close>

fun kind_raw :: "vector_kind \<Rightarrow> int" where
  "kind_raw Binary = 0"
| "kind_raw Float32 = 1"
| "kind_raw Int8 = 2"

definition kind_from_raw :: "int \<Rightarrow> vector_kind option" where
  "kind_from_raw v =
     (if v = 0 then Some Binary else if v = 1 then Some Float32
      else if v = 2 then Some Int8 else None)"

datatype fmt_arg = FNat nat | FKind vector_kind | FMetric dense_metric | FText string | FBytes "u8 list"

datatype message = Fmt string "fmt_arg list"

datatype vectorkit_error =
    EmbeddingFailed message
  | ModelUnavailable message
  | StoreUnavailable message
  | NotFound
  | InvalidPayload message
  | DecodingFailure message
  | Int8QuantizationPolicyUndefined message
  | EmbedFloatVocabMiss message

section \<open>Record keys\<close>

record vector_record_key =
  item_id :: string
  vector_index :: u32
  model_id :: string
  model_version :: string

text \<open>\<open>impl Ord for VectorRecordKey\<close>: lexicographic over the four fields.\<close>

instantiation vector_record_key_ext :: (linorder) linorder
begin

definition less_eq_vector_record_key_ext ::
    "('a::linorder) vector_record_key_ext \<Rightarrow> 'a vector_record_key_ext \<Rightarrow> bool" where
  "less_eq_vector_record_key_ext a b \<longleftrightarrow>
     (item_id a, vector_index a, model_id a, model_version a, vector_record_key.more a)
       \<le> (item_id b, vector_index b, model_id b, model_version b, vector_record_key.more b)"

definition less_vector_record_key_ext ::
    "('a::linorder) vector_record_key_ext \<Rightarrow> 'a vector_record_key_ext \<Rightarrow> bool" where
  "less_vector_record_key_ext a b \<longleftrightarrow>
     (item_id a, vector_index a, model_id a, model_version a, vector_record_key.more a)
       < (item_id b, vector_index b, model_id b, model_version b, vector_record_key.more b)"

instance
  by standard
    (auto simp: less_eq_vector_record_key_ext_def less_vector_record_key_ext_def
      intro!: vector_record_key.equality)

end

text \<open>The derived comparison of the source, field by field with \<open>then\<close>.\<close>

datatype ordering = Less | Equal | Greater

definition cmp :: "'a::linorder \<Rightarrow> 'a \<Rightarrow> ordering" where
  "cmp a b = (if a < b then Less else if a = b then Equal else Greater)"

fun ordering_then :: "ordering \<Rightarrow> ordering \<Rightarrow> ordering" where
  "ordering_then Equal o' = o'"
| "ordering_then Less o' = Less"
| "ordering_then Greater o' = Greater"

definition key_cmp :: "vector_record_key \<Rightarrow> vector_record_key \<Rightarrow> ordering" where
  "key_cmp a b =
     ordering_then (ordering_then (ordering_then
       (cmp (item_id a) (item_id b))
       (cmp (vector_index a) (vector_index b)))
       (cmp (model_id a) (model_id b)))
       (cmp (model_version a) (model_version b))"

section \<open>Engrams and payloads\<close>

text \<open>The 256-bit code of \<open>engram_lib\<close>, by the four fields the sources read.\<close>

record engram =
  block0 :: u64
  block1 :: u64
  block2 :: u64
  block3 :: u64

record vector_payload =
  payload_kind :: vector_kind
  payload_dim :: u32
  payload_bytes :: "u8 list"
  payload_scale :: "u32 option"

text \<open>
  \<open>from_engram\<close> and \<open>as_engram\<close> over the external \<open>wire_bytes\<close> and
  \<open>from_wire_bytes\<close>, which are arguments.
\<close>

definition from_engram :: "(engram \<Rightarrow> u8 list) \<Rightarrow> engram \<Rightarrow> vector_payload" where
  "from_engram wire_bytes e =
     \<lparr>payload_kind = Binary, payload_dim = 256, payload_bytes = wire_bytes e, payload_scale = None\<rparr>"

definition as_engram ::
    "(u8 list \<Rightarrow> string + engram) \<Rightarrow> vector_payload \<Rightarrow> vectorkit_error + engram" where
  "as_engram from_wire_bytes p =
     (if payload_kind p \<noteq> Binary
      then Inl (InvalidPayload (Fmt ''expected Binary payload, got {:?}'' [FKind (payload_kind p)]))
      else if length (payload_bytes p) \<noteq> 32
      then Inl (InvalidPayload
             (Fmt ''Binary payload must be 32 bytes, got {}'' [FNat (length (payload_bytes p))]))
      else (case from_wire_bytes (payload_bytes p) of
              Inl e \<Rightarrow> Inl (DecodingFailure (Fmt ''engram decode: {e}'' [FText e]))
            | Inr e \<Rightarrow> Inr e))"

definition from_f32 :: "u32 list \<Rightarrow> vector_payload" where
  "from_f32 vs =
     \<lparr>payload_kind = Float32, payload_dim = word_of_nat (length vs),
      payload_bytes = concat (map (\<lambda>v. to_le_bytes 4 (unat v)) vs), payload_scale = None\<rparr>"

text \<open>\<open>chunks_exact(4)\<close>: the incomplete tail is dropped.\<close>

fun chunks_exact4 :: "u8 list \<Rightarrow> u8 list list" where
  "chunks_exact4 (a # b # c # d # bs) = [a, b, c, d] # chunks_exact4 bs"
| "chunks_exact4 bs = []"

definition as_f32_vec :: "vector_payload \<Rightarrow> vectorkit_error + u32 list" where
  "as_f32_vec p =
     (if payload_kind p \<noteq> Float32
      then Inl (InvalidPayload (Fmt ''expected Float32 payload, got {:?}'' [FKind (payload_kind p)]))
      else if length (payload_bytes p) mod 4 \<noteq> 0
      then Inl (DecodingFailure (Fmt ''Float32 payload byte count {} is not a multiple of 4''
             [FNat (length (payload_bytes p))]))
      else Inr (map (\<lambda>c. word_of_nat (from_le_bytes c)) (chunks_exact4 (payload_bytes p))))"

text \<open>The 32-byte wire form read as four little-endian \<open>u64\<close>, as both indexes decode it.\<close>

definition le_engram :: "u8 list \<Rightarrow> engram" where
  "le_engram bs =
     \<lparr>block0 = word_of_nat (from_le_bytes (take 8 bs)),
      block1 = word_of_nat (from_le_bytes (take 8 (drop 8 bs))),
      block2 = word_of_nat (from_le_bytes (take 8 (drop 16 bs))),
      block3 = word_of_nat (from_le_bytes (take 8 (drop 24 bs)))\<rparr>"

definition engram_bytes :: "engram \<Rightarrow> u8 list" where
  "engram_bytes e =
     to_le_bytes 8 (unat (block0 e)) @ to_le_bytes 8 (unat (block1 e))
       @ to_le_bytes 8 (unat (block2 e)) @ to_le_bytes 8 (unat (block3 e))"

definition binary32 :: "vector_payload \<Rightarrow> bool" where
  "binary32 p \<longleftrightarrow> payload_kind p = Binary \<and> length (payload_bytes p) = 32"

section \<open>Hits and filters\<close>

record dense_hit =
  hit_key :: vector_record_key
  raw_distance :: int
  hit_metric :: dense_metric

definition hamming_distance :: "dense_hit \<Rightarrow> u32 option" where
  "hamming_distance h = (if is_binary (hit_metric h) then Some (word_of_int (raw_distance h)) else None)"

definition hit_cmp :: "dense_hit \<Rightarrow> dense_hit \<Rightarrow> ordering" where
  "hit_cmp a b =
     ordering_then (cmp (raw_distance a) (raw_distance b)) (key_cmp (hit_key a) (hit_key b))"

datatype index_kind = BruteForce | Mih

record metadata_filter =
  filter_model_id :: "string option"
  filter_model_version :: "string option"

definition accepts :: "metadata_filter \<Rightarrow> vector_record_key \<Rightarrow> bool" where
  "accepts f key =
     (if (case filter_model_id f of Some mid \<Rightarrow> model_id key \<noteq> mid | None \<Rightarrow> False) then False
      else if (case filter_model_version f of Some v \<Rightarrow> model_version key \<noteq> v | None \<Rightarrow> False) then False
      else True)"

text \<open>The optional filter of a search: no filter accepts every key.\<close>

definition accepted :: "metadata_filter option \<Rightarrow> vector_record_key \<Rightarrow> bool" where
  "accepted f key = (case f of None \<Rightarrow> True | Some m \<Rightarrow> accepts m key)"

section \<open>The distance of the external crate\<close>

definition hamming :: "engram \<Rightarrow> engram \<Rightarrow> nat" where
  "hamming a b =
     popcount (block0 a XOR block0 b) + popcount (block1 a XOR block1 b)
       + popcount (block2 a XOR block2 b) + popcount (block3 a XOR block3 b)"

definition hamming_u32 :: "engram \<Rightarrow> engram \<Rightarrow> u32" where
  "hamming_u32 a b = word_of_nat (hamming a b)"

text \<open>
  What \<open>engram_lib\<close> documents: \<open>distance\<close> is the population count of the exclusive or,
  \<open>distances\<close> the batch form of it.
\<close>

locale engram_lib =
  fixes distance :: "engram \<Rightarrow> engram \<Rightarrow> u32"
    and distances :: "engram \<Rightarrow> engram list \<Rightarrow> u32 list"
  assumes distance_popcount: "unat (distance a b) = hamming a b"
    and distances_map: "distances a bs = map (distance a) bs"

section \<open>The contract of a search\<close>

text \<open>
  The candidates of a search over a map of codes: every stored and accepted key with its
  distance; the result is the \<open>k\<close> smallest by distance and then key.
\<close>

definition candidates ::
    "(engram \<Rightarrow> engram \<Rightarrow> u32) \<Rightarrow> (vector_record_key \<rightharpoonup> engram) \<Rightarrow> metadata_filter option \<Rightarrow> engram
      \<Rightarrow> (u32 \<times> vector_record_key) set" where
  "candidates distance M f probe = {(distance probe e, key) | key e. M key = Some e \<and> accepted f key}"

definition to_hit :: "u32 \<times> vector_record_key \<Rightarrow> dense_hit" where
  "to_hit = (\<lambda>(d, key). \<lparr>hit_key = key, raw_distance = sint d, hit_metric = DenseBinary Hamming\<rparr>)"

definition knn_spec ::
    "(engram \<Rightarrow> engram \<Rightarrow> u32) \<Rightarrow> (vector_record_key \<rightharpoonup> engram) \<Rightarrow> engram \<Rightarrow> nat
      \<Rightarrow> metadata_filter option \<Rightarrow> dense_hit list" where
  "knn_spec distance M probe k f =
     map to_hit (take k (sorted_list_of_set (candidates distance M f probe)))"

section \<open>Keys and codecs\<close>

lemma cmp_simps:
  "cmp a b = Less \<longleftrightarrow> a < b"
  "cmp a b = Equal \<longleftrightarrow> a = b"
  "cmp a b = Greater \<longleftrightarrow> b < a"
  by (auto simp: cmp_def)

lemma ordering_then_simps:
  "ordering_then a b = Less \<longleftrightarrow> a = Less \<or> a = Equal \<and> b = Less"
  "ordering_then a b = Equal \<longleftrightarrow> a = Equal \<and> b = Equal"
  by (cases a; simp)+

lemma key_cmp_Less: "key_cmp a b = Less \<longleftrightarrow> a < b"
  by (auto simp: key_cmp_def less_vector_record_key_ext_def ordering_then_simps cmp_simps)

lemma key_cmp_Equal: "key_cmp a b = Equal \<longleftrightarrow> a = b"
  by (auto simp: key_cmp_def ordering_then_simps cmp_simps intro: vector_record_key.equality)

lemma kind_from_raw_raw: "kind_from_raw (kind_raw k) = Some k"
  by (cases k) (simp_all add: kind_from_raw_def)

lemma chunks_exact4_append: "length b = 4 \<Longrightarrow> chunks_exact4 (b @ bs) = b # chunks_exact4 bs"
  by (auto simp: eval_nat_numeral length_Suc_conv)

lemma chunks_exact4_concat:
  "chunks_exact4 (concat (map (\<lambda>v. to_le_bytes 4 (f v)) vs)) = map (\<lambda>v. to_le_bytes 4 (f v)) vs"
  by (induction vs) (simp_all add: chunks_exact4_append)

lemma word_of_le_bytes_u32 [codec_simps]:
  "word_of_nat (from_le_bytes (to_le_bytes 4 (unat v))) = (v :: u32)"
  using unat_u32_less [of v] by simp

lemma word_of_le_bytes_u64 [codec_simps]:
  "word_of_nat (from_le_bytes (to_le_bytes 8 (unat v))) = (v :: u64)"
  using unat_u64_less [of v] by simp

lemma length_engram_bytes [simp]: "length (engram_bytes e) = 32"
  by (simp add: engram_bytes_def)

lemma le_engram_bytes [simp]: "le_engram (engram_bytes e) = e"
  by (simp add: le_engram_def engram_bytes_def word_of_le_bytes_u64)

lemma hamming_le_256: "hamming a b \<le> 256"
proof -
  have p: "popcount (w :: u64) \<le> 64" for w
    unfolding popcount_def using length_filter_le [of "bit w" "[0..<64]"] by simp
  show ?thesis
    using p [of "block0 a XOR block0 b"] p [of "block1 a XOR block1 b"]
      p [of "block2 a XOR block2 b"] p [of "block3 a XOR block3 b"]
    unfolding hamming_def by linarith
qed

lemma unat_hamming_u32: "unat (hamming_u32 a b) = hamming a b"
  using hamming_le_256 [of a b] by (simp add: hamming_u32_def unat_of_nat)

interpretation hamming_lib: engram_lib hamming_u32 "\<lambda>a. map (hamming_u32 a)"
  by unfold_locales (simp_all add: unat_hamming_u32)

context engram_lib
begin

lemma distance_le_256: "unat (distance a b) \<le> 256"
  by (simp add: distance_popcount hamming_le_256)

lemma distance_sint: "sint (distance a b) = int (hamming a b)"
  using sint_small [of "distance a b"] distance_popcount [of a b] hamming_le_256 [of a b] by simp

end

lemma finite_candidates:
  assumes "finite (dom M)"
  shows "finite (candidates distance M f probe)"
proof -
  have "candidates distance M f probe \<subseteq> (\<lambda>key. (distance probe (the (M key)), key)) ` dom M"
    by (force simp: candidates_def)
  then show ?thesis using assms finite_surj by blast
qed

end
