(* ===== verification/Resident_Array.thy ===== *)
theory Resident_Array
  imports Vector_Types "HOL-Library.AList"
begin

text \<open>
  The packed resident array (\<open>engine/resident.rs\<close>) with the tombstone bitset and the model
  partition index that \<open>engine/brute_force.rs\<close> and \<open>engine/resident_store.rs\<close> both
  maintain (each file carries its own copy of the two helpers). The live records of an array are
  the list of keys and bytes of the slots that are not tombstoned: appending a slot appends to it,
  tombstoning filters it, and the partition of a model is the smallest range that holds every live
  slot of that model.
\<close>

section \<open>The array\<close>

record model_partition_entry =
  part_model_id :: string
  part_start :: nat
  part_end :: nat

definition part_range :: "model_partition_entry \<Rightarrow> nat \<times> nat" where
  "part_range p = (part_start p, part_end p)"

record resident_vector_array =
  arr_kind :: vector_kind
  arr_stride :: nat
  arr_count :: nat
  arr_storage :: "u8 list"
  arr_keys :: "vector_record_key list"
  model_partitions :: "model_partition_entry list"
  tombstones :: "u64 list"

definition arr_empty :: "vector_kind \<Rightarrow> nat \<Rightarrow> resident_vector_array" where
  "arr_empty k st =
     \<lparr>arr_kind = k, arr_stride = st, arr_count = 0, arr_storage = [], arr_keys = [],
      model_partitions = [], tombstones = []\<rparr>"

text \<open>The bit test of \<open>is_tombstoned\<close> and of the loop of \<open>build_partitions\<close>.\<close>

definition is_dead :: "u64 list \<Rightarrow> nat \<Rightarrow> bool" where
  "is_dead words i =
     (let w = i div 64; b = i mod 64
      in if length words \<le> w then False else drop_bit b (words ! w) AND 1 = 1)"

definition is_tombstoned :: "resident_vector_array \<Rightarrow> nat \<Rightarrow> bool" where
  "is_tombstoned arr i = is_dead (tombstones arr) i"

definition live_count :: "resident_vector_array \<Rightarrow> nat" where
  "live_count arr = length (filter (\<lambda>i. \<not> is_tombstoned arr i) [0..<arr_count arr])"

text \<open>The slice of a slot; \<open>None\<close> is the panic of an out-of-range slice.\<close>

definition vector_bytes :: "resident_vector_array \<Rightarrow> nat \<Rightarrow> u8 list option" where
  "vector_bytes arr i =
     (let start = i * arr_stride arr
      in if start + arr_stride arr \<le> length (arr_storage arr)
         then Some (take (arr_stride arr) (drop start (arr_storage arr))) else None)"

definition partition_range :: "resident_vector_array \<Rightarrow> string \<Rightarrow> (nat \<times> nat) option" where
  "partition_range arr mid =
     (case binary_search_by part_model_id (model_partitions arr) mid of
        Some i \<Rightarrow> Some (part_range (model_partitions arr ! i))
      | None \<Rightarrow> None)"

section \<open>Tombstones and partitions\<close>

text \<open>The loop that pushes zero words up to a length.\<close>

definition pad_words :: "nat \<Rightarrow> u64 list \<Rightarrow> u64 list" where
  "pad_words n words = words @ replicate (n - length words) 0"

definition set_tombstone_bit :: "u64 list \<Rightarrow> nat \<Rightarrow> u64 list" where
  "set_tombstone_bit words slot =
     (let w = slot div 64; b = slot mod 64; words' = pad_words (Suc w) words
      in words'[w := (words' ! w) OR push_bit b 1])"

text \<open>The loop over all slots that tombstones those whose key satisfies a test.\<close>

definition mark_slots :: "(vector_record_key \<Rightarrow> bool) \<Rightarrow> resident_vector_array \<Rightarrow> u64 list \<times> bool" where
  "mark_slots P arr =
     fold (\<lambda>slot_idx (words, changed).
             if P (arr_keys arr ! slot_idx) then (set_tombstone_bit words slot_idx, True)
             else (words, changed))
       [0..<arr_count arr] (tombstones arr, False)"

definition note_min :: "string \<Rightarrow> nat \<Rightarrow> (string \<times> nat) list \<Rightarrow> (string \<times> nat) list" where
  "note_min mid idx m =
     (case map_of m mid of
        None \<Rightarrow> AList.update mid idx m
      | Some lo \<Rightarrow> if idx < lo then AList.update mid idx m else m)"

definition note_max :: "string \<Rightarrow> nat \<Rightarrow> (string \<times> nat) list \<Rightarrow> (string \<times> nat) list" where
  "note_max mid idx m =
     (case map_of m mid of
        None \<Rightarrow> AList.update mid idx m
      | Some hi \<Rightarrow> if hi < idx then AList.update mid idx m else m)"

definition slot_extents ::
    "vector_record_key list \<Rightarrow> u64 list \<Rightarrow> (string \<times> nat) list \<times> (string \<times> nat) list" where
  "slot_extents ks tombs =
     fold (\<lambda>(idx, key) (min_idx, max_idx).
             if is_dead tombs idx then (min_idx, max_idx)
             else (note_min (model_id key) idx min_idx, note_max (model_id key) idx max_idx))
       (enumerate 0 ks) ([], [])"

definition build_partitions ::
    "vector_record_key list \<Rightarrow> u64 list \<Rightarrow> model_partition_entry list" where
  "build_partitions ks tombs =
     (let (min_idx, max_idx) = slot_extents ks tombs
      in List.map_filter
           (\<lambda>mid. case map_of min_idx mid of
                    None \<Rightarrow> None
                  | Some lo \<Rightarrow>
                      (case map_of max_idx mid of
                         None \<Rightarrow> None
                       | Some hi \<Rightarrow> Some \<lparr>part_model_id = mid, part_start = lo, part_end = hi + 1\<rparr>))
           (sort (map fst min_idx)))"

text \<open>
  The struct literals that replace the tombstones of an array, and that append one slot to it
  (with the partitions recomputed).
\<close>

definition with_tombstones :: "resident_vector_array \<Rightarrow> u64 list \<Rightarrow> resident_vector_array" where
  "with_tombstones arr ws =
     \<lparr>arr_kind = arr_kind arr, arr_stride = arr_stride arr, arr_count = arr_count arr,
      arr_storage = arr_storage arr, arr_keys = arr_keys arr,
      model_partitions = build_partitions (arr_keys arr) ws, tombstones = ws\<rparr>"

definition with_slot ::
    "resident_vector_array \<Rightarrow> vector_record_key \<Rightarrow> u8 list \<Rightarrow> u64 list \<Rightarrow> resident_vector_array" where
  "with_slot arr key bs ws =
     (let new_keys = arr_keys arr @ [key];
          new_count = length new_keys;
          new_tombstones = pad_words ((new_count + 63) div 64) ws
      in \<lparr>arr_kind = arr_kind arr, arr_stride = arr_stride arr, arr_count = new_count,
          arr_storage = arr_storage arr @ bs, arr_keys = new_keys,
          model_partitions = build_partitions new_keys new_tombstones,
          tombstones = new_tombstones\<rparr>)"

section \<open>Invariant and live records\<close>

definition slot_bytes :: "resident_vector_array \<Rightarrow> nat \<Rightarrow> u8 list" where
  "slot_bytes arr i = take (arr_stride arr) (drop (i * arr_stride arr) (arr_storage arr))"

definition live_slots :: "resident_vector_array \<Rightarrow> nat list" where
  "live_slots arr = filter (\<lambda>i. \<not> is_tombstoned arr i) [0..<arr_count arr]"

definition live_records :: "resident_vector_array \<Rightarrow> (vector_record_key \<times> u8 list) list" where
  "live_records arr = map (\<lambda>i. (arr_keys arr ! i, slot_bytes arr i)) (live_slots arr)"

text \<open>
  The documented layout: one key and \<open>stride\<close> bytes per slot, one bit per slot rounded up to
  words, no bit set beyond the slots, and the partitions of the current tombstones.
\<close>

definition arr_ok :: "resident_vector_array \<Rightarrow> bool" where
  "arr_ok arr \<longleftrightarrow>
     length (arr_keys arr) = arr_count arr
     \<and> length (arr_storage arr) = arr_count arr * arr_stride arr
     \<and> length (tombstones arr) = (arr_count arr + 63) div 64
     \<and> (\<forall>i. is_tombstoned arr i \<longrightarrow> i < arr_count arr)
     \<and> model_partitions arr = build_partitions (arr_keys arr) (tombstones arr)"

definition model_slots :: "vector_record_key list \<Rightarrow> u64 list \<Rightarrow> string \<Rightarrow> nat set" where
  "model_slots ks tombs mid = {i. i < length ks \<and> \<not> is_dead tombs i \<and> model_id (ks ! i) = mid}"

subsection \<open>The bitset\<close>

lemma is_dead_bit: "is_dead words i \<longleftrightarrow> i div 64 < length words \<and> bit (words ! (i div 64)) (i mod 64)"
  by (simp add: is_dead_def Let_def and_one_eq mod_2_eq_odd bit_iff_odd_drop_bit)

lemma length_pad_words [simp]: "length (pad_words n words) = max n (length words)"
  by (simp add: pad_words_def)

lemma is_dead_pad_words [simp]: "is_dead (pad_words n words) i \<longleftrightarrow> is_dead words i"
  by (auto simp: is_dead_bit pad_words_def nth_append)

lemma length_set_tombstone_bit [simp]:
  "length (set_tombstone_bit words s) = max (Suc (s div 64)) (length words)"
  by (simp add: set_tombstone_bit_def Let_def)

lemma is_dead_set_tombstone_bit [simp]:
  "is_dead (set_tombstone_bit words s) i \<longleftrightarrow> i = s \<or> is_dead words i"
proof -
  have eq: "i = s \<longleftrightarrow> i div 64 = s div 64 \<and> i mod 64 = s mod 64"
    by (metis div_mult_mod_eq)
  have set: "bit ((pad_words (Suc (s div 64)) words ! (s div 64)) OR push_bit (s mod 64) (1 :: u64)) n
      \<longleftrightarrow> bit (pad_words (Suc (s div 64)) words ! (s div 64)) n \<or> n = s mod 64" if "n < 64" for n
    using that by (auto simp: bit_or_iff push_bit_eq_mult bit_exp_iff)
  have "is_dead (set_tombstone_bit words s) i \<longleftrightarrow> i = s \<or> is_dead (pad_words (Suc (s div 64)) words) i"
    using set [of "i mod 64"]
    by (cases "i div 64 = s div 64")
      (auto simp: is_dead_bit set_tombstone_bit_def Let_def nth_list_update eq)
  then show ?thesis by simp
qed

lemma is_dead_Nil [simp]: "\<not> is_dead [] i"
  by (simp add: is_dead_bit)

lemma is_dead_replicate [simp]: "\<not> is_dead (replicate n 0) i"
  by (auto simp: is_dead_bit)

lemma mark_slots_prefix:
  assumes "fold (\<lambda>slot_idx (words, changed).
             if P (ks ! slot_idx) then (set_tombstone_bit words slot_idx, True)
             else (words, changed)) [0..<n] (ws, False) = (ws', changed)"
    and "n \<le> m" "length ws = (m + 63) div 64"
  shows "(\<forall>i. is_dead ws' i \<longleftrightarrow> is_dead ws i \<or> i < n \<and> P (ks ! i))
    \<and> length ws' = length ws \<and> (changed \<longleftrightarrow> (\<exists>i < n. P (ks ! i))) \<and> (\<not> changed \<longrightarrow> ws' = ws)"
  using assms
proof (induction n arbitrary: ws' changed)
  case (Suc n)
  obtain ws1 c1 where f: "fold (\<lambda>slot_idx (words, changed).
             if P (ks ! slot_idx) then (set_tombstone_bit words slot_idx, True)
             else (words, changed)) [0..<n] (ws, False) = (ws1, c1)"
    by (rule prod.exhaust)
  note ih = Suc.IH [OF f] Suc.prems(2,3)
  have ws': "(ws', changed) = (if P (ks ! n) then (set_tombstone_bit ws1 n, True) else (ws1, c1))"
    using Suc.prems(1) f by simp
  have "Suc (n div 64) \<le> (m + 63) div 64" using Suc.prems(2) by simp
  then show ?case using ih ws' by (auto simp: less_Suc_eq split: if_splits)
qed simp

lemma mark_slots:
  assumes "arr_ok arr" "mark_slots P arr = (ws, changed)"
  shows "is_dead ws i \<longleftrightarrow> is_tombstoned arr i \<or> i < arr_count arr \<and> P (arr_keys arr ! i)"
    and "length ws = length (tombstones arr)"
    and "changed \<longleftrightarrow> (\<exists>key \<in> set (arr_keys arr). P key)"
    and "\<not> changed \<Longrightarrow> ws = tombstones arr"
proof -
  note facts = mark_slots_prefix [OF assms(2) [unfolded mark_slots_def] order.refl]
    assms(1) [unfolded arr_ok_def]
  show "is_dead ws i \<longleftrightarrow> is_tombstoned arr i \<or> i < arr_count arr \<and> P (arr_keys arr ! i)"
    and "length ws = length (tombstones arr)"
    and "\<not> changed \<Longrightarrow> ws = tombstones arr"
    using facts by (simp_all add: is_tombstoned_def)
  show "changed \<longleftrightarrow> (\<exists>key \<in> set (arr_keys arr). P key)"
    using facts by (metis in_set_conv_nth)
qed

subsection \<open>The partition index\<close>

lemma map_of_note_min:
  "map_of (note_min mid idx m) mid' =
     (if mid' = mid then Some (case map_of m mid of None \<Rightarrow> idx | Some lo \<Rightarrow> min lo idx)
      else map_of m mid')"
  by (auto simp: note_min_def update_conv' min_def split: option.splits)

lemma map_of_note_max:
  "map_of (note_max mid idx m) mid' =
     (if mid' = mid then Some (case map_of m mid of None \<Rightarrow> idx | Some hi \<Rightarrow> max hi idx)
      else map_of m mid')"
  by (auto simp: note_max_def update_conv' max_def split: option.splits)

lemma distinct_note_min: "distinct (map fst m) \<Longrightarrow> distinct (map fst (note_min mid idx m))"
  by (auto simp: note_min_def intro: distinct_update split: option.splits)

lemma model_slots_snoc:
  "model_slots (ks @ [key]) tombs mid =
     (if \<not> is_dead tombs (length ks) \<and> model_id key = mid
      then insert (length ks) (model_slots ks tombs mid) else model_slots ks tombs mid)"
  by (auto simp: model_slots_def nth_append less_Suc_eq split: if_splits)

lemma finite_model_slots [simp]: "finite (model_slots ks tombs mid)"
  by (simp add: model_slots_def)

lemma model_slots_less: "i \<in> model_slots ks tombs mid \<Longrightarrow> i < length ks"
  by (simp add: model_slots_def)

definition extents_ok ::
    "vector_record_key list \<Rightarrow> u64 list \<Rightarrow> (string \<times> nat) list \<times> (string \<times> nat) list \<Rightarrow> bool" where
  "extents_ok ks tombs = (\<lambda>(min_idx, max_idx).
     distinct (map fst min_idx)
     \<and> (\<forall>mid. map_of min_idx mid =
          (let S = model_slots ks tombs mid in if S = {} then None else Some (Min S)))
     \<and> (\<forall>mid. map_of max_idx mid =
          (let S = model_slots ks tombs mid in if S = {} then None else Some (Max S))))"

lemma slot_extents_ok: "extents_ok ks tombs (slot_extents ks tombs)"
proof (induction ks rule: rev_induct)
  case Nil
  show ?case by (simp add: slot_extents_def extents_ok_def model_slots_def)
next
  case (snoc key ks)
  obtain mn mx where s: "slot_extents ks tombs = (mn, mx)" by (rule prod.exhaust)
  have step: "slot_extents (ks @ [key]) tombs =
      (if is_dead tombs (length ks) then (mn, mx)
       else (note_min (model_id key) (length ks) mn, note_max (model_id key) (length ks) mx))"
    using s by (simp add: slot_extents_def enumerate_append_eq)
  have le: "Min (insert (length ks) S) = min (Min S) (length ks)"
    "Max (insert (length ks) S) = max (Max S) (length ks)" if "S \<noteq> {}" "finite S" for S
    using that by (auto simp: min.commute max.commute)
  from snoc.IH show ?case
    unfolding step s extents_ok_def
    by (auto simp: Let_def map_of_note_min map_of_note_max distinct_note_min model_slots_snoc le
        split: if_splits)
qed

lemma map_filter_Some: "(\<And>x. x \<in> set xs \<Longrightarrow> f x = Some (g x)) \<Longrightarrow> List.map_filter f xs = map g xs"
  by (induction xs) (simp_all add: List.map_filter_simps)

lemma build_partitions_eq:
  "build_partitions ks tombs =
     map (\<lambda>mid. \<lparr>part_model_id = mid, part_start = Min (model_slots ks tombs mid),
                 part_end = Max (model_slots ks tombs mid) + 1\<rparr>)
       (sorted_list_of_set {mid. model_slots ks tombs mid \<noteq> {}})"
proof -
  obtain mn mx where s: "slot_extents ks tombs = (mn, mx)" by (rule prod.exhaust)
  have ok: "distinct (map fst mn)"
    "map_of mn mid = (let S = model_slots ks tombs mid in if S = {} then None else Some (Min S))"
    "map_of mx mid = (let S = model_slots ks tombs mid in if S = {} then None else Some (Max S))" for mid
    using slot_extents_ok [of ks tombs] s by (auto simp: extents_ok_def)
  have "set (map fst mn) = {mid. map_of mn mid \<noteq> None}"
    by (simp add: map_of_eq_None_iff)
  also have "\<dots> = {mid. model_slots ks tombs mid \<noteq> {}}" using ok(2) by (auto simp: Let_def)
  finally have mids: "set (map fst mn) = {mid. model_slots ks tombs mid \<noteq> {}}" .
  have fin: "finite {mid. model_slots ks tombs mid \<noteq> {}}"
    unfolding mids [symmetric] by simp
  have srt: "sort (map fst mn) = sorted_list_of_set {mid. model_slots ks tombs mid \<noteq> {}}"
    using ok(1) unfolding mids [symmetric]
    by (simp only: sorted_list_of_set_sort_remdups distinct_remdups_id)
  show ?thesis
    unfolding build_partitions_def s Let_def prod.case srt
    by (rule map_filter_Some) (use fin ok(2,3) in \<open>auto simp: Let_def\<close>)
qed

lemma partition_range_exact:
  assumes "arr_ok arr"
  shows "partition_range arr mid =
    (let S = {i \<in> set (live_slots arr). model_id (arr_keys arr ! i) = mid}
     in if S = {} then None else Some (Min S, Suc (Max S)))"
proof -
  let ?ms = "model_slots (arr_keys arr) (tombstones arr)"
  let ?mids = "{m. ?ms m \<noteq> {}}"
  have S: "{i \<in> set (live_slots arr). model_id (arr_keys arr ! i) = mid} = ?ms mid"
    using assms by (auto simp: live_slots_def is_tombstoned_def model_slots_def arr_ok_def)
  have fin: "finite ?mids"
    by (rule finite_subset [of _ "model_id ` set (arr_keys arr)"]) (auto simp: model_slots_def)
  let ?ps = "model_partitions arr"
  have ps: "?ps = map (\<lambda>m. \<lparr>part_model_id = m, part_start = Min (?ms m), part_end = Max (?ms m) + 1\<rparr>)
      (sorted_list_of_set ?mids)"
    using assms by (simp add: arr_ok_def build_partitions_eq)
  then have ids: "map part_model_id ?ps = sorted_list_of_set ?mids" by (simp add: o_def)
  then have srt: "sorted (map part_model_id ?ps)" by simp
  have mem: "mid \<in> part_model_id ` set ?ps \<longleftrightarrow> ?ms mid \<noteq> {}"
    using fin ids by (metis (mono_tags, lifting) list.set_map mem_Collect_eq set_sorted_list_of_set)
  show ?thesis
  proof (cases "?ms mid = {}")
    case True
    then show ?thesis
      using binary_search_by_None [OF srt, of mid] mem S by (simp add: partition_range_def Let_def)
  next
    case False
    then obtain i where i: "binary_search_by part_model_id ?ps mid = Some i"
      using binary_search_by_found [OF srt] mem by blast
    with binary_search_by_Some [OF srt i] have "?ps ! i \<in> set ?ps" "part_model_id (?ps ! i) = mid"
      by auto
    then have "part_range (?ps ! i) = (Min (?ms mid), Suc (Max (?ms mid)))"
      unfolding ps by (auto simp: part_range_def)
    then show ?thesis using i False S by (simp add: partition_range_def Let_def)
  qed
qed

subsection \<open>Live records\<close>

lemma arr_empty_ok: "arr_ok (arr_empty k st)"
  by (simp add: arr_ok_def arr_empty_def is_tombstoned_def build_partitions_def slot_extents_def
      List.map_filter_simps)

lemma vector_bytes_slot: "arr_ok arr \<Longrightarrow> i < arr_count arr \<Longrightarrow> vector_bytes arr i = Some (slot_bytes arr i)"
proof -
  assume "arr_ok arr" "i < arr_count arr"
  then have "i * arr_stride arr + arr_stride arr \<le> length (arr_storage arr)"
    using mult_le_mono1 [of "Suc i" "arr_count arr" "arr_stride arr"] by (simp add: arr_ok_def)
  then show ?thesis by (simp add: vector_bytes_def slot_bytes_def Let_def)
qed

lemma length_live_records: "length (live_records arr) = live_count arr"
  by (simp add: live_records_def live_slots_def live_count_def)

lemma set_live_slots: "set (live_slots arr) = {i. i < arr_count arr \<and> \<not> is_tombstoned arr i}"
  by (auto simp: live_slots_def)

lemma with_tombstones_simps [simp]:
  "arr_kind (with_tombstones arr ws) = arr_kind arr"
  "arr_stride (with_tombstones arr ws) = arr_stride arr"
  "arr_count (with_tombstones arr ws) = arr_count arr"
  "arr_storage (with_tombstones arr ws) = arr_storage arr"
  "arr_keys (with_tombstones arr ws) = arr_keys arr"
  "model_partitions (with_tombstones arr ws) = build_partitions (arr_keys arr) ws"
  "tombstones (with_tombstones arr ws) = ws"
  by (simp_all add: with_tombstones_def)

lemma with_tombstones_same: "arr_ok arr \<Longrightarrow> with_tombstones arr (tombstones arr) = arr"
  by (simp add: with_tombstones_def arr_ok_def)

lemma arr_ok_marked:
  assumes "arr_ok arr" "mark_slots P arr = (ws, changed)"
  shows "arr_ok (with_tombstones arr ws)"
    and "live_records (with_tombstones arr ws) = filter (\<lambda>(key, _). \<not> P key) (live_records arr)"
proof -
  let ?arr = "with_tombstones arr ws"
  note m = mark_slots [OF assms]
  show "arr_ok ?arr" using assms(1) m by (auto simp: arr_ok_def is_tombstoned_def)
  have dead: "is_tombstoned ?arr i \<longleftrightarrow> is_tombstoned arr i \<or> i < arr_count arr \<and> P (arr_keys arr ! i)" for i
    using m(1) [of i] by (simp add: is_tombstoned_def)
  have "live_slots ?arr = filter (\<lambda>i. \<not> P (arr_keys arr ! i)) (live_slots arr)"
    unfolding live_slots_def filter_filter by (rule filter_cong) (auto simp: dead)
  then show "live_records ?arr = filter (\<lambda>(key, _). \<not> P key) (live_records arr)"
    by (simp add: live_records_def filter_map o_def slot_bytes_def)
qed

lemma slot_bytes_prefix:
  assumes "i < n" "length st = n * s"
  shows "take s (drop (i * s) (st @ bs)) = take s (drop (i * s) st)"
proof -
  have "i * s + s \<le> length st" using assms mult_le_mono1 [of "Suc i" n s] by simp
  then show ?thesis by simp
qed

lemma with_slot_simps [simp]:
  "arr_kind (with_slot arr key bs ws) = arr_kind arr"
  "arr_stride (with_slot arr key bs ws) = arr_stride arr"
  "arr_count (with_slot arr key bs ws) = Suc (length (arr_keys arr))"
  "arr_storage (with_slot arr key bs ws) = arr_storage arr @ bs"
  "arr_keys (with_slot arr key bs ws) = arr_keys arr @ [key]"
  "tombstones (with_slot arr key bs ws) = pad_words ((Suc (length (arr_keys arr)) + 63) div 64) ws"
  "model_partitions (with_slot arr key bs ws) =
     build_partitions (arr_keys arr @ [key]) (pad_words ((Suc (length (arr_keys arr)) + 63) div 64) ws)"
  by (simp_all add: with_slot_def Let_def)

lemma arr_ok_appended:
  assumes ok: "arr_ok arr" and len: "length bs = arr_stride arr"
    and ws: "length ws = length (tombstones arr)" "\<And>i. is_dead ws i \<Longrightarrow> i < arr_count arr"
  shows "arr_ok (with_slot arr key bs ws)"
    and "live_records (with_slot arr key bs ws) = live_records (with_tombstones arr ws) @ [(key, bs)]"
proof -
  let ?arr = "with_slot arr key bs ws" and ?w = "with_tombstones arr ws"
  have n: "length (arr_keys arr) = arr_count arr" using ok by (simp add: arr_ok_def)
  have "(arr_count arr + 63) div 64 \<le> (Suc (arr_count arr) + 63) div 64" by (rule div_le_mono) simp
  then show "arr_ok ?arr"
    using ok len ws n by (auto simp: arr_ok_def is_tombstoned_def less_SucI)
  have "\<not> is_dead ws (arr_count arr)" using ws(2) by blast
  then have slots: "live_slots ?arr = live_slots ?w @ [arr_count arr]"
    by (simp add: live_slots_def is_tombstoned_def n)
  have "map (\<lambda>i. (arr_keys ?arr ! i, slot_bytes ?arr i)) (live_slots ?w) =
      map (\<lambda>i. (arr_keys ?w ! i, slot_bytes ?w i)) (live_slots ?w)"
  proof (rule map_cong [OF refl])
    fix i assume "i \<in> set (live_slots ?w)"
    then have "i < arr_count arr" by (simp add: live_slots_def)
    with ok show "(arr_keys ?arr ! i, slot_bytes ?arr i) = (arr_keys ?w ! i, slot_bytes ?w i)"
      by (simp add: arr_ok_def slot_bytes_def nth_append slot_bytes_prefix del: take_append drop_append)
  qed
  moreover have "(arr_keys ?arr ! arr_count arr, slot_bytes ?arr (arr_count arr)) = (key, bs)"
    using ok len by (simp add: arr_ok_def slot_bytes_def nth_append)
  ultimately show "live_records ?arr = live_records ?w @ [(key, bs)]"
    by (simp add: live_records_def slots)
qed

end
