(* ===== verification/Brute_Force.thy ===== *)
theory Brute_Force
  imports Resident_Array
begin

text \<open>
  The exact linear-scan index (\<open>engine/brute_force.rs\<close>), the oracle that multi-index hashing
  is measured against: \<open>build\<close>, \<open>add\<close> (an upsert that tombstones and appends),
  \<open>remove\<close> (tombstone) and \<open>search\<close> (scan the partition of the filter, sort by distance
  and key, truncate). Its state refines a map from keys to codes, and its search returns the
  \<open>k\<close> nearest entries of that map.
\<close>

section \<open>The index\<close>

record brute_force_index =
  bf_array :: resident_vector_array

definition bf_new :: brute_force_index where
  "bf_new = \<lparr>bf_array = arr_empty Binary 32\<rparr>"

definition bytes_to_engram :: "u8 list \<Rightarrow> engram option" where
  "bytes_to_engram bs = (if length bs \<noteq> 32 then None else Some (le_engram bs))"

definition payload_to_engram :: "vector_payload \<Rightarrow> vectorkit_error + engram" where
  "payload_to_engram p =
     (if payload_kind p \<noteq> Binary
      then Inl (InvalidPayload (Fmt ''BruteForceIndex: payload.kind must be Binary, got {:?}''
             [FKind (payload_kind p)]))
      else if length (payload_bytes p) \<noteq> 32
      then Inl (InvalidPayload (Fmt ''BruteForceIndex: binary payload must be 32 bytes, got {}''
             [FNat (length (payload_bytes p))]))
      else (case bytes_to_engram (payload_bytes p) of
              Some e \<Rightarrow> Inr e
            | None \<Rightarrow> Inl (InvalidPayload (Fmt ''BruteForceIndex: could not decode Engram'' []))))"

definition scan_range :: "brute_force_index \<Rightarrow> metadata_filter option \<Rightarrow> nat \<times> nat" where
  "scan_range idx f =
     (case f of
        Some m \<Rightarrow>
          (case filter_model_id m of
             Some mid \<Rightarrow>
               (case partition_range (bf_array idx) mid of Some r \<Rightarrow> r | None \<Rightarrow> (0, 0))
           | None \<Rightarrow> (0, arr_count (bf_array idx)))
      | None \<Rightarrow> (0, arr_count (bf_array idx)))"

definition bf_kind :: "brute_force_index \<Rightarrow> index_kind" where
  "bf_kind idx = BruteForce"

text \<open>The packing loop of \<open>build\<close>, which stops at the first malformed payload.\<close>

fun pack_vectors :: "vector_payload list \<Rightarrow> vectorkit_error + u8 list" where
  "pack_vectors [] = Inr []"
| "pack_vectors (v # vs) =
     (if payload_kind v \<noteq> Binary \<or> length (payload_bytes v) \<noteq> 32
      then Inl (InvalidPayload
             (Fmt ''BruteForceIndex.build: all vectors must be Binary with 32 bytes'' []))
      else rbind (pack_vectors vs) (\<lambda>rest. Inr (payload_bytes v @ rest)))"

definition bf_build :: "brute_force_index \<Rightarrow> vector_payload list \<Rightarrow> vector_record_key list
      \<Rightarrow> brute_force_index \<times> (vectorkit_error + unit)" where
  "bf_build idx vectors ks =
     (if length vectors \<noteq> length ks
      then (idx, Inl (InvalidPayload (Fmt ''BruteForceIndex.build: vectors.len()={} != keys.len()={}''
             [FNat (length vectors), FNat (length ks)])))
      else (case pack_vectors vectors of
              Inl err \<Rightarrow> (idx, Inl err)
            | Inr packed \<Rightarrow>
                let tombs = replicate ((length vectors + 63) div 64) 0
                in (idx\<lparr>bf_array :=
                      \<lparr>arr_kind = Binary, arr_stride = 32, arr_count = length vectors,
                       arr_storage = packed, arr_keys = ks,
                       model_partitions = build_partitions ks tombs, tombstones = tombs\<rparr>\<rparr>,
                    Inr ())))"

text \<open>
  The collection loop of \<open>search\<close> over the slots of the range; \<open>None\<close> is the panic of an
  index out of range.
\<close>

fun collect_live :: "resident_vector_array \<Rightarrow> metadata_filter option \<Rightarrow> nat list
      \<Rightarrow> (engram \<times> nat) list option" where
  "collect_live arr f [] = Some []"
| "collect_live arr f (slot_idx # slots) =
     (if is_tombstoned arr slot_idx then collect_live arr f slots
      else if length (arr_keys arr) \<le> slot_idx then None
      else if \<not> accepted f (arr_keys arr ! slot_idx) then collect_live arr f slots
      else (case vector_bytes arr slot_idx of
              None \<Rightarrow> None
            | Some bs \<Rightarrow>
                (case bytes_to_engram bs of
                   Some e \<Rightarrow> map_option (\<lambda>rest. (e, slot_idx) # rest) (collect_live arr f slots)
                 | None \<Rightarrow> collect_live arr f slots)))"

definition bf_search ::
    "(engram \<Rightarrow> engram list \<Rightarrow> u32 list) \<Rightarrow> brute_force_index \<Rightarrow> vector_payload \<Rightarrow> dense_metric \<Rightarrow> nat
      \<Rightarrow> metadata_filter option \<Rightarrow> (vectorkit_error + dense_hit list) option" where
  "bf_search distances idx probe metric k f =
     (if payload_kind probe \<noteq> Binary
      then Some (Inl (InvalidPayload (Fmt ''BruteForceIndex.search: probe.kind must be Binary, got {:?}''
             [FKind (payload_kind probe)])))
      else if metric \<noteq> DenseBinary Hamming
      then Some (Inl (InvalidPayload
             (Fmt ''BruteForceIndex.search: Lane A only supports Binary(Hamming); got {:?}'' [FMetric metric])))
      else if k = 0 then Some (Inr [])
      else (case payload_to_engram probe of
              Inl err \<Rightarrow> Some (Inl err)
            | Inr probe_engram \<Rightarrow>
                let (lo, hi) = scan_range idx f
                in if hi \<le> lo then Some (Inr [])
                   else (case collect_live (bf_array idx) f [lo..<hi] of
                           None \<Rightarrow> None
                         | Some cs \<Rightarrow>
                             if cs = [] then Some (Inr [])
                             else
                               let ds = distances probe_engram (map fst cs)
                               in if length ds < length cs then None
                                  else
                                    let all_hits =
                                          map (\<lambda>i. \<lparr>hit_key = arr_keys (bf_array idx) ! snd (cs ! i),
                                                    raw_distance = sint (ds ! i), hit_metric = metric\<rparr>)
                                            [0..<length cs]
                                    in Some (Inr (take k
                                         (sort_key (\<lambda>h. (raw_distance h, hit_key h)) all_hits))))))"

definition bf_add :: "brute_force_index \<Rightarrow> vector_record_key \<Rightarrow> vector_payload
      \<Rightarrow> brute_force_index \<times> (vectorkit_error + unit)" where
  "bf_add idx key vector =
     (if payload_kind vector \<noteq> Binary \<or> length (payload_bytes vector) \<noteq> 32
      then (idx, Inl (InvalidPayload (Fmt ''BruteForceIndex.add: vector must be Binary with 32 bytes'' [])))
      else
        let arr = bf_array idx; (marked, _) = mark_slots (\<lambda>k'. k' = key) arr
        in (idx\<lparr>bf_array := (with_slot arr key (payload_bytes vector) marked)
              \<lparr>arr_kind := Binary, arr_stride := 32\<rparr>\<rparr>, Inr ()))"

definition bf_remove :: "brute_force_index \<Rightarrow> vector_record_key
      \<Rightarrow> brute_force_index \<times> (vectorkit_error + unit)" where
  "bf_remove idx key =
     (let arr = bf_array idx; (new_tombstones, changed) = mark_slots (\<lambda>k'. k' = key) arr
      in if \<not> changed then (idx, Inr ())
         else (idx\<lparr>bf_array := with_tombstones arr new_tombstones\<rparr>, Inr ()))"

section \<open>The map an index represents\<close>

definition bf_ok :: "brute_force_index \<Rightarrow> bool" where
  "bf_ok idx \<longleftrightarrow>
     arr_ok (bf_array idx) \<and> arr_kind (bf_array idx) = Binary \<and> arr_stride (bf_array idx) = 32
     \<and> distinct (map fst (live_records (bf_array idx)))"

definition bf_codes :: "brute_force_index \<Rightarrow> vector_record_key \<rightharpoonup> engram" where
  "bf_codes idx = map_of (map (\<lambda>(key, bs). (key, le_engram bs)) (live_records (bf_array idx)))"

lemma bf_new_ok: "bf_ok bf_new"
  by (simp add: bf_ok_def bf_new_def arr_empty_ok)
    (simp add: arr_empty_def live_records_def live_slots_def)

lemma pack_vectors_ok:
  "\<forall>v \<in> set vs. binary32 v \<Longrightarrow> pack_vectors vs = Inr (concat (map payload_bytes vs))"
  by (induction vs) (auto simp: binary32_def)

lemma slot_of_concat:
  "\<forall>bs \<in> set bss. length bs = s \<Longrightarrow> i < length bss \<Longrightarrow> take s (drop (i * s) (concat bss)) = bss ! i"
proof (induction bss arbitrary: i)
  case (Cons bs bss)
  then show ?case by (cases i) (simp_all add: algebra_simps)
qed simp

lemma length_concat_const: "\<forall>bs \<in> set bss. length bs = s \<Longrightarrow> length (concat bss) = length bss * s"
  by (induction bss) simp_all

lemma packed_array:
  fixes bss :: "u8 list list"
  assumes "length bss = length ks" "\<forall>bs \<in> set bss. length bs = s"
    and tombs: "tombs = replicate ((length ks + 63) div 64) (0 :: u64)"
    and arr: "arr = \<lparr>arr_kind = knd, arr_stride = s, arr_count = length ks, arr_storage = concat bss,
                     arr_keys = ks, model_partitions = build_partitions ks tombs, tombstones = tombs\<rparr>"
  shows "arr_ok arr" and "live_records arr = zip ks bss"
proof -
  have "\<not> is_tombstoned arr i" for i by (simp add: arr tombs is_tombstoned_def)
  then show "arr_ok arr"
    using length_concat_const [OF assms(2)] assms(1) by (simp add: arr_ok_def) (simp add: arr tombs)
  have "live_slots arr = [0..<length ks]"
    using \<open>\<And>i. \<not> is_tombstoned arr i\<close> by (simp add: live_slots_def) (simp add: arr)
  then have "live_records arr = map (\<lambda>i. (ks ! i, slot_bytes arr i)) [0..<length ks]"
    by (simp add: live_records_def arr)
  also have "\<dots> = zip ks bss"
    using assms(1,2) by (intro nth_equalityI) (auto simp: slot_bytes_def arr slot_of_concat)
  finally show "live_records arr = zip ks bss" .
qed

lemma bf_build_ok:
  assumes "length vectors = length ks" "\<forall>p \<in> set vectors. binary32 p" "distinct ks"
  shows "bf_ok (fst (bf_build idx vectors ks)) \<and> snd (bf_build idx vectors ks) = Inr ()
    \<and> bf_codes (fst (bf_build idx vectors ks))
      = map_of (zip ks (map (\<lambda>p. le_engram (payload_bytes p)) vectors))"
proof -
  note pa = packed_array [OF _ _ refl refl, of "map payload_bytes vectors" ks 32 Binary]
  have len: "length (map payload_bytes vectors) = length ks"
    "\<forall>bs \<in> set (map payload_bytes vectors). length bs = 32"
    using assms(1,2) by (auto simp: binary32_def)
  have "map (\<lambda>(key, bs). (key, le_engram bs)) (zip ks (map payload_bytes vectors))
      = zip ks (map (\<lambda>p. le_engram (payload_bytes p)) vectors)"
    by (simp add: zip_map2 split_def)
  with pa [OF len] assms show ?thesis
    by (simp add: bf_build_def pack_vectors_ok bf_ok_def bf_codes_def Let_def)
qed

lemma decoded_without:
  "map_of (map (\<lambda>(key, bs). (key, le_engram bs)) (filter (\<lambda>(k', _). k' \<noteq> key) xs))
    = (map_of (map (\<lambda>(key, bs). (key, le_engram bs)) xs))(key := None)"
proof -
  have "map (\<lambda>(key, bs). (key, le_engram bs)) (filter (\<lambda>(k', _). k' \<noteq> key) xs)
      = AList.delete key (map (\<lambda>(key, bs). (key, le_engram bs)) xs)"
    by (induction xs) auto
  then show ?thesis by (simp add: delete_conv')
qed

lemma bf_remove_ok:
  assumes "bf_ok idx"
  shows "bf_ok (fst (bf_remove idx key)) \<and> snd (bf_remove idx key) = Inr ()
    \<and> bf_codes (fst (bf_remove idx key)) = (bf_codes idx)(key := None)"
proof -
  let ?arr = "bf_array idx"
  obtain ws changed where m: "mark_slots (\<lambda>k'. k' = key) ?arr = (ws, changed)" by (rule prod.exhaust)
  have ok: "arr_ok ?arr" using assms by (simp add: bf_ok_def)
  note mk = arr_ok_marked [OF ok m]
  have "\<not> changed \<Longrightarrow> with_tombstones ?arr ws = ?arr"
    using mark_slots(4) [OF ok m] with_tombstones_same [OF ok] by simp
  then have rem: "bf_remove idx key = (idx\<lparr>bf_array := with_tombstones ?arr ws\<rparr>, Inr ())"
    using m by (simp add: bf_remove_def)
  have "bf_codes (idx\<lparr>bf_array := with_tombstones ?arr ws\<rparr>) = (bf_codes idx)(key := None)"
    using decoded_without [of key] by (simp add: bf_codes_def mk(2))
  then show ?thesis
    using assms mk by (simp add: rem bf_ok_def distinct_map_filter)
qed

lemma bf_add_ok:
  assumes "bf_ok idx" "binary32 v"
  shows "bf_ok (fst (bf_add idx key v)) \<and> snd (bf_add idx key v) = Inr ()
    \<and> bf_codes (fst (bf_add idx key v)) = (bf_codes idx)(key \<mapsto> le_engram (payload_bytes v))"
proof -
  let ?arr = "bf_array idx"
  obtain ws changed where m: "mark_slots (\<lambda>k'. k' = key) ?arr = (ws, changed)" by (rule prod.exhaust)
  have ok: "arr_ok ?arr" "arr_kind ?arr = Binary" "arr_stride ?arr = 32"
    "distinct (map fst (live_records ?arr))" using assms by (simp_all add: bf_ok_def)
  let ?arr' = "with_slot ?arr key (payload_bytes v) ws"
  have dead: "is_dead ws i \<Longrightarrow> i < arr_count ?arr" for i
    using mark_slots(1) [OF ok(1) m] ok(1) by (auto simp: arr_ok_def)
  have "length (payload_bytes v) = arr_stride ?arr" using assms(2) ok(3) by (simp add: binary32_def)
  note ap = arr_ok_appended [OF ok(1) this mark_slots(2) [OF ok(1) m] dead, of key]
  have "?arr'\<lparr>arr_kind := Binary, arr_stride := 32\<rparr> = ?arr'" using ok(2,3) by (simp add: with_slot_def Let_def)
  then have add: "bf_add idx key v = (idx\<lparr>bf_array := ?arr'\<rparr>, Inr ())"
    using assms(2) m by (simp add: bf_add_def binary32_def)
  have rec: "live_records ?arr' = filter (\<lambda>(k', _). k' \<noteq> key) (live_records ?arr) @ [(key, payload_bytes v)]"
    by (simp add: ap(2) arr_ok_marked(2) [OF ok(1) m])
  have "bf_codes (idx\<lparr>bf_array := ?arr'\<rparr>) = (bf_codes idx)(key \<mapsto> le_engram (payload_bytes v))"
    using decoded_without [of key "live_records ?arr"]
    by (simp add: bf_codes_def rec map_add_def fun_eq_iff split: option.splits)
  moreover have "distinct (map fst (live_records ?arr'))"
    using ok(4) by (auto simp: rec distinct_map_filter)
  ultimately show ?thesis using ap(1) ok(2,3) by (simp add: add bf_ok_def)
qed

section \<open>Searching\<close>

lemma collect_live_eq:
  assumes "arr_ok arr" "arr_stride arr = 32" "\<forall>i \<in> set slots. i < arr_count arr"
  shows "collect_live arr f slots =
    Some (map (\<lambda>i. (le_engram (slot_bytes arr i), i))
      (filter (\<lambda>i. \<not> is_tombstoned arr i \<and> accepted f (arr_keys arr ! i)) slots))"
  using assms(3)
proof (induction slots)
  case (Cons i slots)
  then have i: "i < arr_count arr" by simp
  have "i * 32 + 32 \<le> length (arr_storage arr)"
    using assms(1,2) i mult_le_mono1 [of "Suc i" "arr_count arr" 32] by (simp add: arr_ok_def)
  then have "length (slot_bytes arr i) = 32" using assms(2) by (simp add: slot_bytes_def)
  then show ?case
    using Cons assms(1) i vector_bytes_slot [OF assms(1) i]
    by (simp add: bytes_to_engram_def arr_ok_def)
qed simp

lemma scan_range_live:
  assumes "arr_ok (bf_array idx)" "scan_range idx f = (lo, hi)"
  shows "hi \<le> arr_count (bf_array idx)"
    and "{i. lo \<le> i \<and> i < hi \<and> \<not> is_tombstoned (bf_array idx) i \<and> accepted f (arr_keys (bf_array idx) ! i)}
      = {i \<in> set (live_slots (bf_array idx)). accepted f (arr_keys (bf_array idx) ! i)}"
proof -
  let ?arr = "bf_array idx"
  have "hi \<le> arr_count ?arr \<and>
    {i. lo \<le> i \<and> i < hi \<and> \<not> is_tombstoned ?arr i \<and> accepted f (arr_keys ?arr ! i)}
      = {i \<in> set (live_slots ?arr). accepted f (arr_keys ?arr ! i)}"
  proof (cases "\<exists>m mid. f = Some m \<and> filter_model_id m = Some mid")
    case False
    then have "lo = 0" "hi = arr_count ?arr"
      using assms(2) by (auto simp: scan_range_def split: option.splits)
    then show ?thesis by (auto simp: set_live_slots)
  next
    case True
    then obtain m mid where f: "f = Some m" "filter_model_id m = Some mid" by blast
    let ?S = "{i \<in> set (live_slots ?arr). model_id (arr_keys ?arr ! i) = mid}"
    have acc: "accepted f key \<Longrightarrow> model_id key = mid" for key
      using f by (auto simp: accepted_def accepts_def split: if_splits)
    have r: "(lo, hi) = (if ?S = {} then (0, 0) else (Min ?S, Suc (Max ?S)))"
      using assms(2) f unfolding scan_range_def partition_range_exact [OF assms(1)] Let_def
      by (cases "?S = {}") (simp_all del: Collect_empty_eq)
    have fin: "finite ?S" by simp
    have lt: "i \<in> ?S \<Longrightarrow> i < arr_count ?arr" for i by (simp add: set_live_slots)
    have mem: "i \<in> ?S \<Longrightarrow> lo \<le> i \<and> i < hi" for i
      using r fin by (auto split: if_splits simp: less_Suc_eq_le)
    have "hi \<le> arr_count ?arr"
      using r lt Max_in [OF fin] by (auto split: if_splits simp: Suc_le_eq)
    moreover have "lo \<le> i \<and> i < hi" if "i \<in> set (live_slots ?arr)" "accepted f (arr_keys ?arr ! i)" for i
      using mem that acc by blast
    ultimately show ?thesis by (auto simp: set_live_slots)
  qed
  then show "hi \<le> arr_count ?arr"
    and "{i. lo \<le> i \<and> i < hi \<and> \<not> is_tombstoned ?arr i \<and> accepted f (arr_keys ?arr ! i)}
      = {i \<in> set (live_slots ?arr). accepted f (arr_keys ?arr ! i)}" by blast+
qed

lemma bf_candidates:
  assumes "bf_ok idx"
  shows "candidates distance (bf_codes idx) f probe =
    (\<lambda>i. (distance probe (le_engram (slot_bytes (bf_array idx) i)), arr_keys (bf_array idx) ! i))
      ` {i \<in> set (live_slots (bf_array idx)). accepted f (arr_keys (bf_array idx) ! i)}"
proof -
  let ?xs = "map (\<lambda>(key, bs). (key, le_engram bs)) (live_records (bf_array idx))"
  have "fst \<circ> (\<lambda>(key, bs). (key, le_engram bs)) = (fst :: vector_record_key \<times> u8 list \<Rightarrow> _)"
    by auto
  then have "distinct (map fst ?xs)" using assms by (simp add: bf_ok_def)
  then have "bf_codes idx key = Some e \<longleftrightarrow> (key, e) \<in> set ?xs" for key e
    by (simp add: bf_codes_def map_of_eq_Some_iff del: set_map)
  then show ?thesis by (auto simp: candidates_def live_records_def image_iff)
qed

lemma sort_hits:
  fixes ps :: "(u32 \<times> vector_record_key) list"
  assumes "distinct ps" "\<forall>(d, key) \<in> set ps. unat d < 2 ^ 31"
  shows "sort_key (\<lambda>h. (raw_distance h, hit_key h)) (map to_hit ps) = map to_hit (sort ps)"
proof (rule sort_key_inj_key_eq)
  show "mset (map to_hit ps) = mset (map to_hit (sort ps))" by simp
  show "inj_on (\<lambda>h. (raw_distance h, hit_key h)) (set (map to_hit ps))"
    by (auto simp: inj_on_def to_hit_def)
  have mono: "(sint (fst p), snd p) \<le> (sint (fst q), snd q)"
    if "p \<in> set ps" "q \<in> set ps" "p \<le> q" for p q
  proof -
    have "unat (fst p) < 2 ^ 31" "unat (fst q) < 2 ^ 31" using assms(2) that(1,2) by auto
    then show ?thesis using that(3)
      by (cases p; cases q) (auto simp: less_eq_prod_def sint_small word_less_def word_le_def)
  qed
  have "sorted (map (\<lambda>p. (sint (fst p), snd p)) (sort ps))"
    unfolding sorted_map by (rule sorted_wrt_mono_rel [OF _ sorted_sort]) (rule mono, simp_all)
  then show "sorted (map (\<lambda>h. (raw_distance h, hit_key h)) (map to_hit (sort ps)))"
    by (simp add: o_def to_hit_def case_prod_unfold)
qed

context engram_lib
begin

lemma bf_search_exact:
  assumes ok: "bf_ok idx" and probe: "binary32 probe"
  shows "bf_search distances idx probe (DenseBinary Hamming) k f
    = Some (Inr (knn_spec distance (bf_codes idx) (le_engram (payload_bytes probe)) k f))"
proof (cases "k = 0")
  case True
  then show ?thesis using probe by (simp add: bf_search_def binary32_def knn_spec_def)
next
  case False
  let ?arr = "bf_array idx" and ?p = "le_engram (payload_bytes probe)"
  obtain lo hi where r: "scan_range idx f = (lo, hi)" by (rule prod.exhaust)
  have arr: "arr_ok ?arr" "arr_stride ?arr = 32" "distinct (map fst (live_records ?arr))"
    using ok by (simp_all add: bf_ok_def)
  note sc = scan_range_live [OF arr(1) r]
  let ?is = "filter (\<lambda>i. \<not> is_tombstoned ?arr i \<and> accepted f (arr_keys ?arr ! i)) [lo..<hi]"
  let ?cs = "map (\<lambda>i. (le_engram (slot_bytes ?arr i), i)) ?is"
  let ?pr = "\<lambda>i. (distance ?p (le_engram (slot_bytes ?arr i)), arr_keys ?arr ! i)"
  let ?ps = "map ?pr ?is"
  have cs: "collect_live ?arr f [lo..<hi] = Some ?cs"
    using collect_live_eq [OF arr(1,2)] sc(1) by simp
  have live: "set ?is = {i \<in> set (live_slots ?arr). accepted f (arr_keys ?arr ! i)}"
    using sc(2) by auto
  have set: "set ?ps = candidates distance (bf_codes idx) f ?p"
    unfolding bf_candidates [OF ok] live [symmetric] by simp
  have "inj_on (\<lambda>i. arr_keys ?arr ! i) (set (live_slots ?arr))"
    using arr(3) by (simp add: live_records_def o_def distinct_map)
  then have "inj_on ?pr (set ?is)" unfolding live by (auto simp: inj_on_def)
  then have dist: "distinct ?ps" by (simp add: distinct_map)
  have small: "\<forall>(d, key) \<in> set ?ps. unat d < 2 ^ 31"
    using le_less_trans [OF distance_le_256, of "2 ^ 31"] by auto
  have hits: "map (\<lambda>i. \<lparr>hit_key = arr_keys ?arr ! snd (?cs ! i), raw_distance = sint (distances ?p (map fst ?cs) ! i),
      hit_metric = DenseBinary Hamming\<rparr>) [0..<length ?cs] = map to_hit ?ps"
    by (intro nth_equalityI) (simp_all add: distances_map to_hit_def)
  have spec: "knn_spec distance (bf_codes idx) ?p k f = take k (map to_hit (sort ?ps))"
    unfolding knn_spec_def set [symmetric] sorted_list_of_set_sort_remdups distinct_remdups_id [OF dist]
    by (simp only: take_map)
  show ?thesis
    unfolding spec sort_hits [OF dist small, symmetric]
    using False probe r cs hits
    by (auto simp: bf_search_def binary32_def payload_to_engram_def bytes_to_engram_def Let_def distances_map
        filter_empty_conv)
qed

end

end
