(* ===== verification/Flip_Masks.thy ===== *)
theory Flip_Masks
  imports Prelude
begin

text \<open>
  The two integer routines under the multi-index hashing search (\<open>engine/mih.rs\<close>): the
  enumeration of all flip masks up to a Hamming weight (\<open>colex_flip_masks\<close>, by Gosper's
  successor on 64-bit words) and the saturating prefix sum of binomial coefficients
  (\<open>cumulative_choose\<close>) that projects how many masks the enumeration will visit. The
  enumeration is shown equal to the filtered list of all numbers below \<open>2 ^ sub_bits\<close>, and the
  projection equal to its length.
\<close>

section \<open>Definitions\<close>

text \<open>
  The inner loop of \<open>colex_flip_masks\<close>. The callback is called on every mask of the returned
  list, in order. \<open>None\<close> is the panic of a division by zero, which a zero mask would cause.
\<close>

function colex_loop :: "nat \<Rightarrow> u64 \<Rightarrow> u64 list option" where
  "colex_loop n msk =
     (if n < 64 \<and> push_bit n 1 \<le> msk then Some []
      else
        let c = msk AND - msk; r = msk + c
        in if 2 ^ 64 \<le> unat msk + unat c then Some [msk]
           else if c = 0 then None
           else
             let xrm = r XOR msk; next_mask = (drop_bit 2 xrm div c) OR r
             in if n = 64 \<and> next_mask \<le> msk then Some [msk]
                else map_option ((#) msk) (colex_loop n next_mask))"
  by pat_completeness auto

lemma gosper_progress:
  fixes msk c x :: u64
  assumes "unat msk + unat c < 2 ^ 64" "c \<noteq> 0"
  shows "unat msk < unat (x OR (msk + c))"
proof -
  have "unat (msk + c) = unat msk + unat c"
    using assms(1) by (simp add: unat_word_ariths)
  moreover have "0 < unat c" using assms(2) by (simp add: unat_gt_0)
  moreover have "unat (msk + c) \<le> unat (x OR (msk + c))"
    using le_word_or1 [of "msk + c" x] by (simp add: word_le_nat_alt)
  ultimately show ?thesis by linarith
qed

termination colex_loop
proof (relation "measure (\<lambda>(n, msk). 2 ^ 64 - unat msk)")
  fix n :: nat and msk c r xrm next_mask :: u64
  assume *: "c = msk AND - msk" "r = msk + c" "\<not> 2 ^ 64 \<le> unat msk + unat c" "c \<noteq> 0"
    "next_mask = drop_bit 2 xrm div c OR r"
  have "unat msk < unat next_mask" using gosper_progress * by simp
  moreover have "unat next_mask < 2 ^ 64" using unsigned_less [of next_mask] by simp
  ultimately show "((n, next_mask), n, msk) \<in> measure (\<lambda>(n, msk). 2 ^ 64 - unat msk)" by simp
qed simp

declare colex_loop.simps [simp del]

text \<open>The outer loop over the weights \<open>d\<close> of \<open>0..=max_hamming\<close>.\<close>

definition start_mask :: "nat \<Rightarrow> u64" where
  "start_mask d = (if d = 64 then - 1 else push_bit d 1 - 1)"

fun colex_weights :: "nat \<Rightarrow> nat list \<Rightarrow> u64 list option" where
  "colex_weights n [] = Some []"
| "colex_weights n (d # ds) =
     (if d = 0 then map_option ((#) 0) (colex_weights n ds)
      else if n < d then Some []
      else (case colex_loop n (start_mask d) of
              None \<Rightarrow> None
            | Some ms \<Rightarrow> map_option ((@) ms) (colex_weights n ds)))"

definition colex_flip_masks :: "nat \<Rightarrow> nat \<Rightarrow> u64 list option" where
  "colex_flip_masks sub_bits max_hamming =
     (if sub_bits = 0 \<or> 64 < sub_bits then Some []
      else colex_weights sub_bits [0..<Suc max_hamming])"

text \<open>\<open>cumulative_choose\<close>, with its saturating arithmetic and its early return.\<close>

function cumulative_loop :: "nat \<Rightarrow> nat \<Rightarrow> nat \<Rightarrow> nat \<Rightarrow> nat \<Rightarrow> nat" where
  "cumulative_loop n rho d c s =
     (if rho < d then s
      else if n < d then s
      else
        let c' = saturating_mul c (n - d + 1) div d; s' = saturating_add s c'
        in if s' = usize_max then usize_max else cumulative_loop n rho (Suc d) c' s')"
  by pat_completeness auto
termination
  by (relation "measure (\<lambda>(n, rho, d, c, s). Suc rho - d)") auto

declare cumulative_loop.simps [simp del]

definition cumulative_choose :: "nat \<Rightarrow> nat \<Rightarrow> nat" where
  "cumulative_choose sub_bits rho = (if sub_bits = 0 then 0 else cumulative_loop sub_bits rho 1 1 1)"

text \<open>The reference enumeration: all numbers below \<open>2 ^ n\<close> with \<open>d\<close> set bits, ascending.\<close>

definition weight_masks :: "nat \<Rightarrow> nat \<Rightarrow> nat list" where
  "weight_masks n d = filter (\<lambda>x. pop x = d) [0..<2 ^ n]"

section \<open>Gosper's successor\<close>

text \<open>Every positive number is a run of \<open>k\<close> ones above \<open>z\<close> zeros, below a zero bit.\<close>

lemma odd_run: "odd (u::nat) \<Longrightarrow> \<exists>k h. 1 \<le> k \<and> u = h * 2 ^ (k + 1) + (2 ^ k - 1)"
proof (induction u rule: less_induct)
  case (less u)
  show ?case
  proof (cases "even (u div 2)")
    case True
    then have "u = 4 * (u div 4) + 1" using less.prems by presburger
    then have "u = (u div 4) * 2 ^ (1 + 1) + (2 ^ 1 - 1)" by simp
    then show ?thesis by blast
  next
    case False
    then have "u div 2 < u" using less.prems by (cases u) auto
    then obtain k h where kh: "1 \<le> k" "u div 2 = h * 2 ^ (k + 1) + (2 ^ k - 1)"
      using less.IH False by blast
    have one: "(1::nat) \<le> 2 ^ k" by simp
    have "u = 2 * (u div 2) + 1" using less.prems by presburger
    also have "\<dots> = h * (2 * 2 ^ (k + 1)) + (2 * 2 ^ k - 1)"
    proof -
      have "h * (2 * 2 ^ (k + 1)) = 2 * (h * 2 ^ (k + 1))" by (rule mult.left_commute)
      with one kh(2) show ?thesis by linarith
    qed
    also have "\<dots> = h * 2 ^ (Suc k + 1) + (2 ^ Suc k - 1)" by simp
    finally show ?thesis by (metis le_SucI kh(1))
  qed
qed

lemma even_part: "0 < (m::nat) \<Longrightarrow> \<exists>z u. m = 2 ^ z * u \<and> odd u"
proof (induction m rule: less_induct)
  case (less m)
  show ?case
  proof (cases "even m")
    case True
    with less.prems have "m div 2 < m" "0 < m div 2" by auto
    then obtain z u where "m div 2 = 2 ^ z * u" "odd u" using less.IH by blast
    with True have "m = 2 ^ Suc z * u" by auto
    with \<open>odd u\<close> show ?thesis by blast
  next
    case False
    then have "m = 2 ^ 0 * m" by simp
    with False show ?thesis by blast
  qed
qed

lemma run_decomposition:
  assumes "0 < (m::nat)"
  obtains z k h where "1 \<le> k" "m = h * 2 ^ (z + k + 1) + (2 ^ k - 1) * 2 ^ z"
proof -
  obtain z u where "m = 2 ^ z * u" "odd u"
    using even_part [OF assms] by blast
  moreover obtain k h where "1 \<le> k" "u = h * 2 ^ (k + 1) + (2 ^ k - 1)"
    using odd_run [OF \<open>odd u\<close>] by blast
  ultimately have "m = h * 2 ^ (z + k + 1) + (2 ^ k - 1) * 2 ^ z"
    by (simp add: power_add algebra_simps)
  with \<open>1 \<le> k\<close> show ?thesis by (rule that)
qed

text \<open>The lowest set bit, computed as \<open>mask & mask.wrapping_neg()\<close>.\<close>

lemma odd_and_minus: "odd (u :: 'a::len word) \<Longrightarrow> u AND - u = 1"
proof -
  assume "odd u"
  then obtain a where a: "u = 1 + a" "even a" by (metis odd_even_add odd_one add_diff_cancel_left' add.commute diff_add_cancel)
  have "- u = NOT a" using a by (simp add: not_eq_complement)
  moreover have "\<not> bit a 0" using a by (simp add: bit_0)
  ultimately have "bit (u AND - u) n \<longleftrightarrow> n = 0" if "n < LENGTH('a)" for n
    using a that by (auto simp: bit_and_iff bit_not_iff even_bit_succ_iff simp del: bit_0)
  then show ?thesis by (auto intro!: bit_word_eqI simp: bit_1_iff simp del: bit_0)
qed

lemma lowest_bit:
  fixes m :: u64
  assumes "unat m = 2 ^ z * u" "odd u"
  shows "m AND - m = push_bit z 1"
proof -
  have "m = push_bit z (word_of_nat u)"
  proof -
    have "m = word_of_nat (unat m)" by simp
    also have "\<dots> = word_of_nat u * 2 ^ z" by (simp add: assms(1) mult.commute)
    finally show ?thesis by (simp add: push_bit_eq_mult)
  qed
  moreover have "odd (word_of_nat u :: u64)" using assms(2) by simp
  ultimately show ?thesis
    using odd_and_minus [of "word_of_nat u :: u64"]
    by (metis push_bit_and push_bit_minus)
qed

lemma xor_cancel_left: "(a XOR b) XOR (a XOR d) = b XOR (d :: nat)"
  by (rule bit_eqI) (auto simp: bit_xor_iff)

lemma unat_power_2 [simp]: "z < 64 \<Longrightarrow> unat (2 ^ z :: u64) = 2 ^ z"
proof -
  assume "z < 64"
  then have "(2::nat) ^ z < 2 ^ 64" by (rule power_strict_increasing) simp
  then show ?thesis using unat_of_nat [where 'a = 64, of "2 ^ z"] by simp
qed

lemma run_xor:
  fixes h z k :: nat
  defines "p \<equiv> z + k"
  shows "(h * 2 ^ (p + 1) + 2 ^ p) XOR (h * 2 ^ (p + 1) + (2 ^ k - 1) * 2 ^ z) = (2 ^ (k + 1) - 1) * 2 ^ z"
proof -
  let ?A = "push_bit (p + 1) h" and ?B = "push_bit p (1::nat)" and ?D = "push_bit z (mask k :: nat)"
  have "?A AND ?B = 0" "?A AND ?D = 0" "?B AND ?D = 0"
    by (auto intro!: bit_eqI simp: p_def bit_and_iff bit_push_bit_iff bit_mask_iff bit_exp_iff bit_0)
  then have "?A + ?B = ?A XOR ?B" "?A + ?D = ?A XOR ?D" "?B + ?D = ?B XOR ?D"
    by (simp_all only: disjunctive_add_eq_xor)
  then have "(?A + ?B) XOR (?A + ?D) = ?B + ?D"
    by (simp only: xor_cancel_left)
  moreover have "?B + ?D = (2 ^ (k + 1) - 1) * 2 ^ z"
  proof -
    have "(1::nat) \<le> 2 ^ k" by simp
    then have "(2::nat) ^ (k + 1) - 1 = 2 ^ k + (2 ^ k - 1)" by simp
    then have "((2::nat) ^ (k + 1) - 1) * 2 ^ z = 2 ^ k * 2 ^ z + (2 ^ k - 1) * 2 ^ z"
      by (simp only: distrib_right)
    then show ?thesis
      by (simp add: push_bit_eq_mult mask_eq_exp_minus_1 p_def power_add mult.commute)
  qed
  ultimately show ?thesis by (simp add: push_bit_eq_mult mask_eq_exp_minus_1 mult.commute)
qed

lemma run_or:
  fixes h z k :: nat
  assumes "1 \<le> k"
  shows "(2 ^ (k - 1) - 1) OR (h * 2 ^ (z + k + 1) + 2 ^ (z + k)) = h * 2 ^ (z + k + 1) + 2 ^ (z + k) + (2 ^ (k - 1) - 1)"
proof -
  let ?A = "mask (k - 1) :: nat" and ?B = "push_bit (z + k) (2 * h + 1)"
  have "?A AND ?B = 0"
    using assms by (auto intro!: bit_eqI simp: bit_and_iff bit_push_bit_iff bit_mask_iff)
  then have "?A OR ?B = ?A + ?B" by (simp only: disjunctive_add_eq_or)
  moreover have "?B = h * 2 ^ (z + k + 1) + 2 ^ (z + k)"
    by (simp add: push_bit_eq_mult distrib_right)
  ultimately show ?thesis by (simp add: mask_eq_exp_minus_1)
qed

lemma run_shift: "1 \<le> k \<Longrightarrow> (2 ^ (k + 1) - 1) * 2 ^ z div 4 div 2 ^ z = (2 ^ (k - 1) - 1 :: nat)"
proof -
  assume "1 \<le> k"
  then obtain j where k: "k = Suc j" by (cases k) auto
  have "(1::nat) \<le> 2 ^ j" by simp
  moreover have "(2::nat) ^ (k + 1) = 4 * 2 ^ j" by (simp add: k)
  ultimately have x: "(2::nat) ^ (k + 1) - 1 = 4 * (2 ^ j - 1) + 3" by linarith
  have "(2 ^ (k + 1) - 1) * 2 ^ z div 4 div 2 ^ z = (2 ^ (k + 1) - 1) div (4::nat)"
    by (simp add: div_mult2_eq [symmetric] mult.commute [of 4] del: power_Suc)
  also have "\<dots> = 2 ^ j - 1" unfolding x by simp
  finally show ?thesis by (simp add: k)
qed

lemma gosper_word:
  fixes m :: u64
  assumes m: "unat m = h * 2 ^ (z + k + 1) + (2 ^ k - 1) * 2 ^ z" and k: "1 \<le> k"
  shows "unat (m AND - m) = 2 ^ z"
    and "unat m + 2 ^ z < 2 ^ 64 \<Longrightarrow>
      unat (drop_bit 2 ((m + (m AND - m)) XOR m) div (m AND - m) OR (m + (m AND - m)))
        = h * 2 ^ (z + k + 1) + 2 ^ (z + k) + (2 ^ (k - 1) - 1)"
proof -
  have "(2::nat) ^ 1 \<le> 2 ^ k" using k by (rule power_increasing) simp
  then have one: "(1::nat) \<le> 2 ^ k - 1" by simp
  let ?u = "h * 2 ^ (k + 1) + (2 ^ k - 1)"
  have u: "unat m = 2 ^ z * ?u" unfolding m by (simp add: power_add algebra_simps)
  have "odd ?u" using k by simp
  have c: "m AND - m = push_bit z 1" by (rule lowest_bit [OF u \<open>odd ?u\<close>])
  have "2 ^ z \<le> unat m" unfolding u using one by simp
  moreover have "unat m < 2 ^ 64" using unsigned_less [of m] by simp
  ultimately have "z < 64" by (metis le_less_trans nat_power_less_imp_less pos2)
  then show c': "unat (m AND - m) = 2 ^ z"
    unfolding c by (simp add: push_bit_eq_mult)
  assume lt: "unat m + 2 ^ z < 2 ^ 64"
  let ?r = "m + (m AND - m)"
  have r: "unat ?r = h * 2 ^ (z + k + 1) + 2 ^ (z + k)"
  proof -
    have "unat ?r = unat m + 2 ^ z" using lt c' by (simp add: unat_word_ariths)
    also have "\<dots> = h * 2 ^ (z + k + 1) + ((2 ^ k - 1) + 1) * 2 ^ z"
      unfolding m by (simp only: distrib_right mult_1 add.assoc)
    also have "(2 ^ k - 1) + 1 = (2::nat) ^ k" by simp
    also have "(2::nat) ^ k * 2 ^ z = 2 ^ (z + k)" by (simp only: power_add mult.commute)
    finally show ?thesis .
  qed
  have "unat (?r XOR m) = (2 ^ (k + 1) - 1) * 2 ^ z"
    unfolding unsigned_xor_eq r m using run_xor [of h z k] by simp
  then have "unat (drop_bit 2 (?r XOR m) div (m AND - m)) = 2 ^ (k - 1) - 1"
    using run_shift [OF k, of z] c' by (simp add: unat_div_distrib unat_drop_bit_eq drop_bit_eq_div)
  then show "unat (drop_bit 2 (?r XOR m) div (m AND - m) OR ?r)
      = h * 2 ^ (z + k + 1) + 2 ^ (z + k) + (2 ^ (k - 1) - 1)"
    unfolding unsigned_or_eq r using run_or [OF k, of h z] by simp
qed

text \<open>No number between a mask and its successor has the same weight.\<close>

lemma pop_run: "pop (h * 2 ^ (z + k + 1) + (2 ^ k - 1) * 2 ^ z) = pop h + k"
proof -
  have "(2 ^ k - 1) * 2 ^ z < (2::nat) ^ (z + k + 1)"
  proof -
    have "(2 ^ k - 1) * 2 ^ z < (2::nat) ^ k * 2 ^ z" by simp
    also have "\<dots> \<le> 2 ^ (z + k + 1)" by (simp add: power_add mult.commute)
    finally show ?thesis .
  qed
  from pop_add_high [OF this] show ?thesis by (simp only: pop_mult_power pop_ones)
qed

lemma pop_successor:
  assumes "1 \<le> k"
  shows "pop (h * 2 ^ (z + k + 1) + 2 ^ (z + k) + (2 ^ (k - 1) - 1)) = pop h + k"
proof -
  have "(2::nat) ^ (k - 1) \<le> 2 ^ (z + k)" by (rule power_increasing) simp_all
  moreover have "(1::nat) \<le> 2 ^ (k - 1)" by simp
  ultimately have "(2::nat) ^ (k - 1) - 1 < 2 ^ (z + k)" by linarith
  note high = pop_add_high [OF this, of "2 * h + 1"]
  have "h * 2 ^ (z + k + 1) + 2 ^ (z + k) = (2 * h + 1) * 2 ^ (z + k)" by (simp add: distrib_right)
  then show ?thesis using assms by (simp only: high pop_ones) simp
qed

lemma no_mask_between:
  fixes h z k x :: nat
  assumes k: "1 \<le> k"
    and lo: "h * 2 ^ (z + k + 1) + (2 ^ k - 1) * 2 ^ z < x"
    and hi: "x < h * 2 ^ (z + k + 1) + 2 ^ (z + k) + (2 ^ (k - 1) - 1)"
  shows "pop x \<noteq> pop h + k"
proof
  assume pop: "pop x = pop h + k"
  let ?p = "z + k"
  define l where "l = x - h * 2 ^ (?p + 1)"
  have x: "x = h * 2 ^ (?p + 1) + l" using lo by (simp add: l_def)
  have small: "(2::nat) ^ (k - 1) \<le> 2 ^ ?p" by (rule power_increasing) simp_all
  have one: "(1::nat) \<le> 2 ^ (k - 1)" by simp
  have "(2::nat) ^ (?p + 1) = 2 * 2 ^ ?p" by simp
  then have l: "(2 ^ k - 1) * 2 ^ z < l" "l < 2 ^ ?p + (2 ^ (k - 1) - 1)" "l < 2 ^ (?p + 1)"
    using lo hi small one unfolding x by linarith+
  then have pl: "pop l = k" using pop pop_add_high [of l "?p + 1" h] x by simp
  show False
  proof (cases "l < 2 ^ ?p")
    case True
    then have "l + 2 ^ (?p - k) \<le> 2 ^ ?p" using pop_upper [of l ?p] pl by simp
    then have "l + 2 ^ z \<le> 2 ^ ?p" by simp
    moreover have "(2 ^ k - 1) * 2 ^ z + 2 ^ z = (2::nat) ^ ?p"
    proof -
      have "(2 ^ k - 1) * 2 ^ z + 2 ^ z = ((2 ^ k - 1) + 1) * (2::nat) ^ z"
        by (simp only: distrib_right mult_1)
      also have "\<dots> = 2 ^ ?p" by (simp add: power_add mult.commute)
      finally show ?thesis .
    qed
    ultimately show False using l(1) by linarith
  next
    case False
    define l' where "l' = l - 2 ^ ?p"
    have l': "l = 1 * 2 ^ ?p + l'" "l' < 2 ^ (k - 1) - 1" "l' < 2 ^ ?p"
      using False l small unfolding l'_def by simp_all
    then have "pop l' = k - 1" using pl pop_add_high [of l' ?p 1] pop_double_Suc [of 0] by simp
    then have "2 ^ (k - 1) \<le> l' + 1" using pop_lower [of l'] by simp
    then show False using l'(2) by linarith
  qed
qed

lemma filter_upt_next:
  assumes "m < N" "P m" "\<And>x. m < x \<Longrightarrow> x < N \<Longrightarrow> \<not> P x"
  shows "filter P [m..<B] = (if m < B then m # filter P [N..<B] else [])"
proof (cases "m < B")
  case True
  have "filter P [Suc m..<min N B] = []"
    using assms(3) by (auto simp: filter_empty_conv)
  moreover have "[Suc m..<B] = [Suc m..<min N B] @ [min N B..<B]"
    using True assms(1) upt_add_eq_append [of "Suc m" "min N B" "B - min N B"] by simp
  moreover have "[min N B..<B] = [N..<B]" by (cases "N \<le> B") simp_all
  ultimately show ?thesis using True assms(2) by (simp add: upt_conv_Cons)
qed simp

text \<open>The inner loop lists the masks of its weight from the start mask on.\<close>

lemma colex_loop_lists:
  assumes "n \<le> 64" "0 < unat msk" "pop (unat msk) = d"
  shows "colex_loop n msk = Some (map word_of_nat (filter (\<lambda>x. pop x = d) [unat msk..<2 ^ n]))"
  using assms
proof (induction n msk rule: colex_loop.induct)
  case (1 n msk)
  let ?c = "msk AND - msk" and ?P = "\<lambda>x. pop x = d"
  let ?next = "drop_bit 2 ((msk + ?c) XOR msk) div ?c OR (msk + ?c)"
  obtain z k h where k: "1 \<le> k" and m: "unat msk = h * 2 ^ (z + k + 1) + (2 ^ k - 1) * 2 ^ z"
    using run_decomposition [OF "1.prems"(2)] by blast
  define N where "N = h * 2 ^ (z + k + 1) + 2 ^ (z + k) + (2 ^ (k - 1) - 1)"
  have c: "unat ?c = 2 ^ z" by (rule gosper_word [OF m k])
  then have c0: "?c \<noteq> 0" by (metis unat_0 power_not_zero zero_neq_numeral)
  have d: "d = pop h + k" using "1.prems"(3) m pop_run [of h z k] by simp
  have mN: "unat msk + 2 ^ z \<le> N" "unat msk < N"
  proof -
    have "(2 ^ k - 1) * 2 ^ z + 2 ^ z = ((2 ^ k - 1) + 1) * (2::nat) ^ z"
      by (simp only: distrib_right mult_1)
    also have "\<dots> = 2 ^ (z + k)" by (simp add: power_add mult.commute)
    finally show "unat msk + 2 ^ z \<le> N" unfolding m N_def by linarith
    then show "unat msk < N" by (metis add_leD1 le_neq_implies_less less_add_same_cancel1 not_less zero_less_numeral zero_less_power)
  qed
  have gap: "\<not> ?P x" if "unat msk < x" "x < N" for x
    using no_mask_between [OF k, of h z x] that m d unfolding N_def by simp
  note split = filter_upt_next [where P = ?P and m = "unat msk" and N = N and B = "2 ^ n",
      OF mN(2) "1.prems"(3) gap]
  show ?case
  proof (cases "n < 64 \<and> push_bit n 1 \<le> msk")
    case True
    then have "2 ^ n \<le> unat msk" by (auto simp: word_le_nat_alt push_bit_eq_mult)
    then show ?thesis using True split by (simp add: colex_loop.simps [of n msk])
  next
    case False
    have lt: "unat msk < 2 ^ n"
    proof (cases "n < 64")
      case True
      with False show ?thesis by (simp add: word_le_nat_alt push_bit_eq_mult)
    next
      case False
      with "1.prems"(1) show ?thesis using unsigned_less [of msk] by simp
    qed
    show ?thesis
    proof (cases "2 ^ 64 \<le> unat msk + unat ?c")
      case True
      then have "2 ^ n \<le> N" using mN c "1.prems"(1) power_increasing [of n 64 "2::nat"] by linarith
      then show ?thesis
        using True False split lt by (simp add: colex_loop.simps [of n msk])
    next
      case no: False
      then have N: "unat ?next = N" using gosper_word(2) [OF m k] c unfolding N_def by simp
      then have "\<not> (n = 64 \<and> ?next \<le> msk)" using mN(2) by (simp add: word_le_nat_alt)
      moreover have "colex_loop n ?next = Some (map word_of_nat (filter ?P [N..<2 ^ n]))"
        using "1.IH" [OF False refl refl no c0 refl refl \<open>\<not> (n = 64 \<and> ?next \<le> msk)\<close>]
          "1.prems"(1) N mN(2) pop_successor [OF k, of h z] d unfolding N_def by simp
      ultimately show ?thesis
        using False no c0 split lt by (auto simp: colex_loop.simps [of n msk] Let_def)
    qed
  qed
qed

section \<open>All masks up to a weight\<close>

lemma unat_start_mask: "1 \<le> d \<Longrightarrow> d \<le> 64 \<Longrightarrow> unat (start_mask d) = 2 ^ d - 1"
proof -
  assume d: "1 \<le> d" "d \<le> 64"
  show ?thesis
  proof (cases "d = 64")
    case False
    with d have "d < 64" by simp
    moreover have "(1::u64) \<le> 2 ^ d" using \<open>d < 64\<close> by (simp add: word_le_nat_alt)
    ultimately show ?thesis using False by (simp add: start_mask_def push_bit_eq_mult unat_sub)
  qed (simp add: start_mask_def unsigned_minus_1_eq_mask mask_eq_exp_minus_1)
qed

lemma weight_masks_from:
  "weight_masks n d = filter (\<lambda>x. pop x = d) [2 ^ d - 1..<2 ^ n]"
proof (cases "d \<le> n")
  case True
  then have "(2::nat) ^ d \<le> 2 ^ n" by (rule power_increasing) simp
  then have "(2::nat) ^ d - 1 \<le> 2 ^ n" by linarith
  then have "[0..<2 ^ n] = [0..<2 ^ d - 1] @ [2 ^ d - 1..<2 ^ n]"
    using upt_add_eq_append [of 0 "2 ^ d - 1" "2 ^ n - (2 ^ d - 1)"] by simp
  moreover have "pop x \<noteq> d" if "x < 2 ^ d - 1" for x
    using pop_lower [of x] that by auto
  then have "filter (\<lambda>x. pop x = d) [0..<2 ^ d - 1] = []" by (auto simp: filter_empty_conv)
  ultimately show ?thesis by (simp add: weight_masks_def)
next
  case False
  then have "pop x \<noteq> d" if "x < 2 ^ n" for x using pop_upper [OF that] by auto
  then show ?thesis by (auto simp: weight_masks_def filter_empty_conv)
qed

lemma colex_loop_weight:
  assumes "n \<le> 64" "1 \<le> d" "d \<le> n"
  shows "colex_loop n (start_mask d) = Some (map word_of_nat (weight_masks n d))"
proof -
  have u: "unat (start_mask d) = 2 ^ d - 1" using assms by (simp add: unat_start_mask)
  moreover have "(2::nat) ^ 1 \<le> 2 ^ d" using assms(2) by (rule power_increasing) simp
  ultimately show ?thesis
    using colex_loop_lists [OF assms(1), of "start_mask d" d] by (simp add: weight_masks_from)
qed

lemma weight_masks_0: "weight_masks n 0 = [0]"
proof -
  have "filter (\<lambda>x. pop x = 0) [Suc 0..<2 ^ n] = []"
    using pop_0_iff by (auto simp: filter_empty_conv)
  then show ?thesis by (simp add: weight_masks_def upt_conv_Cons)
qed

lemma colex_weights_lists:
  assumes "n \<le> 64"
  shows "colex_weights n [a..<b] = Some (map word_of_nat (concat (map (weight_masks n) [a..<min b (Suc n)])))"
proof (induction "b - a" arbitrary: a)
  case 0
  then show ?case by simp
next
  case (Suc j)
  then have ab: "a < b" and ih: "colex_weights n [Suc a..<b] =
      Some (map word_of_nat (concat (map (weight_masks n) [Suc a..<min b (Suc n)])))" by simp_all
  consider "a = 0" | "0 < a" "a \<le> n" | "n < a" by linarith
  then show ?case
  proof cases
    case 1
    then show ?thesis using ih ab by (simp add: upt_conv_Cons weight_masks_0)
  next
    case 2
    then show ?thesis using ih ab colex_loop_weight [OF assms, of a] by (simp add: upt_conv_Cons)
  next
    case 3
    then show ?thesis using ab by (simp add: upt_conv_Cons)
  qed
qed

lemma colex_flip_masks_lists:
  assumes "1 \<le> sub_bits" "sub_bits \<le> 64"
  shows "colex_flip_masks sub_bits rho =
    Some (map word_of_nat (concat (map (weight_masks sub_bits) [0..<Suc (min rho sub_bits)])))"
  using assms colex_weights_lists [of sub_bits 0 "Suc rho"]
  by (simp add: colex_flip_masks_def del: upt_Suc)

lemma colex_flip_masks_set:
  assumes "1 \<le> sub_bits" "sub_bits \<le> 64" "colex_flip_masks sub_bits rho = Some ms"
  shows "set ms = {w. unat w < 2 ^ sub_bits \<and> popcount w \<le> rho}"
proof -
  have "pop x \<le> sub_bits" if "x < 2 ^ sub_bits" for x using pop_upper [OF that] by simp
  then have "set ms = word_of_nat ` {x. x < 2 ^ sub_bits \<and> pop x \<le> rho}"
    using colex_flip_masks_lists [OF assms(1,2), of rho] assms(3)
    by (fastforce simp: weight_masks_def)
  also have "\<dots> = {w. unat w < 2 ^ sub_bits \<and> popcount w \<le> rho}" (is "?L = ?R")
  proof
    have "x < 2 ^ 64" if "x < 2 ^ sub_bits" for x :: nat
      using that power_increasing [of sub_bits 64 "2::nat"] assms(2) by simp
    then show "?L \<subseteq> ?R" by (auto simp: popcount_unat unat_of_nat)
    show "?R \<subseteq> ?L" by (auto simp: popcount_unat intro!: image_eqI [where x = "unat w" for w])
  qed
  finally show ?thesis .
qed

text \<open>The masks come in the order of weight, ascending within a weight.\<close>

lemma sorted_wrt_concat:
  assumes "\<And>xs. xs \<in> set xss \<Longrightarrow> sorted_wrt P xs"
    and "sorted_wrt (\<lambda>xs ys. \<forall>x\<in>set xs. \<forall>y\<in>set ys. P x y) xss"
  shows "sorted_wrt P (concat xss)"
  using assms by (induction xss) (auto simp: sorted_wrt_append)

lemma colex_flip_masks_sorted:
  assumes "1 \<le> sub_bits" "sub_bits \<le> 64" "colex_flip_masks sub_bits rho = Some ms"
  shows "sorted_wrt (\<lambda>v w. popcount v < popcount w \<or> popcount v = popcount w \<and> v < w) ms"
proof -
  let ?P = "\<lambda>x y. pop x < pop y \<or> pop x = pop y \<and> x < (y :: nat)"
  let ?xs = "concat (map (weight_masks sub_bits) [0..<Suc (min rho sub_bits)])"
  have small: "x < 2 ^ 64" if "x \<in> set ?xs" for x :: nat
    using that power_increasing [of sub_bits 64 "2::nat"] assms(2) by (auto simp: weight_masks_def)
  have "sorted_wrt ?P ?xs"
  proof (rule sorted_wrt_concat)
    fix xs assume "xs \<in> set (map (weight_masks sub_bits) [0..<Suc (min rho sub_bits)])"
    then obtain d where "xs = weight_masks sub_bits d" by auto
    moreover have "sorted_wrt (<) (weight_masks sub_bits d)"
      by (simp add: weight_masks_def sorted_wrt_filter)
    ultimately show "sorted_wrt ?P xs"
      by (auto simp: weight_masks_def elim!: sorted_wrt_mono_rel [rotated])
  qed (auto simp: sorted_wrt_map weight_masks_def simp del: upt_Suc
      intro: sorted_wrt_mono_rel [OF _ sorted_wrt_upt])
  then have "sorted_wrt (\<lambda>x y. popcount (word_of_nat x :: u64) < popcount (word_of_nat y :: u64)
      \<or> popcount (word_of_nat x :: u64) = popcount (word_of_nat y :: u64)
        \<and> (word_of_nat x :: u64) < word_of_nat y) ?xs"
    by (rule sorted_wrt_mono_rel [rotated])
      (use small in \<open>auto simp: popcount_unat unat_of_nat word_less_nat_alt\<close>)
  then show ?thesis
    using colex_flip_masks_lists [OF assms(1,2), of rho] assms(3)
    by (simp only: option.inject sorted_wrt_map flip: map_concat)
qed

section \<open>The projected number of masks\<close>

lemma weight_masks_Suc:
  "mset (weight_masks (Suc n) (Suc d))
     = image_mset (\<lambda>x. 2 * x) (mset (weight_masks n (Suc d)))
     + image_mset (\<lambda>x. 2 * x + 1) (mset (weight_masks n d))"
proof -
  have upt: "mset [0..<2 * m] = image_mset (\<lambda>x. 2 * x) (mset [0..<m])
      + image_mset (\<lambda>x. 2 * x + 1) (mset [0..<m])" for m :: nat
    by (induction m) simp_all
  have "mset (weight_masks (Suc n) (Suc d)) = filter_mset (\<lambda>x. pop x = Suc d) (mset [0..<2 * 2 ^ n])"
    unfolding weight_masks_def power_Suc by (simp only: mset_filter)
  then show ?thesis
    unfolding upt by (simp add: weight_masks_def filter_mset_image_mset mset_filter del: mset_upt)
qed

lemma length_weight_masks: "length (weight_masks n d) = n choose d"
proof (induction n arbitrary: d)
  case 0
  then show ?case by (cases d) (simp_all add: weight_masks_def)
next
  case (Suc n)
  show ?case
  proof (cases d)
    case 0
    then show ?thesis by (simp add: weight_masks_0)
  next
    case (Suc e)
    then show ?thesis
      using arg_cong [OF weight_masks_Suc [of n e], of size] Suc.IH by simp
  qed
qed

lemma binomial_step:
  assumes "1 \<le> d" "d \<le> n"
  shows "(n choose (d - 1)) * (n - d + 1) div d = n choose d"
proof -
  obtain e where d: "d = Suc e" using assms(1) by (cases d) auto
  have "Suc e * (n choose Suc e) = (n - e) * (n choose e)"
    using assms d by (simp only: binomial_absorption binomial_absorb_comp)
  moreover have "n - d + 1 = n - e" using assms d by simp
  ultimately have "(n choose (d - 1)) * (n - d + 1) = d * (n choose d)"
    by (simp add: d mult.commute)
  then show ?thesis using assms(1) by simp
qed

text \<open>The projection is exact while neither the product nor the sum reaches the limit.\<close>

lemma cumulative_loop_exact:
  assumes "1 \<le> d" "rho \<le> n"
    and "\<And>i. d \<le> i \<Longrightarrow> i \<le> rho \<Longrightarrow> (n choose (i - 1)) * (n - i + 1) \<le> usize_max"
    and "(\<Sum>i\<le>rho. n choose i) < usize_max"
    and "d \<le> Suc rho"
  shows "cumulative_loop n rho d (n choose (d - 1)) (\<Sum>i<d. n choose i) = (\<Sum>i\<le>rho. n choose i)"
  using assms
proof (induction "Suc rho - d" arbitrary: d)
  case 0
  then have "d = Suc rho" by simp
  then show ?case by (simp add: cumulative_loop.simps lessThan_Suc_atMost)
next
  case (Suc j)
  then have d: "d \<le> rho" "d \<le> n" by simp_all
  let ?s = "\<Sum>i<d. n choose i"
  have c: "saturating_mul (n choose (d - 1)) (n - d + 1) div d = n choose d"
    using Suc.prems(3) [of d] d binomial_step [of d n] Suc.prems(1)
    by (simp add: saturating_mul_def min.absorb2)
  have "(\<Sum>i<Suc d. n choose i) \<le> (\<Sum>i\<le>rho. n choose i)"
    using d by (intro sum_mono2) auto
  then have lt: "?s + (n choose d) < usize_max" using Suc.prems(4) by simp
  then have s: "saturating_add ?s (n choose d) = (\<Sum>i<Suc d. n choose i)"
    by (simp add: saturating_add_def)
  have "cumulative_loop n rho d (n choose (d - 1)) ?s
      = cumulative_loop n rho (Suc d) (n choose (Suc d - 1)) (\<Sum>i<Suc d. n choose i)"
    using d c s lt by (subst cumulative_loop.simps) (simp add: Let_def)
  also have "\<dots> = (\<Sum>i\<le>rho. n choose i)"
    using Suc.hyps Suc.prems d by (intro Suc.hyps(1)) auto
  finally show ?case .
qed

lemma cumulative_loop_cut: "n \<le> rho \<Longrightarrow> cumulative_loop n rho d c s = cumulative_loop n n d c s"
proof (induction n rho d c s rule: cumulative_loop.induct)
  case (1 n rho d c s)
  show ?case
  proof (cases "n < d")
    case True
    then show ?thesis by (simp add: cumulative_loop.simps)
  next
    case False
    with "1" show ?thesis
      by (subst (1 2) cumulative_loop.simps) (simp add: Let_def)
  qed
qed

lemma cumulative_choose_exact:
  assumes "1 \<le> n"
    and "\<And>i. 1 \<le> i \<Longrightarrow> i \<le> min rho n \<Longrightarrow> (n choose (i - 1)) * (n - i + 1) \<le> usize_max"
    and "(\<Sum>i\<le>rho. n choose i) < usize_max"
  shows "cumulative_choose n rho = (\<Sum>i\<le>rho. n choose i)"
proof -
  have cut: "(\<Sum>i\<le>rho. n choose i) = (\<Sum>i\<le>min rho n. n choose i)"
    by (intro sum.mono_neutral_right) auto
  have "cumulative_choose n rho = cumulative_loop n (min rho n) 1 1 1"
    using assms(1) cumulative_loop_cut [of n rho] by (simp add: cumulative_choose_def min_def)
  also have "\<dots> = (\<Sum>i\<le>min rho n. n choose i)"
    using cumulative_loop_exact [of 1 "min rho n" n] assms cut by simp
  finally show ?thesis by (simp only: cut)
qed

lemma absorb_le:
  "1 \<le> i \<Longrightarrow> i \<le> n \<Longrightarrow> (n choose (i - 1)) * (n - i + 1) = n * ((n - 1) choose (i - 1))"
  using binomial_absorb_comp [of n "i - 1"] by (simp add: mult.commute Suc_diff_le)

lemma binomial_le_pow: "n choose k \<le> 2 ^ n"
proof -
  have "n choose k \<le> (\<Sum>i\<le>n. n choose i)" if "k \<le> n"
    using that by (intro member_le_sum) auto
  then show ?thesis by (cases "k \<le> n") (simp_all add: choose_row_sum binomial_eq_0)
qed

lemma sum_binomial_le_pow: "(\<Sum>i\<le>rho. n choose i) \<le> 2 ^ n"
proof -
  have "(\<Sum>i\<le>rho. n choose i) = (\<Sum>i\<le>min rho n. n choose i)"
    by (intro sum.mono_neutral_right) auto
  also have "\<dots> \<le> (\<Sum>i\<le>n. n choose i)" by (intro sum_mono2) auto
  finally show ?thesis by (simp add: choose_row_sum)
qed

lemma cumulative_choose_narrow:
  assumes "1 \<le> n" "n \<le> 32"
  shows "cumulative_choose n rho = (\<Sum>i\<le>rho. n choose i)"
proof (rule cumulative_choose_exact)
  have p: "(2::nat) ^ n \<le> 2 ^ 32" using assms(2) by (rule power_increasing) simp
  show "(\<Sum>i\<le>rho. n choose i) < usize_max" using sum_binomial_le_pow [where n = n and rho = rho] p by simp
  show "(n choose (i - 1)) * (n - i + 1) \<le> usize_max" if "1 \<le> i" "i \<le> min rho n" for i
  proof -
    have "(n choose (i - 1)) * (n - i + 1) \<le> 2 ^ 32 * 32"
      using binomial_le_pow [of n "i - 1"] p that assms by (intro mult_mono) auto
    then show ?thesis by simp
  qed
qed (rule assms)

lemma choose_63_25: "(63 choose 25 :: nat) = 244382877832924467"
  by (simp add: binomial_fact' fact_numeral)

lemma choose_64_26: "(64 choose 26 :: nat) = 601557853127198688"
  by (simp add: binomial_fact' fact_numeral)

lemma cumulative_choose_wide:
  assumes "rho \<le> 26"
  shows "cumulative_choose 64 rho = (\<Sum>i\<le>rho. 64 choose i)"
proof (rule cumulative_choose_exact)
  have "(\<Sum>i\<le>rho. 64 choose i :: nat) \<le> (\<Sum>i\<le>rho. 64 choose 26)"
    using assms by (intro sum_mono binomial_mono) auto
  also have "\<dots> \<le> 27 * (64 choose 26)" using assms by simp
  finally show "(\<Sum>i\<le>rho. 64 choose i) < usize_max" by (simp add: choose_64_26)
  show "(64 choose (i - 1)) * (64 - i + 1) \<le> usize_max" if "1 \<le> i" "i \<le> min rho 64" for i
  proof -
    have "(63 choose (i - 1) :: nat) \<le> 63 choose 25"
      using that assms by (intro binomial_mono) auto
    then show ?thesis using absorb_le [of i 64] that assms by (simp add: choose_63_25)
  qed
qed simp

text \<open>The number of visited masks, and the first radius whose projection saturates.\<close>

lemma colex_flip_masks_length:
  assumes "1 \<le> sub_bits" "sub_bits \<le> 64"
  shows "map_option length (colex_flip_masks sub_bits rho) = Some (\<Sum>i\<le>rho. sub_bits choose i)"
proof -
  have "(\<Sum>i\<le>rho. sub_bits choose i) = (\<Sum>i\<in>{0..<Suc (min rho sub_bits)}. sub_bits choose i)"
    by (intro sum.mono_neutral_right) auto
  then show ?thesis
    by (simp add: colex_flip_masks_lists [OF assms] length_concat o_def length_weight_masks
        interv_sum_list_conv_sum_set_nat del: upt_Suc)
qed

lemma cumulative_loop_step:
  "cumulative_loop n rho d c s =
     (if rho < d \<or> n < d then s
      else if min usize_max (s + min usize_max (c * (n - d + 1)) div d) = usize_max then usize_max
      else cumulative_loop n rho (d + 1) (min usize_max (c * (n - d + 1)) div d)
             (min usize_max (s + min usize_max (c * (n - d + 1)) div d)))"
  by (subst cumulative_loop.simps) (simp add: saturating_mul_def saturating_add_def Let_def)

lemma cumulative_choose_64_27: "cumulative_choose 64 27 = 2238669057057460562"
  by (simp add: cumulative_choose_def cumulative_loop_step del: One_nat_def)

lemma cumulative_choose_64_26: "cumulative_choose 64 26 = 1555456313586736429"
  by (simp add: cumulative_choose_def cumulative_loop_step del: One_nat_def)

lemma masks_64_27: "(\<Sum>i\<le>27. 64 choose i :: nat) = 2402093292062053101"
proof -
  have "(\<Sum>i\<le>27. 64 choose i :: nat) = (\<Sum>i\<le>26. 64 choose i) + (64 choose 27)"
    using sum.atMost_Suc [of "\<lambda>i. 64 choose i :: nat" 26] by simp
  also have "(\<Sum>i\<le>26. 64 choose i :: nat) = 1555456313586736429"
    using cumulative_choose_wide [of 26] cumulative_choose_64_26 by simp
  also have "(64 choose 27 :: nat) = 846636978475316672"
    by (simp add: binomial_fact' fact_numeral)
  finally show ?thesis by simp
qed

end
