(* ===== verification/Heap_Sift.thy ===== *)
theory Heap_Sift
  imports Top_K
begin

text \<open>
  The sifts of an array heap. The bounded heaps of \<open>engine/mih.rs\<close> (VectorKit) and of
  \<open>engine/inverted_index.rs\<close> (CorpusKit) have the same two loops and differ in the comparison of
  two slots, which is an argument here. The locale \<open>sifting\<close> states what a comparison must be, a
  strict order by some rank with the worst at the root, and shows that both loops restore the heap.
\<close>

section \<open>Definitions\<close>

definition swap :: "'a list \<Rightarrow> nat \<Rightarrow> nat \<Rightarrow> 'a list" where
  "swap xs i j = xs[i := xs ! j, j := xs ! i]"

function sift_up_by :: "('a list \<Rightarrow> nat \<Rightarrow> nat \<Rightarrow> bool) \<Rightarrow> 'a list \<Rightarrow> nat \<Rightarrow> 'a list" where
  "sift_up_by worse es i =
     (if 0 < i
      then let parent = (i - 1) div 2
           in if worse es i parent then sift_up_by worse (swap es i parent) parent else es
      else es)"
  by pat_completeness auto
termination
  by (relation "measure (\<lambda>(worse, es, i). i)") auto

declare sift_up_by.simps [simp del]

definition sift_top_by :: "('a list \<Rightarrow> nat \<Rightarrow> nat \<Rightarrow> bool) \<Rightarrow> 'a list \<Rightarrow> nat \<Rightarrow> nat" where
  "sift_top_by worse es i =
     (let n = length es; l = 2 * i + 1; r = 2 * i + 2;
          top1 = (if l < n \<and> worse es l i then l else i)
      in if r < n \<and> worse es r top1 then r else top1)"

function sift_down_by :: "('a list \<Rightarrow> nat \<Rightarrow> nat \<Rightarrow> bool) \<Rightarrow> 'a list \<Rightarrow> nat \<Rightarrow> 'a list" where
  "sift_down_by worse es i =
     (let top = sift_top_by worse es i
      in if top = i then es else sift_down_by worse (swap es i top) top)"
  by pat_completeness auto
termination
proof (relation "measure (\<lambda>(worse, es, i). length es - i)")
  fix worse :: "'a list \<Rightarrow> nat \<Rightarrow> nat \<Rightarrow> bool" and es :: "'a list" and i top :: nat
  assume "top = sift_top_by worse es i" "top \<noteq> i"
  then have "i < top" "top < length es" by (auto simp: sift_top_by_def Let_def split: if_splits)
  then show "((worse, swap es i top, top), worse, es, i) \<in> measure (\<lambda>(worse, es, i). length es - i)"
    by (simp add: swap_def)
qed simp

declare sift_down_by.simps [simp del]

section \<open>Slots\<close>

abbreviation parent :: "nat \<Rightarrow> nat" where
  "parent j \<equiv> (j - 1) div 2"

lemma parent_less: "0 < j \<Longrightarrow> parent j < j"
  by presburger

lemma parent_iff: "0 < j \<Longrightarrow> parent j = i \<longleftrightarrow> j = 2 * i + 1 \<or> j = 2 * i + 2"
  by presburger

lemma length_swap [simp]: "length (swap xs i j) = length xs"
  by (simp add: swap_def)

lemma mset_swap_eq [simp]: "i < length xs \<Longrightarrow> j < length xs \<Longrightarrow> mset (swap xs i j) = mset xs"
  unfolding swap_def by (simp add: mset_swap)

lemma nth_swap:
  "i < length xs \<Longrightarrow> j < length xs \<Longrightarrow> m < length xs \<Longrightarrow>
    swap xs i j ! m = (if m = i then xs ! j else if m = j then xs ! i else xs ! m)"
  by (auto simp: swap_def nth_list_update)

section \<open>The heap property\<close>

locale sifting =
  fixes worse :: "'a list \<Rightarrow> nat \<Rightarrow> nat \<Rightarrow> bool" and rank :: "'a \<Rightarrow> 'b::linorder"
  assumes worse_by_rank: "worse es i j \<longleftrightarrow> rank (es ! j) < rank (es ! i)"
begin

abbreviation rk :: "'a list \<Rightarrow> nat \<Rightarrow> 'b" where
  "rk es i \<equiv> rank (es ! i)"

lemmas worse_rank = worse_by_rank

definition max_heap :: "'a list \<Rightarrow> bool" where
  "max_heap es \<longleftrightarrow> (\<forall>j. 0 < j \<longrightarrow> j < length es \<longrightarrow> rk es j \<le> rk es (parent j))"

lemma rk_swap:
  "i < length xs \<Longrightarrow> j < length xs \<Longrightarrow> m < length xs \<Longrightarrow>
    rk (swap xs i j) m = (if m = i then rk xs j else if m = j then rk xs i else rk xs m)"
  by (auto simp: nth_swap)

lemma max_heap_root:
  assumes "max_heap es" "j < length es"
  shows "rk es j \<le> rk es 0"
  using assms(2)
proof (induction j rule: less_induct)
  case (less j)
  show ?case
  proof (cases "j = 0")
    case False
    then have "rk es j \<le> rk es (parent j)" using assms(1) less.prems by (simp add: max_heap_def)
    also have "\<dots> \<le> rk es 0" using less False by auto
    finally show ?thesis .
  qed simp
qed

text \<open>A heap but for the edge from \<open>i\<close> to its parent.\<close>

definition heap_above :: "'a list \<Rightarrow> nat \<Rightarrow> bool" where
  "heap_above es i \<longleftrightarrow>
     (\<forall>j. 0 < j \<longrightarrow> j < length es \<longrightarrow> j \<noteq> i \<longrightarrow> rk es j \<le> rk es (parent j))
     \<and> (\<forall>j. 0 < i \<longrightarrow> 0 < j \<longrightarrow> j < length es \<longrightarrow> parent j = i \<longrightarrow> rk es j \<le> rk es (parent i))"

lemma sift_up_heap:
  assumes "heap_above es i" "i < length es"
  shows "max_heap (sift_up_by worse es i) \<and> mset (sift_up_by worse es i) = mset es"
  using assms
proof (induction i arbitrary: es rule: less_induct)
  case (less i)
  show ?case
  proof (cases "0 < i \<and> worse es i (parent i)")
    case False
    then have "sift_up_by worse es i = es" by (subst sift_up_by.simps) (auto simp: Let_def)
    moreover have "max_heap es"
      using less.prems False unfolding max_heap_def heap_above_def worse_rank by (metis linorder_not_less)
    ultimately show ?thesis by simp
  next
    case True
    let ?p = "parent i" and ?es = "swap es i (parent i)"
    have p: "?p < i" "?p < length es" using True less.prems(2) by auto
    have up: "rk es ?p < rk es i" using True by (simp add: worse_rank)
    have nth: "rk ?es m = (if m = i then rk es ?p else if m = ?p then rk es i else rk es m)"
      if "m < length es" for m using that less.prems(2) p by (simp add: rk_swap)
    have edge: "rk es j \<le> rk es (parent j)" if "0 < j" "j < length es" "j \<noteq> i" for j
      using less.prems(1) that by (simp add: heap_above_def)
    have child: "rk es j \<le> rk es ?p" if "0 < j" "j < length es" "parent j = i" for j
      using less.prems(1) that True unfolding heap_above_def by blast
    have "heap_above ?es ?p"
      unfolding heap_above_def
    proof (intro conjI allI impI)
      fix j assume j: "0 < j" "j < length ?es" "j \<noteq> ?p"
      then have "parent j < length es" by auto
      consider "j = i" | "parent j = i" "j \<noteq> i" | "parent j = ?p" "j \<noteq> i"
        | "j \<noteq> i" "parent j \<noteq> i" "parent j \<noteq> ?p" by blast
      then show "rk ?es j \<le> rk ?es (parent j)"
      proof cases
        case 1
        then show ?thesis using nth j p up by (simp add: less_imp_le)
      next
        case 2
        then show ?thesis using nth [of j] nth [of i] j child [of j] less.prems(2) by simp
      next
        case 3
        then have "rk es j \<le> rk es ?p" using edge [of j] j by simp
        then show ?thesis using 3 nth [of j] nth [of ?p] j p up by simp
      next
        case 4
        then show ?thesis using nth [of j] nth [of "parent j"] \<open>parent j < length es\<close> j edge [of j] by simp
      qed
    next
      fix j assume j: "0 < ?p" "0 < j" "j < length ?es" "parent j = ?p"
      have "parent ?p < ?p" using j(1) by (rule parent_less)
      then have pp: "parent ?p < length es" "parent ?p \<noteq> i" "parent ?p \<noteq> ?p" "j \<noteq> ?p"
        using p j(4) by linarith+
      have gp: "rk es ?p \<le> rk es (parent ?p)" using edge [of ?p] j(1) p by simp
      show "rk ?es j \<le> rk ?es (parent ?p)"
      proof (cases "j = i")
        case True
        then have "rk ?es j = rk es ?p" using nth [of j] j(3) by simp
        with gp nth [OF pp(1)] pp(2,3) show ?thesis by (simp only: if_False)
      next
        case False
        then have "rk es j \<le> rk es ?p" using edge [of j] j(2-4) by simp
        moreover have "rk ?es j = rk es j" using nth [of j] j(3) False pp(4) by simp
        ultimately have "rk ?es j \<le> rk es (parent ?p)" using gp by (simp only: order_trans)
        with nth [OF pp(1)] pp(2,3) show ?thesis by (simp only: if_False)
      qed
    qed
    then have "max_heap (sift_up_by worse ?es ?p) \<and> mset (sift_up_by worse ?es ?p) = mset ?es"
      using less.IH [of ?p ?es] p by simp
    moreover have "sift_up_by worse es i = sift_up_by worse ?es ?p"
      using True by (subst sift_up_by.simps) (simp add: Let_def)
    ultimately show ?thesis using less.prems(2) p by simp
  qed
qed

text \<open>A heap but for the edges from the children of \<open>i\<close>.\<close>

definition heap_below :: "'a list \<Rightarrow> nat \<Rightarrow> bool" where
  "heap_below es i \<longleftrightarrow>
     (\<forall>j. 0 < j \<longrightarrow> j < length es \<longrightarrow> parent j \<noteq> i \<longrightarrow> rk es j \<le> rk es (parent j))
     \<and> (\<forall>j. 0 < i \<longrightarrow> 0 < j \<longrightarrow> j < length es \<longrightarrow> parent j = i \<longrightarrow> rk es j \<le> rk es (parent i))"

lemma sift_top_cases:
  assumes "i < length es"
  shows "rk es i \<le> rk es (sift_top_by worse es i)"
    and "\<And>j. 0 < j \<Longrightarrow> j < length es \<Longrightarrow> parent j = i \<Longrightarrow> rk es j \<le> rk es (sift_top_by worse es i)"
    and "sift_top_by worse es i \<noteq> i \<Longrightarrow> sift_top_by worse es i < length es \<and> 0 < sift_top_by worse es i
      \<and> parent (sift_top_by worse es i) = i \<and> rk es i < rk es (sift_top_by worse es i)"
proof -
  let ?l = "2 * i + 1" and ?r = "2 * i + 2"
  define t where "t = (if ?l < length es \<and> worse es ?l i then ?l else i)"
  have t: "rk es i \<le> rk es t" "?l < length es \<Longrightarrow> rk es ?l \<le> rk es t"
    by (auto simp: t_def worse_rank less_imp_le not_less)
  have top: "sift_top_by worse es i = (if ?r < length es \<and> worse es ?r t then ?r else t)"
    by (simp add: sift_top_by_def t_def Let_def)
  have ge: "rk es t \<le> rk es (sift_top_by worse es i)" "?r < length es \<Longrightarrow> rk es ?r \<le> rk es (sift_top_by worse es i)"
    unfolding top by (auto simp: worse_rank less_imp_le not_less)
  show le: "rk es i \<le> rk es (sift_top_by worse es i)" using t(1) ge(1) by (rule order_trans)
  show "rk es j \<le> rk es (sift_top_by worse es i)" if "0 < j" "j < length es" "parent j = i" for j
    using that t(2) ge parent_iff [of j i] by (auto intro: order_trans)
  assume "sift_top_by worse es i \<noteq> i"
  then consider "sift_top_by worse es i = ?r" "?r < length es" "rk es t < rk es ?r"
    | "sift_top_by worse es i = ?l" "?l < length es" "rk es i < rk es ?l"
    unfolding top t_def by (auto simp: worse_rank split: if_splits)
  then show "sift_top_by worse es i < length es \<and> 0 < sift_top_by worse es i \<and> parent (sift_top_by worse es i) = i
      \<and> rk es i < rk es (sift_top_by worse es i)"
    using t(1) by cases auto
qed

lemma sift_down_heap:
  assumes "heap_below es i" "i < length es"
  shows "max_heap (sift_down_by worse es i) \<and> mset (sift_down_by worse es i) = mset es"
  using assms
proof (induction "length es - i" arbitrary: es i rule: less_induct)
  case less
  let ?t = "sift_top_by worse es i"
  note top = sift_top_cases [OF less.prems(2)]
  have edge: "rk es j \<le> rk es (parent j)" if "0 < j" "j < length es" "parent j \<noteq> i" for j
    using less.prems(1) that by (simp add: heap_below_def)
  show ?case
  proof (cases "?t = i")
    case True
    then have "sift_down_by worse es i = es" by (subst sift_down_by.simps) (simp add: Let_def)
    moreover have "max_heap es"
      unfolding max_heap_def using edge top(2) True by metis
    ultimately show ?thesis by simp
  next
    case False
    let ?es = "swap es i ?t"
    have t: "?t < length es" "0 < ?t" "parent ?t = i" "rk es i < rk es ?t" using top(3) False by auto
    then have it: "i < ?t" by auto
    have nth: "rk ?es m = (if m = i then rk es ?t else if m = ?t then rk es i else rk es m)"
      if "m < length es" for m using that less.prems(2) t by (simp add: rk_swap)
    have up: "rk es j \<le> rk es (parent i)" if "0 < i" "0 < j" "j < length es" "parent j = i" for j
      using less.prems(1) that unfolding heap_below_def by blast
    have "heap_below ?es ?t"
      unfolding heap_below_def
    proof (intro conjI allI impI)
      fix j assume j: "0 < j" "j < length ?es" "parent j \<noteq> ?t"
      then have pj: "parent j < length es" by auto
      consider "j = i" | "j = ?t" | "j \<noteq> i" "j \<noteq> ?t" "parent j = i" | "j \<noteq> i" "j \<noteq> ?t" "parent j \<noteq> i" by blast
      then show "rk ?es j \<le> rk ?es (parent j)"
      proof cases
        case 1
        then have "parent j \<noteq> i" "rk es ?t \<le> rk es (parent i)" using j up [of ?t] t by auto
        then show ?thesis using 1 nth [of j] nth [of "parent j"] pj j by simp
      next
        case 2
        then show ?thesis using nth [of j] nth [of i] t less.prems(2) it by (simp add: less_imp_le)
      next
        case 3
        then show ?thesis using nth [of j] nth [of i] top(2) [of j] j less.prems(2) by simp
      next
        case 4
        then show ?thesis using nth [of j] nth [of "parent j"] pj j edge [of j] by simp
      qed
    next
      fix j assume j: "0 < ?t" "0 < j" "j < length ?es" "parent j = ?t"
      then have "j \<noteq> i" "j \<noteq> ?t" "rk es j \<le> rk es ?t" using it edge [of j] by auto
      then show "rk ?es j \<le> rk ?es (parent ?t)"
        using nth [of j] nth [of i] t j less.prems(2) by simp
    qed
    then have "max_heap (sift_down_by worse ?es ?t) \<and> mset (sift_down_by worse ?es ?t) = mset ?es"
      using less.hyps [of ?es ?t] t it by simp
    moreover have "sift_down_by worse es i = sift_down_by worse ?es ?t"
      using False by (subst sift_down_by.simps) (simp add: Let_def)
    ultimately show ?thesis using less.prems(2) t by simp
  qed
qed

lemma heap_above_append:
  assumes "max_heap es"
  shows "heap_above (es @ [x]) (length es)"
proof -
  have "parent j < j" if "0 < j" for j using that by auto
  then show ?thesis
    using assms by (auto simp: heap_above_def max_heap_def nth_append dest: less_trans)
qed

lemma heap_below_replace:
  assumes "max_heap es"
  shows "heap_below (es[0 := x]) 0"
  using assms by (auto simp: heap_below_def max_heap_def nth_list_update)

lemma push_heap:
  assumes "max_heap es"
  shows "max_heap (sift_up_by worse (es @ [x]) (length es))"
    and "mset (sift_up_by worse (es @ [x]) (length es)) = add_mset x (mset es)"
  using sift_up_heap [OF heap_above_append [OF assms]] by simp_all

lemma replace_heap:
  assumes "max_heap (w # ws)"
  shows "max_heap (sift_down_by worse ((w # ws)[0 := x]) 0)"
    and "mset (sift_down_by worse ((w # ws)[0 := x]) 0) = add_mset x (mset ws)"
  using sift_down_heap [OF heap_below_replace [OF assms], of x] by simp_all

lemma root_worst:
  assumes "max_heap (w # ws)" "x \<in> set (w # ws)"
  shows "rank x \<le> rank w"
proof -
  obtain j where "j < length (w # ws)" "x = (w # ws) ! j" using assms(2) by (metis in_set_conv_nth)
  then show ?thesis using max_heap_root [OF assms(1)] by auto
qed

end

section \<open>The best \<open>k\<close> of the offered elements\<close>

locale ranked_heap = sifting worse rank
  for worse :: "'a list \<Rightarrow> nat \<Rightarrow> nat \<Rightarrow> bool" and rank :: "'a \<Rightarrow> 'b::linorder" +
  assumes inj_rank: "inj rank"
begin

definition holds_best :: "nat \<Rightarrow> 'b set \<Rightarrow> 'a list \<Rightarrow> bool" where
  "holds_best k S es \<longleftrightarrow> max_heap es \<and> distinct es \<and> rank ` set es = topk k S"

lemma best_new: "holds_best k {} []"
  by (simp add: holds_best_def max_heap_def)

lemma best_length: "holds_best k S es \<Longrightarrow> length es = card (topk k S)"
  unfolding holds_best_def by (metis card_image distinct_card inj_on_subset inj_rank subset_UNIV)

lemma best_mset:
  assumes "mset es' = mset es" "distinct es" "max_heap es'" "rank ` set es = topk k S"
  shows "holds_best k S es'"
  using assms mset_eq_setD [OF assms(1)] mset_eq_imp_distinct_iff [OF assms(1)] by (simp add: holds_best_def)

lemma not_held:
  assumes "finite S" "holds_best k S es" "rank x \<notin> S"
  shows "x \<notin> set es"
  using assms topk_subset [OF assms(1), of k] unfolding holds_best_def by blast

lemma best_push:
  assumes "finite S" "holds_best k S es" "rank x \<notin> S" "length es < k"
  shows "holds_best k (insert (rank x) S) (sift_up_by worse (es @ [x]) (length es))"
proof (rule best_mset)
  have "max_heap es" using assms(2) by (simp add: holds_best_def)
  note up = push_heap [OF this, of x]
  show "mset (sift_up_by worse (es @ [x]) (length es)) = mset (es @ [x])" using up(2) by simp
  show "max_heap (sift_up_by worse (es @ [x]) (length es))" by (rule up(1))
  show "distinct (es @ [x])" using assms(2) not_held [OF assms(1-3)] by (simp add: holds_best_def)
  show "rank ` set (es @ [x]) = topk k (insert (rank x) S)"
    using assms best_length [OF assms(2)] topk_insert_room [OF assms(1), of k "rank x"]
    by (simp add: holds_best_def)
qed

lemma best_full:
  assumes "finite S" "holds_best k S (w # ws)" "k \<le> length (w # ws)"
  shows "card (topk k S) = k" "rank w \<in> topk k S" "\<And>t. t \<in> topk k S \<Longrightarrow> t \<le> rank w"
proof -
  show "card (topk k S) = k"
    using best_length [OF assms(2)] assms(1,3) by (simp add: card_topk)
  show "rank w \<in> topk k S" using assms(2) by (auto simp: holds_best_def)
  fix t assume "t \<in> topk k S"
  then obtain x where "x \<in> set (w # ws)" "t = rank x" using assms(2) by (auto simp: holds_best_def)
  then show "t \<le> rank w" using root_worst [of w ws x] assms(2) by (simp add: holds_best_def)
qed

lemma best_replace:
  assumes "finite S" "holds_best k S (w # ws)" "rank x \<notin> S" "k \<le> length (w # ws)" "rank x < rank w"
  shows "holds_best k (insert (rank x) S) (sift_down_by worse ((w # ws)[0 := x]) 0)"
proof (rule best_mset)
  have h: "max_heap (w # ws)" "distinct (w # ws)" "rank ` set (w # ws) = topk k S"
    using assms(2) by (simp_all add: holds_best_def)
  note down = replace_heap [OF h(1), of x] and full = best_full [OF assms(1,2,4)]
  show "mset (sift_down_by worse ((w # ws)[0 := x]) 0) = mset (x # ws)" using down(2) by simp
  show "max_heap (sift_down_by worse ((w # ws)[0 := x]) 0)" by (rule down(1))
  show "distinct (x # ws)" using h(2) not_held [OF assms(1-3)] by simp
  have "rank w \<notin> rank ` set ws" using h(2) inj_rank by (simp add: inj_image_mem_iff)
  moreover have "topk k S = insert (rank w) (rank ` set ws)" using h(3) by simp
  ultimately have "topk k S - {rank w} = rank ` set ws" by (metis Diff_insert_absorb)
  then show "rank ` set (x # ws) = topk k (insert (rank x) S)"
    using topk_insert_better [OF assms(1) full(1) assms(3) full(2) assms(5) full(3)] by simp
qed

lemma best_keep:
  assumes "finite S" "holds_best k S (w # ws)" "rank x \<notin> S" "k \<le> length (w # ws)" "\<not> rank x < rank w"
  shows "holds_best k (insert (rank x) S) (w # ws)"
proof -
  note full = best_full [OF assms(1,2,4)]
  have "rank w \<in> S" using topk_subset [OF assms(1)] full(2) by (rule subsetD)
  then have "rank w \<noteq> rank x" using assms(3) by metis
  then have "rank w < rank x" using assms(5) by simp
  then have "t < rank x" if "t \<in> topk k S" for t using full(3) [OF that] by (rule le_less_trans [rotated])
  then have "topk k (insert (rank x) S) = topk k S" using topk_insert_worse [OF assms(1) full(1)] by blast
  then show ?thesis using assms(2) by (simp add: holds_best_def)
qed

end

end
