(* ===== verification/Bounded_Heap.thy ===== *)
theory Bounded_Heap
  imports Vector_Types Heap_Sift
begin

text \<open>
  The bounded max-heap of \<open>engine/mih.rs\<close> (\<open>BoundedMaxHeap\<close>), an array heap that retains
  the best \<open>k\<close> pairs of distance and key with the worst at the root. The heap property is kept
  by both sifts, and offering a candidate turns the \<open>k\<close> smallest of a set into the \<open>k\<close>
  smallest of the set with the candidate.
\<close>

section \<open>Definitions\<close>

type_synonym entry = "u32 \<times> vector_record_key"

record bounded_max_heap =
  capacity :: nat
  elements :: "entry list"

definition heap_new :: "nat \<Rightarrow> bounded_max_heap" where
  "heap_new cap = \<lparr>capacity = cap, elements = []\<rparr>"

definition heap_size :: "bounded_max_heap \<Rightarrow> nat" where
  "heap_size h = length (elements h)"

text \<open>\<open>worst_dist\<close> reads the root; \<open>None\<close> is the panic on an empty heap.\<close>

definition worst_dist :: "bounded_max_heap \<Rightarrow> u32 option" where
  "worst_dist h = (case elements h of [] \<Rightarrow> None | e # _ \<Rightarrow> Some (fst e))"

definition is_worse :: "entry list \<Rightarrow> nat \<Rightarrow> nat \<Rightarrow> bool" where
  "is_worse es i j =
     (let (da, ka) = es ! i; (db, kb) = es ! j in if da \<noteq> db then da > db else ka > kb)"

definition sift_up :: "entry list \<Rightarrow> nat \<Rightarrow> entry list" where
  "sift_up es i = sift_up_by is_worse es i"

definition sift_down :: "entry list \<Rightarrow> nat \<Rightarrow> entry list" where
  "sift_down es i = sift_down_by is_worse es i"

text \<open>\<open>offer\<close>; \<open>None\<close> is the panic of reading the root of an empty heap of capacity 0.\<close>

definition offer :: "bounded_max_heap \<Rightarrow> u32 \<Rightarrow> vector_record_key \<Rightarrow> bounded_max_heap option" where
  "offer h d key =
     (if length (elements h) < capacity h
      then let es = elements h @ [(d, key)]
           in Some (h\<lparr>elements := sift_up es (length es - 1)\<rparr>)
      else (case elements h of
              [] \<Rightarrow> None
            | (wd, wk) # _ \<Rightarrow>
                let better = (d < wd \<or> d = wd \<and> key < wk)
                in if \<not> better then Some h
                   else Some (h\<lparr>elements := sift_down ((elements h)[0 := (d, key)]) 0\<rparr>)))"

definition sorted_ascending :: "bounded_max_heap \<Rightarrow> entry list" where
  "sorted_ascending h = sort (elements h)"

section \<open>The heap property\<close>

lemma is_worse_iff: "is_worse es i j \<longleftrightarrow> es ! j < es ! i"
  by (cases "es ! i"; cases "es ! j") (auto simp: is_worse_def)

interpretation knn_heap: ranked_heap is_worse "\<lambda>e. e"
  by unfold_locales (simp_all add: is_worse_iff)

section \<open>Offering a candidate\<close>

text \<open>The heap holds the best \<open>k\<close> of the candidates \<open>S\<close> offered so far.\<close>

definition retains :: "nat \<Rightarrow> entry set \<Rightarrow> bounded_max_heap \<Rightarrow> bool" where
  "retains k S h \<longleftrightarrow> capacity h = k \<and> knn_heap.holds_best k S (elements h)"

lemma retains_set: "retains k S h \<Longrightarrow> set (elements h) = topk k S"
  by (simp add: retains_def knn_heap.holds_best_def)

lemma retains_new: "retains k {} (heap_new k)"
  using knn_heap.best_new by (simp add: retains_def heap_new_def)

lemma retains_size: "finite S \<Longrightarrow> retains k S h \<Longrightarrow> heap_size h = card (topk k S)"
  using knn_heap.best_length by (simp add: retains_def heap_size_def)

lemma retains_sorted:
  "finite S \<Longrightarrow> retains k S h \<Longrightarrow> sorted_ascending h = take k (sorted_list_of_set S)"
  unfolding retains_def knn_heap.holds_best_def sorted_ascending_def by (auto intro: sort_distinct_topk)

lemma elements_root_worst:
  assumes "finite S" "retains k S h" "elements h = w # ws"
  shows "w \<in> topk k S" "\<And>t. t \<in> topk k S \<Longrightarrow> t \<le> w"
proof -
  have s: "set (w # ws) = topk k S" using retains_set [OF assms(2)] assms(3) by simp
  then show "w \<in> topk k S" by auto
  fix t assume "t \<in> topk k S"
  then have "t \<in> set (w # ws)" using s by blast
  then show "t \<le> w"
    using knn_heap.root_worst [of w ws t] assms(2,3) by (simp add: retains_def knn_heap.holds_best_def)
qed

lemma offer_retains:
  assumes "finite S" "retains k S h" "0 < k" "(d, key) \<notin> S"
  shows "\<exists>h'. offer h d key = Some h' \<and> retains k (insert (d, key) S) h'"
proof (cases "length (elements h) < capacity h")
  case True
  then show ?thesis
    using assms knn_heap.best_push [OF assms(1), of k "elements h" "(d, key)"]
    by (simp add: offer_def retains_def sift_up_def)
next
  case False
  then obtain w ws where es: "elements h = w # ws"
    using assms(2,3) by (cases "elements h") (auto simp: retains_def)
  have best: "knn_heap.holds_best k S (w # ws)" "k \<le> length (w # ws)" "capacity h = k"
    using assms(2) False es by (simp_all add: retains_def)
  have better: "d < fst w \<or> d = fst w \<and> key < snd w \<longleftrightarrow> (d, key) < w"
    by (cases w) (auto simp: order.order_iff_strict)
  show ?thesis
  proof (cases "(d, key) < w")
    case True
    then show ?thesis
      using knn_heap.best_replace [OF assms(1) best(1) assms(4) best(2) True] False es best(3) better
      by (cases w) (auto simp: offer_def retains_def sift_down_def)
  next
    case worse: False
    then show ?thesis
      using knn_heap.best_keep [OF assms(1) best(1) assms(4) best(2) worse] False es best(3) better
      by (cases w) (auto simp: offer_def retains_def)
  qed
qed

end
