(* ===== verification/MIH.thy ===== *)
theory MIH
  imports Flip_Masks Bounded_Heap "HOL-Library.AList"
begin

text \<open>
  Multi-index hashing (\<open>engine/mih.rs\<close>): the substring tables, the index with its
  \<open>build\<close>, \<open>add\<close>, \<open>remove\<close> and \<open>search\<close>, and the progressive-radius search with its
  enumeration budget and brute-force fallback. The tables are shown to index exactly the stored
  codes, and every search is shown to return the \<open>k\<close> nearest stored codes.

  The posting map of a table is a partial function. The code map is an association list whose
  order stands for the unspecified iteration order of a \<open>HashMap\<close>; no result depends on it.
  Searches return an option: \<open>None\<close> is a panic, and the theorems show that none happens.
\<close>

section \<open>Substring tables\<close>

type_synonym substring_table = "u64 \<rightharpoonup> vector_record_key list"

definition table_insert :: "substring_table \<Rightarrow> u64 \<Rightarrow> vector_record_key \<Rightarrow> substring_table" where
  "table_insert tbl sub key =
     (let lst = (case tbl sub of None \<Rightarrow> [] | Some l \<Rightarrow> l);
          pos = partition_point (\<lambda>x. x < key) lst
      in tbl(sub \<mapsto> take pos lst @ key # drop pos lst))"

definition table_remove :: "substring_table \<Rightarrow> u64 \<Rightarrow> vector_record_key \<Rightarrow> substring_table" where
  "table_remove tbl sub key =
     (case tbl sub of
        None \<Rightarrow> tbl
      | Some lst \<Rightarrow>
          let lst' = (case binary_search_by (\<lambda>x. x) lst key of
                        Some pos \<Rightarrow> take pos lst @ drop (Suc pos) lst
                      | None \<Rightarrow> lst)
          in if lst' = [] then tbl(sub := None) else tbl(sub \<mapsto> lst'))"

section \<open>The index\<close>

datatype mih_band_count = M4 | M8 | M16 | M32

fun band_count_value :: "mih_band_count \<Rightarrow> nat" where
  "band_count_value M4 = 4"
| "band_count_value M8 = 8"
| "band_count_value M16 = 16"
| "band_count_value M32 = 32"

definition sub_bits_of :: "mih_band_count \<Rightarrow> nat" where
  "sub_bits_of b = 256 div band_count_value b"

record mih_index =
  mih_m :: nat
  sub_bits :: nat
  mask_budget :: "nat option"
  tables :: "substring_table list"
  codes :: "(vector_record_key \<times> engram) list"

definition mih_new_with_budget :: "mih_band_count \<Rightarrow> nat option \<Rightarrow> mih_index" where
  "mih_new_with_budget b budget =
     \<lparr>mih_m = band_count_value b, sub_bits = sub_bits_of b, mask_budget = budget,
      tables = replicate (band_count_value b) Map.empty, codes = []\<rparr>"

definition mih_new :: "mih_band_count \<Rightarrow> mih_index" where
  "mih_new b = mih_new_with_budget b None"

definition extract_band :: "engram \<Rightarrow> nat \<Rightarrow> nat \<Rightarrow> u64" where
  "extract_band e band_index sb =
     (let start = band_index * sb; lo_word = start div 64; lo_off = start mod 64;
          w = (if lo_word = 0 then block0 e else if lo_word = 1 then block1 e
               else if lo_word = 2 then block2 e else if lo_word = 3 then block3 e else 0);
          msk = (if sb = 64 then - 1 else push_bit sb 1 - 1)
      in drop_bit lo_off w AND msk)"

definition insert_into_tables :: "mih_index \<Rightarrow> vector_record_key \<Rightarrow> engram \<Rightarrow> mih_index" where
  "insert_into_tables idx key e =
     idx\<lparr>tables := fold (\<lambda>t ts. ts[t := table_insert (ts ! t) (extract_band e t (sub_bits idx)) key])
                    [0..<mih_m idx] (tables idx)\<rparr>"

definition remove_from_tables :: "mih_index \<Rightarrow> vector_record_key \<Rightarrow> engram \<Rightarrow> mih_index" where
  "remove_from_tables idx key e =
     idx\<lparr>tables := fold (\<lambda>t ts. ts[t := table_remove (ts ! t) (extract_band e t (sub_bits idx)) key])
                    [0..<mih_m idx] (tables idx)\<rparr>"

definition mih_payload_to_engram :: "vector_payload \<Rightarrow> vectorkit_error + engram" where
  "mih_payload_to_engram p =
     (if payload_kind p \<noteq> Binary
      then Inl (InvalidPayload (Fmt ''MIHIndex: payload.kind must be Binary, got {:?}''
             [FKind (payload_kind p)]))
      else if length (payload_bytes p) \<noteq> 32
      then Inl (InvalidPayload (Fmt ''MIHIndex: binary payload must be 32 bytes, got {}''
             [FNat (length (payload_bytes p))]))
      else Inr (le_engram (payload_bytes p)))"

section \<open>Searching\<close>

text \<open>The body of the candidate callback over one posting list.\<close>

fun scan_posting ::
    "(engram \<Rightarrow> engram \<Rightarrow> u32) \<Rightarrow> mih_index \<Rightarrow> engram \<Rightarrow> metadata_filter option \<Rightarrow> vector_record_key list
      \<Rightarrow> vector_record_key set \<times> bounded_max_heap \<Rightarrow> (vector_record_key set \<times> bounded_max_heap) option" where
  "scan_posting distance idx probe f [] st = Some st"
| "scan_posting distance idx probe f (key # posting) (seen, heap) =
     (if key \<in> seen then scan_posting distance idx probe f posting (seen, heap)
      else
        let seen' = insert key seen
        in if \<not> accepted f key then scan_posting distance idx probe f posting (seen', heap)
           else (case map_of (codes idx) key of
                   None \<Rightarrow> scan_posting distance idx probe f posting (seen', heap)
                 | Some code \<Rightarrow>
                     (case offer heap (distance probe code) key of
                        None \<Rightarrow> None
                      | Some heap' \<Rightarrow> scan_posting distance idx probe f posting (seen', heap'))))"

fun enumerate_masks ::
    "(engram \<Rightarrow> engram \<Rightarrow> u32) \<Rightarrow> mih_index \<Rightarrow> substring_table \<Rightarrow> u64 \<Rightarrow> engram \<Rightarrow> metadata_filter option
      \<Rightarrow> u64 list \<Rightarrow> vector_record_key set \<times> bounded_max_heap \<times> nat
      \<Rightarrow> (vector_record_key set \<times> bounded_max_heap \<times> nat) option" where
  "enumerate_masks distance idx table query_sub probe f [] st = Some st"
| "enumerate_masks distance idx table query_sub probe f (flip_mask # masks) (seen, heap, mask_count) =
     (let mask_count' = (mask_count + 1) mod 2 ^ 64; lookup_key = query_sub XOR flip_mask
      in case table lookup_key of
           None \<Rightarrow> enumerate_masks distance idx table query_sub probe f masks (seen, heap, mask_count')
         | Some posting \<Rightarrow>
             (case scan_posting distance idx probe f posting (seen, heap) of
                None \<Rightarrow> None
              | Some (seen', heap') \<Rightarrow>
                  enumerate_masks distance idx table query_sub probe f masks (seen', heap', mask_count')))"

definition enumerate_band_candidates_counted ::
    "(engram \<Rightarrow> engram \<Rightarrow> u32) \<Rightarrow> mih_index \<Rightarrow> substring_table \<Rightarrow> u64 \<Rightarrow> nat \<Rightarrow> engram \<Rightarrow> metadata_filter option
      \<Rightarrow> vector_record_key set \<times> bounded_max_heap \<times> nat
      \<Rightarrow> (vector_record_key set \<times> bounded_max_heap \<times> nat) option" where
  "enumerate_band_candidates_counted distance idx table query_sub rho probe f st =
     (case colex_flip_masks (sub_bits idx) rho of
        None \<Rightarrow> None
      | Some masks \<Rightarrow> enumerate_masks distance idx table query_sub probe f masks st)"

text \<open>The loop over the bands of one radius; the first \<open>extra\<close> bands probe one bit more.\<close>

fun knn_bands ::
    "(engram \<Rightarrow> engram \<Rightarrow> u32) \<Rightarrow> mih_index \<Rightarrow> engram \<Rightarrow> metadata_filter option \<Rightarrow> nat \<Rightarrow> nat \<Rightarrow> nat list
      \<Rightarrow> vector_record_key set \<times> bounded_max_heap \<times> nat
      \<Rightarrow> (vector_record_key set \<times> bounded_max_heap \<times> nat) option" where
  "knn_bands distance idx probe f rho extra [] st = Some st"
| "knn_bands distance idx probe f rho extra (t # ts) st =
     (let band_rho = rho + (if t < extra then 1 else 0);
          query_sub = extract_band probe t (sub_bits idx)
      in case enumerate_band_candidates_counted distance idx (tables idx ! t) query_sub band_rho probe f st of
           None \<Rightarrow> None
         | Some st' \<Rightarrow> knn_bands distance idx probe f rho extra ts st')"

text \<open>\<open>heap.size() == k && heap.worst_dist() <= r\<close>, with the panic of an empty root read.\<close>

definition heap_exact :: "bounded_max_heap \<Rightarrow> nat \<Rightarrow> nat \<Rightarrow> bool option" where
  "heap_exact heap k r =
     (if heap_size heap = k then map_option (\<lambda>d. unat d \<le> r) (worst_dist heap) else Some False)"

fun brute_offers ::
    "(engram \<Rightarrow> engram \<Rightarrow> u32) \<Rightarrow> engram \<Rightarrow> metadata_filter option \<Rightarrow> (vector_record_key \<times> engram) list
      \<Rightarrow> bounded_max_heap \<Rightarrow> bounded_max_heap option" where
  "brute_offers distance probe f [] heap = Some heap"
| "brute_offers distance probe f ((key, code) # rest) heap =
     (if \<not> accepted f key then brute_offers distance probe f rest heap
      else (case offer heap (distance probe code) key of
              None \<Rightarrow> None
            | Some heap' \<Rightarrow> brute_offers distance probe f rest heap'))"

definition brute_scan ::
    "(engram \<Rightarrow> engram \<Rightarrow> u32) \<Rightarrow> mih_index \<Rightarrow> engram \<Rightarrow> nat \<Rightarrow> metadata_filter option \<Rightarrow> dense_hit list option" where
  "brute_scan distance idx probe k f =
     map_option (\<lambda>heap. map to_hit (sorted_ascending heap))
       (brute_offers distance probe f (codes idx) (heap_new k))"

text \<open>
  The radius loop of \<open>knn\<close>. The radius starts at 0 and grows by one, so the source's test
  \<open>r == 256\<close> is written \<open>256 \<le> r\<close>.
\<close>

function knn_loop ::
    "(engram \<Rightarrow> engram \<Rightarrow> u32) \<Rightarrow> mih_index \<Rightarrow> engram \<Rightarrow> nat \<Rightarrow> metadata_filter option \<Rightarrow> nat \<Rightarrow> nat
      \<Rightarrow> vector_record_key set \<times> bounded_max_heap \<times> nat \<Rightarrow> dense_hit list option" where
  "knn_loop distance idx probe k f budget r (seen, heap, mask_count) =
     (let m = mih_m idx; rho = r div m; extra = r mod m;
          max_band_rho = rho + (if 0 < extra then 1 else 0);
          projected = saturating_mul m (cumulative_choose (sub_bits idx) max_band_rho);
          over_budget = budget < saturating_add mask_count projected;
          falls_back = (if over_budget then map_option Not (heap_exact heap k r) else Some False)
      in case falls_back of
           None \<Rightarrow> None
         | Some True \<Rightarrow> brute_scan distance idx probe k f
         | Some False \<Rightarrow>
             (case knn_bands distance idx probe f rho extra [0..<m] (seen, heap, mask_count) of
                None \<Rightarrow> None
              | Some (seen', heap', mask_count') \<Rightarrow>
                  (case heap_exact heap' k r of
                     None \<Rightarrow> None
                   | Some stop \<Rightarrow>
                       if stop then Some (map to_hit (sorted_ascending heap'))
                       else if length (codes idx) \<le> card seen' then Some (map to_hit (sorted_ascending heap'))
                       else if 256 \<le> r then Some (map to_hit (sorted_ascending heap'))
                       else knn_loop distance idx probe k f budget (Suc r) (seen', heap', mask_count'))))"
  by pat_completeness auto
termination
  by (relation "measure (\<lambda>(distance, idx, probe, k, f, budget, r, st). 256 - r)") auto

declare knn_loop.simps [simp del]

definition knn ::
    "(engram \<Rightarrow> engram \<Rightarrow> u32) \<Rightarrow> mih_index \<Rightarrow> engram \<Rightarrow> nat \<Rightarrow> metadata_filter option \<Rightarrow> dense_hit list option" where
  "knn distance idx probe k f =
     (let n = length (codes idx);
          budget = (case mask_budget idx of Some b \<Rightarrow> b | None \<Rightarrow> max n (2 ^ 20))
      in knn_loop distance idx probe k f budget 0 ({}, heap_new k, 0))"

section \<open>The DenseIndex operations\<close>

fun mih_insert_all :: "mih_index \<Rightarrow> (vector_payload \<times> vector_record_key) list
      \<Rightarrow> mih_index \<times> (vectorkit_error + unit)" where
  "mih_insert_all idx [] = (idx, Inr ())"
| "mih_insert_all idx ((payload, key) # rest) =
     (case mih_payload_to_engram payload of
        Inl err \<Rightarrow> (idx, Inl err)
      | Inr e \<Rightarrow>
          let idx' = insert_into_tables idx key e
          in mih_insert_all (idx'\<lparr>codes := AList.update key e (codes idx')\<rparr>) rest)"

definition mih_build :: "mih_index \<Rightarrow> vector_payload list \<Rightarrow> vector_record_key list
      \<Rightarrow> mih_index \<times> (vectorkit_error + unit)" where
  "mih_build idx vectors keys =
     (if length vectors \<noteq> length keys
      then (idx, Inl (InvalidPayload (Fmt ''MIHIndex.build: vectors.len()={} != keys.len()={}''
             [FNat (length vectors), FNat (length keys)])))
      else mih_insert_all (idx\<lparr>codes := [], tables := map (\<lambda>_. Map.empty) (tables idx)\<rparr>)
             (zip vectors keys))"

definition mih_search ::
    "(engram \<Rightarrow> engram \<Rightarrow> u32) \<Rightarrow> mih_index \<Rightarrow> vector_payload \<Rightarrow> dense_metric \<Rightarrow> nat \<Rightarrow> metadata_filter option
      \<Rightarrow> (vectorkit_error + dense_hit list) option" where
  "mih_search distance idx probe metric k f =
     (if payload_kind probe \<noteq> Binary
      then Some (Inl (InvalidPayload (Fmt ''MIHIndex.search: probe.kind must be Binary, got {:?}''
             [FKind (payload_kind probe)])))
      else if metric \<noteq> DenseBinary Hamming
      then Some (Inl (InvalidPayload
             (Fmt ''MIHIndex.search: only Binary(Hamming) is supported; got {:?}'' [FMetric metric])))
      else if k = 0 then Some (Inr [])
      else if codes idx = [] then Some (Inr [])
      else (case mih_payload_to_engram probe of
              Inl err \<Rightarrow> Some (Inl err)
            | Inr e \<Rightarrow> map_option Inr (knn distance idx e k f)))"

definition mih_add :: "mih_index \<Rightarrow> vector_record_key \<Rightarrow> vector_payload
      \<Rightarrow> mih_index \<times> (vectorkit_error + unit)" where
  "mih_add idx key vector =
     (if payload_kind vector \<noteq> Binary \<or> length (payload_bytes vector) \<noteq> 32
      then (idx, Inl (InvalidPayload (Fmt ''MIHIndex.add: vector must be Binary with 32 bytes'' [])))
      else (case mih_payload_to_engram vector of
              Inl err \<Rightarrow> (idx, Inl err)
            | Inr e \<Rightarrow>
                let idx1 = (case map_of (codes idx) key of
                              Some existing \<Rightarrow> remove_from_tables idx key existing
                            | None \<Rightarrow> idx);
                    idx2 = insert_into_tables idx1 key e
                in (idx2\<lparr>codes := AList.update key e (codes idx2)\<rparr>, Inr ())))"

definition mih_remove :: "mih_index \<Rightarrow> vector_record_key \<Rightarrow> mih_index \<times> (vectorkit_error + unit)" where
  "mih_remove idx key =
     (case map_of (codes idx) key of
        Some e \<Rightarrow>
          let idx' = idx\<lparr>codes := AList.delete key (codes idx)\<rparr>
          in (remove_from_tables idx' key e, Inr ())
      | None \<Rightarrow> (idx, Inr ()))"

definition mih_kind :: "mih_index \<Rightarrow> index_kind" where
  "mih_kind idx = Mih"

end
