(* ===== verification/MIH_Tables.thy ===== *)
theory MIH_Tables
  imports MIH
begin

text \<open>
  The tables of the multi-index hash: the bands partition the 256 bits of a code, so the band
  distances add up to the Hamming distance and one band is always close; and the posting lists
  index exactly the stored codes after every operation.
\<close>

section \<open>Bands\<close>

definition bit_count :: "u64 \<Rightarrow> nat \<Rightarrow> nat \<Rightarrow> nat" where
  "bit_count w lo hi = length (filter (bit w) [lo..<hi])"

definition block :: "engram \<Rightarrow> nat \<Rightarrow> u64" where
  "block e q = (if q = 0 then block0 e else if q = 1 then block1 e
               else if q = 2 then block2 e else if q = 3 then block3 e else 0)"

lemma bit_count_add: "lo \<le> mid \<Longrightarrow> mid \<le> hi \<Longrightarrow> bit_count w lo mid + bit_count w mid hi = bit_count w lo hi"
  unfolding bit_count_def
  by (metis filter_append le_add_diff_inverse length_append upt_add_eq_append)

lemma hamming_blocks: "hamming a b = (\<Sum>q<4. bit_count (block a q XOR block b q) 0 64)"
proof -
  have "{..<4::nat} = {0, 1, 2, 3}" by auto
  then show ?thesis by (simp add: hamming_def popcount_def bit_count_def block_def)
qed

lemma bit_extract_band:
  assumes "sb \<le> 64"
  shows "bit (extract_band e t sb) i \<longleftrightarrow>
    i < sb \<and> bit (block e (t * sb div 64)) (t * sb mod 64 + i)"
proof -
  have msk: "(if sb = 64 then - 1 else push_bit sb 1 - 1) = (mask sb :: u64)"
    using assms by (auto simp: mask_eq_exp_minus_1 push_bit_eq_mult)
  have "extract_band e t sb = drop_bit (t * sb mod 64) (block e (t * sb div 64)) AND mask sb"
    unfolding extract_band_def Let_def block_def msk ..
  then show ?thesis using assms by (auto simp: bit_and_iff bit_drop_bit_eq bit_mask_iff)
qed

lemma extract_band_bound: "sb \<le> 64 \<Longrightarrow> unat (extract_band e t sb) < 2 ^ sb"
proof -
  assume sb: "sb \<le> 64"
  have "take_bit sb (extract_band e t sb) = extract_band e t sb"
    by (rule bit_word_eqI) (auto simp: bit_take_bit_iff bit_extract_band [OF sb])
  then have "take_bit sb (unat (extract_band e t sb)) = unat (extract_band e t sb)"
    by (metis unsigned_take_bit_eq)
  then show ?thesis by (simp add: take_bit_nat_eq_self_iff)
qed

lemma xor_bound: "unat (a :: u64) < 2 ^ n \<Longrightarrow> unat b < 2 ^ n \<Longrightarrow> unat (a XOR b) < 2 ^ n"
  by (metis take_bit_nat_eq_self_iff take_bit_xor unsigned_xor_eq)

lemma xor_swap: "x = q XOR m \<longleftrightarrow> m = q XOR (x :: u64)"
proof -
  have "q XOR (q XOR y) = y" for y :: u64 by (simp add: xor.assoc [symmetric])
  then show ?thesis by auto
qed

lemma band_distance:
  assumes "sb \<le> 64" "t * sb mod 64 + sb \<le> 64"
  shows "popcount (extract_band a t sb XOR extract_band b t sb)
    = bit_count (block a (t * sb div 64) XOR block b (t * sb div 64)) (t * sb mod 64) (t * sb mod 64 + sb)"
proof -
  let ?w = "block a (t * sb div 64) XOR block b (t * sb div 64)" and ?o = "t * sb mod 64"
  let ?x = "extract_band a t sb XOR extract_band b t sb"
  have bits: "bit ?x i \<longleftrightarrow> i < sb \<and> bit ?w (?o + i)" for i
    by (auto simp: bit_xor_iff bit_extract_band [OF assms(1)])
  have "[0..<64] = [0..<sb] @ [sb..<64]" using upt_add_eq_append [of 0 sb "64 - sb"] assms(1) by simp
  then have "popcount ?x = length (filter (bit ?x) ([0..<sb] @ [sb..<64]))" by (simp add: popcount_def)
  also have "\<dots> = length (filter (bit ?x) [0..<sb])"
    by (simp add: filter_empty_conv bits)
  also have "filter (bit ?x) [0..<sb] = filter (\<lambda>i. bit ?w (i + ?o)) [0..<sb]"
    by (rule filter_cong) (simp_all add: bits add.commute)
  also have "length \<dots> = length (filter (bit ?w) (map (\<lambda>i. i + ?o) [0..<sb]))"
    by (simp add: filter_map o_def)
  also have "map (\<lambda>i. i + ?o) [0..<sb] = [?o..<?o + sb]"
    by (simp add: map_add_upt add.commute)
  finally show ?thesis by (simp add: bit_count_def)
qed

lemma block_bands:
  "(\<Sum>s<j. bit_count w (s * sb) (s * sb + sb)) = bit_count w 0 (j * sb)"
proof (induction j)
  case (Suc j)
  then show ?case using bit_count_add [of 0 "j * sb" "j * sb + sb" w] by (simp add: add.commute)
qed (simp add: bit_count_def)

definition band_config :: "nat \<Rightarrow> nat \<Rightarrow> bool" where
  "band_config m sb \<longleftrightarrow> (\<exists>j. m = 4 * j \<and> j * sb = 64 \<and> 0 < j)"

lemma band_config_of: "band_config (band_count_value b) (sub_bits_of b)"
  unfolding band_config_def
  by (cases b) (auto simp: sub_bits_of_def intro!: exI [of _ "band_count_value b div 4"])

lemma band_config_bounds: "band_config m sb \<Longrightarrow> 1 \<le> sb \<and> sb \<le> 64 \<and> 0 < m"
proof -
  assume "band_config m sb"
  then obtain j where j: "m = 4 * j" "j * sb = 64" "0 < j" by (auto simp: band_config_def)
  then have "sb \<noteq> 0" by (cases "sb = 0") auto
  moreover have "1 * sb \<le> j * sb" using j(3) by (intro mult_le_mono1) simp
  ultimately show ?thesis using j by simp
qed

text \<open>The band distances add up to the Hamming distance.\<close>

lemma band_distances_sum:
  assumes "band_config m sb"
  shows "(\<Sum>t<m. popcount (extract_band a t sb XOR extract_band b t sb)) = hamming a b"
proof -
  obtain j where j: "m = 4 * j" "j * sb = 64" "0 < j" using assms by (auto simp: band_config_def)
  have sb: "0 < sb" "sb \<le> 64" using band_config_bounds [OF assms] by auto
  let ?F = "\<lambda>t. popcount (extract_band a t sb XOR extract_band b t sb)"
  let ?w = "\<lambda>q. block a q XOR block b q"
  have F: "?F (q * j + s) = bit_count (?w q) (s * sb) (s * sb + sb)" if "s < j" for q s
  proof -
    have "(q * j + s) * sb = q * 64 + s * sb" using j(2) by (simp add: algebra_simps)
    moreover have "Suc s * sb \<le> j * sb" using that by (simp del: mult_Suc)
    then have "s * sb + sb \<le> 64" using j(2) by simp
    ultimately have "(q * j + s) * sb div 64 = q" "(q * j + s) * sb mod 64 = s * sb"
      using sb by auto
    then show ?thesis using band_distance [of sb "q * j + s" a b] sb \<open>s * sb + sb \<le> 64\<close> by simp
  qed
  have "(\<Sum>t<m. ?F t) = (\<Sum>q<4. \<Sum>t = q * j..<q * j + j. ?F t)"
    unfolding j(1) by (rule sum.nat_group [symmetric])
  also have "\<dots> = (\<Sum>q<4. \<Sum>s<j. ?F (q * j + s))"
    using sum.shift_bounds_nat_ivl [of ?F 0 "_ * j" j]
    by (simp add: atLeast0LessThan add.commute)
  also have "\<dots> = (\<Sum>q<4. bit_count (?w q) 0 64)"
    using block_bands [of "?w _" sb j] j(2) F by simp
  finally show ?thesis by (simp add: hamming_blocks)
qed

text \<open>Pigeonhole: a code within the radius is close in one band.\<close>

lemma close_band:
  assumes "band_config m sb" "hamming a b \<le> r"
  shows "\<exists>t < m. popcount (extract_band a t sb XOR extract_band b t sb) \<le> r div m"
proof (rule ccontr)
  assume "\<not> ?thesis"
  then have "(\<Sum>t<m. Suc (r div m)) \<le> (\<Sum>t<m. popcount (extract_band a t sb XOR extract_band b t sb))"
    by (intro sum_mono) (auto simp: not_le Suc_le_eq)
  then have "m * Suc (r div m) \<le> r"
    using assms band_distances_sum [OF assms(1), of a b] by simp
  moreover have "r < m * Suc (r div m)"
    using band_config_bounds [OF assms(1)] by (metis dividend_less_times_div mult_Suc_right)
  ultimately show False by simp
qed

section \<open>Posting lists\<close>

definition postings :: "substring_table \<Rightarrow> u64 \<Rightarrow> vector_record_key list" where
  "postings tbl sub = (case tbl sub of None \<Rightarrow> [] | Some l \<Rightarrow> l)"

lemma insert_at_partition:
  "take (length (takeWhile (\<lambda>x. x < k) l)) l @ k # drop (length (takeWhile (\<lambda>x. x < k) l)) l = insort k l"
  by (induction l) (auto simp: not_le)

lemma postings_table_insert:
  assumes "sorted (postings tbl sub)"
  shows "postings (table_insert tbl sub key) =
    (postings tbl)(sub := insort key (postings tbl sub))"
proof -
  have "partitioned (\<lambda>x. x < key) (postings tbl sub)"
    using partitioned_less [of "\<lambda>x. x" "postings tbl sub"] assms by simp
  note pos = partition_point_takeWhile [OF this] insert_at_partition [of key "postings tbl sub"]
  have "table_insert tbl sub key = tbl(sub \<mapsto> insort key (postings tbl sub))"
    unfolding table_insert_def Let_def postings_def [symmetric] pos ..
  then show ?thesis by (auto simp: postings_def fun_eq_iff)
qed

lemma remove_at_partition:
  fixes l :: "'a::linorder list"
  assumes "sorted l" "k \<in> set l"
  shows "take (length (takeWhile (\<lambda>x. x < k) l)) l @ drop (Suc (length (takeWhile (\<lambda>x. x < k) l))) l = remove1 k l"
  using assms by (induction l) auto

lemma postings_table_remove:
  assumes "sorted (postings tbl sub)"
  shows "postings (table_remove tbl sub key) =
    (postings tbl)(sub := remove1 key (postings tbl sub))"
proof (cases "tbl sub")
  case None
  then show ?thesis by (auto simp: table_remove_def postings_def fun_eq_iff)
next
  case (Some l)
  then have l: "postings tbl sub = l" "sorted (map (\<lambda>x. x) l)" using assms by (simp_all add: postings_def)
  have "(case binary_search_by (\<lambda>x. x) l key of Some pos \<Rightarrow> take pos l @ drop (Suc pos) l | None \<Rightarrow> l)
      = remove1 key l"
  proof (cases "key \<in> set l")
    case True
    then show ?thesis using binary_search_by_found [OF l(2), of key] remove_at_partition [of l key] l by simp
  next
    case False
    then show ?thesis using binary_search_by_None [OF l(2), of key] by (simp add: remove1_idem)
  qed
  then have "table_remove tbl sub key = (if remove1 key l = [] then tbl(sub := None) else tbl(sub \<mapsto> remove1 key l))"
    by (simp add: table_remove_def Some Let_def)
  then show ?thesis by (auto simp: postings_def fun_eq_iff Some)
qed

text \<open>A table indexes the codes \<open>M\<close> by band \<open>t\<close>.\<close>

definition table_ok :: "(vector_record_key \<rightharpoonup> engram) \<Rightarrow> nat \<Rightarrow> nat \<Rightarrow> substring_table \<Rightarrow> bool" where
  "table_ok M t sb tbl \<longleftrightarrow>
     (\<forall>sub. sorted (postings tbl sub) \<and> distinct (postings tbl sub)
        \<and> set (postings tbl sub) = {key. \<exists>e. M key = Some e \<and> extract_band e t sb = sub})"

lemma table_ok_empty: "table_ok Map.empty t sb Map.empty"
  by (simp add: table_ok_def postings_def)

lemma table_ok_insert:
  assumes "table_ok M t sb tbl" "M key = None"
  shows "table_ok (M(key \<mapsto> e)) t sb (table_insert tbl (extract_band e t sb) key)"
proof -
  let ?sub = "extract_band e t sb"
  have s: "sorted (postings tbl ?sub)" "key \<notin> set (postings tbl ?sub)"
    using assms by (auto simp: table_ok_def)
  show ?thesis
    using assms s unfolding table_ok_def postings_table_insert [OF s(1)]
    by (auto simp: sorted_insort distinct_insort set_insort_key)
qed

lemma table_ok_remove:
  assumes "table_ok M t sb tbl" "M key = Some e"
  shows "table_ok (M(key := None)) t sb (table_remove tbl (extract_band e t sb) key)"
proof -
  have s: "sorted (postings tbl (extract_band e t sb))" using assms by (auto simp: table_ok_def)
  show ?thesis
    using assms unfolding table_ok_def postings_table_remove [OF s]
    by (auto simp: sorted_remove1)
qed

lemma fold_tables:
  assumes "n \<le> length ts"
  shows "length (fold (\<lambda>t ts. ts[t := g t (ts ! t)]) [0..<n] ts) = length ts"
    and "i < length ts \<Longrightarrow> fold (\<lambda>t ts. ts[t := g t (ts ! t)]) [0..<n] ts ! i = (if i < n then g i (ts ! i) else ts ! i)"
  using assms by (induction n) (auto simp: nth_list_update)

section \<open>The invariant of the index\<close>

definition mih_ok :: "mih_index \<Rightarrow> bool" where
  "mih_ok idx \<longleftrightarrow>
     band_config (mih_m idx) (sub_bits idx) \<and> length (tables idx) = mih_m idx
     \<and> distinct (map fst (codes idx))
     \<and> (\<forall>t < mih_m idx. table_ok (map_of (codes idx)) t (sub_bits idx) (tables idx ! t))"

lemma insert_into_tables_ok:
  assumes "band_config (mih_m idx) (sub_bits idx)" "length (tables idx) = mih_m idx"
    and "\<forall>t < mih_m idx. table_ok M t (sub_bits idx) (tables idx ! t)" "M key = None"
    and "map_of cs = M(key \<mapsto> e)" "distinct (map fst cs)"
  shows "mih_ok ((insert_into_tables idx key e)\<lparr>codes := cs\<rparr>)"
  using assms
  by (simp add: mih_ok_def insert_into_tables_def
      fold_tables [where g = "\<lambda>t tbl. table_insert tbl (extract_band e t (sub_bits idx)) key"]
      table_ok_insert)

lemma remove_from_tables_ok:
  assumes "mih_ok idx" "map_of (codes idx) key = Some e"
  shows "\<forall>t < mih_m idx. table_ok ((map_of (codes idx))(key := None)) t (sub_bits idx)
      (tables (remove_from_tables idx key e) ! t)"
    and "length (tables (remove_from_tables idx key e)) = mih_m idx"
  using assms
  by (simp_all add: mih_ok_def remove_from_tables_def
      fold_tables [where g = "\<lambda>t tbl. table_remove tbl (extract_band e t (sub_bits idx)) key"]
      table_ok_remove)

lemma tables_frame [simp]:
  "mih_m (insert_into_tables idx key e) = mih_m idx"
  "sub_bits (insert_into_tables idx key e) = sub_bits idx"
  "codes (insert_into_tables idx key e) = codes idx"
  "mih_m (remove_from_tables idx key e) = mih_m idx"
  "sub_bits (remove_from_tables idx key e) = sub_bits idx"
  "codes (remove_from_tables idx key e) = codes idx"
  by (simp_all add: insert_into_tables_def remove_from_tables_def)

lemma mih_payload_to_engram_ok [simp]:
  "binary32 p \<Longrightarrow> mih_payload_to_engram p = Inr (le_engram (payload_bytes p))"
  by (simp add: mih_payload_to_engram_def binary32_def)

lemma mih_new_ok: "mih_ok (mih_new_with_budget b budget)"
  by (simp add: mih_ok_def mih_new_with_budget_def band_config_of table_ok_empty)

lemma mih_add_ok:
  assumes "mih_ok idx" "binary32 v"
  shows "mih_ok (fst (mih_add idx key v)) \<and> snd (mih_add idx key v) = Inr ()
    \<and> map_of (codes (fst (mih_add idx key v))) = (map_of (codes idx))(key \<mapsto> le_engram (payload_bytes v))"
proof -
  let ?e = "le_engram (payload_bytes v)"
  define idx1 where "idx1 = (case map_of (codes idx) key of
      Some existing \<Rightarrow> remove_from_tables idx key existing | None \<Rightarrow> idx)"
  have add: "mih_add idx key v =
      ((insert_into_tables idx1 key ?e)\<lparr>codes := AList.update key ?e (codes idx1)\<rparr>, Inr ())"
    using assms(2) mih_payload_to_engram_ok [OF assms(2)]
    by (simp add: mih_add_def binary32_def idx1_def Let_def)
  have frame: "mih_m idx1 = mih_m idx" "sub_bits idx1 = sub_bits idx" "codes idx1 = codes idx"
    by (simp_all add: idx1_def split: option.split)
  have tabs: "length (tables idx1) = mih_m idx"
      "\<forall>t < mih_m idx. table_ok ((map_of (codes idx))(key := None)) t (sub_bits idx) (tables idx1 ! t)"
    using assms(1) remove_from_tables_ok [OF assms(1)]
    by (auto simp: idx1_def mih_ok_def fun_upd_idem split: option.split)
  have "mih_ok ((insert_into_tables idx1 key ?e)\<lparr>codes := AList.update key ?e (codes idx1)\<rparr>)"
    by (rule insert_into_tables_ok [where M = "(map_of (codes idx))(key := None)"])
      (use assms(1) frame tabs in \<open>simp_all add: mih_ok_def update_conv' distinct_update\<close>)
  then show ?thesis by (simp add: add frame update_conv')
qed

lemma mih_remove_ok:
  assumes "mih_ok idx"
  shows "mih_ok (fst (mih_remove idx key)) \<and> snd (mih_remove idx key) = Inr ()
    \<and> map_of (codes (fst (mih_remove idx key))) = (map_of (codes idx))(key := None)"
proof (cases "map_of (codes idx) key")
  case None
  then show ?thesis using assms by (simp add: mih_remove_def fun_upd_idem)
next
  case (Some e)
  have "tables (remove_from_tables (idx\<lparr>codes := cs\<rparr>) key e) = tables (remove_from_tables idx key e)" for cs
    by (simp add: remove_from_tables_def)
  then show ?thesis
    using assms Some remove_from_tables_ok [OF assms Some]
    by (simp add: mih_remove_def Let_def mih_ok_def delete_conv' distinct_delete)
qed

lemma mih_insert_all_ok:
  assumes "mih_ok idx" "\<forall>p \<in> set (map fst pks). binary32 p"
    and "distinct (map snd pks)" "\<forall>key \<in> set (map snd pks). map_of (codes idx) key = None"
  shows "mih_ok (fst (mih_insert_all idx pks)) \<and> snd (mih_insert_all idx pks) = Inr ()
    \<and> map_of (codes (fst (mih_insert_all idx pks)))
      = map_of (codes idx) ++ map_of (map (\<lambda>(p, key). (key, le_engram (payload_bytes p))) pks)"
  using assms
proof (induction pks arbitrary: idx)
  case (Cons pk pks)
  obtain p key where pk: "pk = (p, key)" by (cases pk)
  let ?e = "le_engram (payload_bytes p)"
  let ?idx = "(insert_into_tables idx key ?e)\<lparr>codes := AList.update key ?e (codes idx)\<rparr>"
  have ok: "mih_ok ?idx"
    by (rule insert_into_tables_ok [where M = "map_of (codes idx)"])
      (use Cons.prems pk in \<open>simp_all add: mih_ok_def update_conv' distinct_update\<close>)
  have step: "mih_insert_all idx (pk # pks) = mih_insert_all ?idx pks"
    using Cons.prems(2) pk by (simp add: Let_def)
  have "key \<notin> snd ` set pks" using Cons.prems(3) pk by simp
  then have none: "map_of (map (\<lambda>(p, key). (key, le_engram (payload_bytes p))) pks) key = None"
    by (force simp: map_of_eq_None_iff)
  have fresh: "\<forall>key' \<in> set (map snd pks). map_of (codes ?idx) key' = None"
    using Cons.prems pk by (auto simp: update_conv')
  have "\<forall>p \<in> set (map fst pks). binary32 p" "distinct (map snd pks)" using Cons.prems by simp_all
  note ih = Cons.IH [OF ok this fresh]
  have "map_of (codes ?idx) ++ map_of (map (\<lambda>(p, key). (key, le_engram (payload_bytes p))) pks)
      = map_of (codes idx) ++ map_of (map (\<lambda>(p, key). (key, le_engram (payload_bytes p))) (pk # pks))"
    using none by (simp add: pk update_conv' map_add_upd_left domIff)
  with ih show ?case unfolding step by (simp only: simp_thms)
qed simp

lemma mih_build_ok:
  assumes "mih_ok idx" "length vectors = length keys" "\<forall>p \<in> set vectors. binary32 p" "distinct keys"
  shows "mih_ok (fst (mih_build idx vectors keys)) \<and> snd (mih_build idx vectors keys) = Inr ()
    \<and> map_of (codes (fst (mih_build idx vectors keys)))
      = map_of (zip keys (map (\<lambda>p. le_engram (payload_bytes p)) vectors))"
proof -
  let ?idx = "idx\<lparr>codes := [], tables := map (\<lambda>_. Map.empty) (tables idx)\<rparr>"
  have ok: "mih_ok ?idx" using assms(1) by (simp add: mih_ok_def table_ok_empty)
  have "map (\<lambda>(p, key). (key, le_engram (payload_bytes p))) (zip vectors keys)
      = zip keys (map (\<lambda>p. le_engram (payload_bytes p)) vectors)"
    using assms(2) by (induction vectors keys rule: list_induct2) simp_all
  then show ?thesis
    using mih_insert_all_ok [OF ok, of "zip vectors keys"] assms by (simp add: mih_build_def)
qed

end
