(* ===== verification/MIH_Search.thy ===== *)
theory MIH_Search
  imports MIH_Tables
begin

text \<open>
  Exactness of the multi-index hashing search. After the round of radius \<open>r\<close> every stored code
  within distance \<open>r\<close> has been seen, and the heap retains the best of the seen candidates; so
  each of the three ways a search ends, and the brute-force fallback, return the \<open>k\<close> nearest
  accepted codes.
\<close>

section \<open>Candidates of the seen keys\<close>

lemma candidates_insert:
  assumes "M key = Some e" "key \<notin> seen"
  shows "candidates distance (M |` insert key seen) f probe =
    (if accepted f key then insert (distance probe e, key) (candidates distance (M |` seen) f probe)
     else candidates distance (M |` seen) f probe)"
  using assms by (auto simp: candidates_def restrict_map_def split: if_splits)

lemma candidates_fresh: "key \<notin> seen \<Longrightarrow> (d, key) \<notin> candidates distance (M |` seen) f probe"
  by (auto simp: candidates_def restrict_map_def)

lemma finite_seen_candidates: "finite (candidates distance (map_of cs |` seen) f probe)"
  by (rule finite_candidates) (metis dom_restrict finite_Int finite_dom_map_of)

lemma scan_posting_retains:
  assumes "0 < k" "set posting \<subseteq> dom (map_of (codes idx))"
    and "retains k (candidates distance (map_of (codes idx) |` seen) f probe) heap"
  shows "\<exists>heap'. scan_posting distance idx probe f posting (seen, heap) = Some (seen \<union> set posting, heap')
    \<and> retains k (candidates distance (map_of (codes idx) |` (seen \<union> set posting)) f probe) heap'"
  using assms(2,3)
proof (induction posting arbitrary: seen heap)
  case (Cons key posting)
  let ?C = "\<lambda>seen. candidates distance (map_of (codes idx) |` seen) f probe"
  obtain e where e: "map_of (codes idx) key = Some e" using Cons.prems(1) by auto
  have sub: "set posting \<subseteq> dom (map_of (codes idx))" using Cons.prems(1) by simp
  show ?case
  proof (cases "key \<in> seen")
    case True
    then show ?thesis using Cons.IH [OF sub Cons.prems(2)] by (simp add: insert_absorb)
  next
    case False
    note step = candidates_insert [where M = "map_of (codes idx)", OF e False, of distance f probe]
    show ?thesis
    proof (cases "accepted f key")
      case True
      obtain h where h: "offer heap (distance probe e) key = Some h"
          "retains k (insert (distance probe e, key) (?C seen)) h"
        using offer_retains [OF finite_seen_candidates Cons.prems(2) assms(1) candidates_fresh [OF False]] by blast
      then show ?thesis using Cons.IH [OF sub, of "insert key seen" h] False True e step by simp
    next
      case no: False
      then show ?thesis using Cons.IH [OF sub, of "insert key seen" heap] False e step Cons.prems(2) by simp
    qed
  qed
qed simp

lemma enumerate_masks_retains:
  assumes "0 < k" "\<forall>sub. set (postings table sub) \<subseteq> dom (map_of (codes idx))"
    and "retains k (candidates distance (map_of (codes idx) |` seen) f probe) heap"
  shows "\<exists>heap' cnt'. enumerate_masks distance idx table q probe f masks (seen, heap, cnt)
      = Some (seen \<union> (\<Union>m \<in> set masks. set (postings table (q XOR m))), heap', cnt')
    \<and> retains k (candidates distance
        (map_of (codes idx) |` (seen \<union> (\<Union>m \<in> set masks. set (postings table (q XOR m))))) f probe) heap'"
  using assms(3)
proof (induction masks arbitrary: seen heap cnt)
  case (Cons m masks)
  let ?cnt = "(cnt + 1) mod 2 ^ 64"
  show ?case
  proof (cases "table (q XOR m)")
    case None
    then show ?thesis using Cons.IH [OF Cons.prems, of ?cnt] by (simp add: postings_def)
  next
    case (Some posting)
    then have p: "postings table (q XOR m) = posting" by (simp add: postings_def)
    obtain h where h: "scan_posting distance idx probe f posting (seen, heap) = Some (seen \<union> set posting, h)"
        "retains k (candidates distance (map_of (codes idx) |` (seen \<union> set posting)) f probe) h"
      using scan_posting_retains [OF assms(1) _ Cons.prems, of posting] assms(2) p by blast
    show ?thesis using Cons.IH [OF h(2), of ?cnt] h(1) Some p by (simp add: Un_assoc)
  qed
qed simp

section \<open>One radius\<close>

text \<open>The keys a band probe of radius \<open>rho\<close> reaches.\<close>

definition band_reach :: "mih_index \<Rightarrow> engram \<Rightarrow> nat \<Rightarrow> nat \<Rightarrow> vector_record_key set" where
  "band_reach idx probe t rho =
     {key. \<exists>e. map_of (codes idx) key = Some e
       \<and> popcount (extract_band probe t (sub_bits idx) XOR extract_band e t (sub_bits idx)) \<le> rho}"

lemma band_reach_postings:
  assumes "mih_ok idx" "t < mih_m idx" "colex_flip_masks (sub_bits idx) rho = Some masks"
  shows "(\<Union>m \<in> set masks. set (postings (tables idx ! t) (extract_band probe t (sub_bits idx) XOR m)))
    = band_reach idx probe t rho"
proof -
  let ?sb = "sub_bits idx" and ?q = "extract_band probe t (sub_bits idx)"
  have sb: "1 \<le> ?sb" "?sb \<le> 64" using assms(1) band_config_bounds by (auto simp: mih_ok_def)
  have masks: "set masks = {w. unat w < 2 ^ ?sb \<and> popcount w \<le> rho}"
    by (rule colex_flip_masks_set [OF sb assms(3)])
  have post: "set (postings (tables idx ! t) sub)
      = {key. \<exists>e. map_of (codes idx) key = Some e \<and> extract_band e t ?sb = sub}" for sub
    using assms(1,2) by (simp add: mih_ok_def table_ok_def)
  have inv: "x = ?q XOR m \<longleftrightarrow> m = ?q XOR x" for x m by (rule xor_swap)
  show ?thesis
  proof (intro set_eqI iffI)
    fix key assume "key \<in> (\<Union>m \<in> set masks. set (postings (tables idx ! t) (?q XOR m)))"
    then obtain m e where "m \<in> set masks" "map_of (codes idx) key = Some e" "extract_band e t ?sb = ?q XOR m"
      by (auto simp: post)
    then show "key \<in> band_reach idx probe t rho"
      using inv [of "extract_band e t ?sb" m] masks by (auto simp: band_reach_def)
  next
    fix key assume "key \<in> band_reach idx probe t rho"
    then obtain e where e: "map_of (codes idx) key = Some e" "popcount (?q XOR extract_band e t ?sb) \<le> rho"
      by (auto simp: band_reach_def)
    let ?m = "?q XOR extract_band e t ?sb"
    have "unat ?m < 2 ^ ?sb" using sb by (intro xor_bound extract_band_bound)
    then have "?m \<in> set masks" using e masks by simp
    moreover have "key \<in> set (postings (tables idx ! t) (?q XOR ?m))"
      using inv [of "extract_band e t ?sb" ?m] e(1) by (auto simp: post)
    ultimately show "key \<in> (\<Union>m \<in> set masks. set (postings (tables idx ! t) (?q XOR m)))" by blast
  qed
qed

lemma postings_dom: "mih_ok idx \<Longrightarrow> t < mih_m idx \<Longrightarrow> set (postings (tables idx ! t) sub) \<subseteq> dom (map_of (codes idx))"
  by (auto simp: mih_ok_def table_ok_def)

lemma knn_bands_retains:
  assumes "0 < k" "mih_ok idx" "set ts \<subseteq> {..<mih_m idx}"
    and "retains k (candidates distance (map_of (codes idx) |` seen) f probe) heap"
  shows "\<exists>heap' cnt'. knn_bands distance idx probe f rho extra ts (seen, heap, cnt)
      = Some (seen \<union> (\<Union>t \<in> set ts. band_reach idx probe t (rho + (if t < extra then 1 else 0))), heap', cnt')
    \<and> retains k (candidates distance (map_of (codes idx)
        |` (seen \<union> (\<Union>t \<in> set ts. band_reach idx probe t (rho + (if t < extra then 1 else 0))))) f probe) heap'"
  using assms(3,4)
proof (induction ts arbitrary: seen heap cnt)
  case (Cons t ts)
  let ?rho = "rho + (if t < extra then 1 else 0)" and ?q = "extract_band probe t (sub_bits idx)"
  have sb: "1 \<le> sub_bits idx" "sub_bits idx \<le> 64" using assms(2) band_config_bounds by (auto simp: mih_ok_def)
  have t: "t < mih_m idx" using Cons.prems(1) by simp
  obtain masks where masks: "colex_flip_masks (sub_bits idx) ?rho = Some masks"
    using colex_flip_masks_lists [OF sb] by blast
  note reach = band_reach_postings [OF assms(2) t masks, of probe]
  obtain h c where h: "enumerate_masks distance idx (tables idx ! t) ?q probe f masks (seen, heap, cnt)
        = Some (seen \<union> band_reach idx probe t ?rho, h, c)"
      "retains k (candidates distance (map_of (codes idx) |` (seen \<union> band_reach idx probe t ?rho)) f probe) h"
    using enumerate_masks_retains [OF assms(1) _ Cons.prems(2), of "tables idx ! t" ?q masks cnt]
      postings_dom [OF assms(2) t] unfolding reach by blast
  have "enumerate_band_candidates_counted distance idx (tables idx ! t) ?q ?rho probe f (seen, heap, cnt)
      = Some (seen \<union> band_reach idx probe t ?rho, h, c)"
    unfolding enumerate_band_candidates_counted_def masks using h(1) by simp
  then show ?case
    using Cons.IH [OF _ h(2), of c] Cons.prems(1)
    by (simp only: knn_bands.simps Let_def option.case) (simp add: Un_assoc)
qed simp

text \<open>After the round of radius \<open>r\<close> every stored code within \<open>r\<close> has been reached.\<close>

lemma radius_reached:
  assumes "mih_ok idx" "map_of (codes idx) key = Some e" "hamming probe e \<le> r"
  shows "key \<in> (\<Union>t \<in> set [0..<mih_m idx]. band_reach idx probe t (r div mih_m idx + (if t < r mod mih_m idx then 1 else 0)))"
proof -
  obtain t where "t < mih_m idx"
      "popcount (extract_band probe t (sub_bits idx) XOR extract_band e t (sub_bits idx)) \<le> r div mih_m idx"
    using close_band [OF _ assms(3), of "mih_m idx" "sub_bits idx"] assms(1) by (auto simp: mih_ok_def)
  with assms(2) have "key \<in> band_reach idx probe t (r div mih_m idx + (if t < r mod mih_m idx then 1 else 0))"
    by (auto simp: band_reach_def)
  moreover have "t \<in> set [0..<mih_m idx]" using \<open>t < mih_m idx\<close> by simp
  ultimately show ?thesis by (rule UN_I [rotated])
qed

lemma band_reach_dom: "band_reach idx probe t rho \<subseteq> dom (map_of (codes idx))"
  by (auto simp: band_reach_def)

section \<open>The ways a search ends\<close>

lemma candidates_restrict_subset: "candidates distance (M |` seen) f probe \<subseteq> candidates distance M f probe"
  by (auto simp: candidates_def restrict_map_def split: if_splits)

lemma brute_offers_retains:
  assumes "0 < k" "finite A" "retains k A heap" "distinct (map fst cs)" "\<forall>(key, e) \<in> set cs. key \<notin> snd ` A"
  shows "\<exists>heap'. brute_offers distance probe f cs heap = Some heap'
    \<and> retains k (A \<union> {(distance probe e, key) | key e. (key, e) \<in> set cs \<and> accepted f key}) heap'"
  using assms(2-)
proof (induction cs arbitrary: A heap)
  case (Cons ke cs)
  obtain key e where ke: "ke = (key, e)" by (cases ke)
  have rest: "distinct (map fst cs)" "\<forall>(key, e) \<in> set cs. key \<notin> snd ` A" "key \<notin> fst ` set cs"
    using Cons.prems ke by auto
  show ?case
  proof (cases "accepted f key")
    case True
    let ?A = "insert (distance probe e, key) A"
    have "(distance probe e, key) \<notin> A" using Cons.prems(4) ke by force
    then obtain h where h: "offer heap (distance probe e) key = Some h" "retains k ?A h"
      using offer_retains [OF Cons.prems(1,2) assms(1)] by blast
    have "\<forall>(key, e) \<in> set cs. key \<notin> snd ` ?A" using rest by force
    from Cons.IH [OF _ h(2) rest(1) this] Cons.prems(1) obtain h' where
      "brute_offers distance probe f cs h = Some h'"
      "retains k (?A \<union> {(distance probe e, key) | key e. (key, e) \<in> set cs \<and> accepted f key}) h'"
      by auto
    moreover have "?A \<union> {(distance probe e, key) | key e. (key, e) \<in> set cs \<and> accepted f key}
        = A \<union> {(distance probe e, key) | key e. (key, e) \<in> set (ke # cs) \<and> accepted f key}"
      using True ke by auto
    ultimately show ?thesis using h(1) True ke by simp
  next
    case False
    then have "{(distance probe e, key) | key e. (key, e) \<in> set (ke # cs) \<and> accepted f key}
        = {(distance probe e, key) | key e. (key, e) \<in> set cs \<and> accepted f key}" using ke by auto
    then show ?thesis using Cons.IH [OF Cons.prems(1,2) rest(1,2)] False ke by simp
  qed
qed simp

lemma brute_scan_correct:
  assumes "0 < k" "distinct (map fst (codes idx))"
  shows "brute_scan distance idx probe k f = Some (knn_spec distance (map_of (codes idx)) probe k f)"
proof -
  have "candidates distance (map_of (codes idx)) f probe
      = {(distance probe e, key) | key e. (key, e) \<in> set (codes idx) \<and> accepted f key}"
    using assms(2) by (simp add: candidates_def)
  then obtain h where "brute_offers distance probe f (codes idx) (heap_new k) = Some h"
      "retains k (candidates distance (map_of (codes idx)) f probe) h"
    using brute_offers_retains [OF assms(1) _ retains_new assms(2), of distance probe f] by auto
  then show ?thesis
    using retains_sorted [OF finite_candidates [OF finite_dom_map_of]]
    by (simp add: brute_scan_def knn_spec_def)
qed

text \<open>The heap test never panics for a positive \<open>k\<close>.\<close>

lemma heap_exact_total:
  assumes "0 < k"
  shows "\<exists>b. heap_exact heap k r = Some b"
proof (cases "heap_size heap = k")
  case True
  then obtain e es where "elements heap = e # es" using assms by (cases "elements heap") (auto simp: heap_size_def)
  then show ?thesis using True by (simp add: heap_exact_def worst_dist_def)
qed (auto simp: heap_exact_def)

lemma heap_exact_True:
  assumes "finite S" "retains k S heap" "0 < k" "heap_exact heap k r = Some True"
  shows "card (topk k S) = k" "\<And>t. t \<in> topk k S \<Longrightarrow> unat (fst t) \<le> r"
proof -
  have size: "heap_size heap = k" using assms(4) by (auto simp: heap_exact_def split: if_splits)
  then show "card (topk k S) = k" using retains_size [OF assms(1,2)] by simp
  obtain w ws where w: "elements heap = w # ws"
    using size assms(3) by (cases "elements heap") (auto simp: heap_size_def)
  have r: "unat (fst w) \<le> r" using assms(4) size w by (simp add: heap_exact_def worst_dist_def)
  fix t assume "t \<in> topk k S"
  then have "t \<le> w" by (rule elements_root_worst(2) [OF assms(1,2) w])
  then have "fst t \<le> fst w" by (auto simp: less_eq_prod_def)
  then show "unat (fst t) \<le> r" using r by (simp add: word_le_nat_alt)
qed

context engram_lib
begin

lemma stop_decided:
  assumes "retains k (candidates distance (map_of cs |` seen) f probe) heap" "0 < k"
    and "heap_exact heap k r = Some True"
    and reached: "\<And>key e. map_of cs key = Some e \<Longrightarrow> hamming probe e \<le> r \<Longrightarrow> key \<in> seen"
  shows "map to_hit (sorted_ascending heap) = knn_spec distance (map_of cs) probe k f"
proof -
  let ?S = "candidates distance (map_of cs) f probe"
  let ?A = "candidates distance (map_of cs |` seen) f probe"
  have fin: "finite ?S" "finite ?A" by (rule finite_candidates, rule finite_dom_map_of) (rule finite_seen_candidates)
  note exact = heap_exact_True [OF fin(2) assms(1-3)]
  have "topk k ?S = topk k ?A"
  proof (rule topk_decided [OF fin(1) candidates_restrict_subset exact(1)])
    fix t s assume t: "t \<in> topk k ?A" and s: "s \<in> ?S" "s \<notin> ?A"
    then obtain key e where ke: "s = (distance probe e, key)" "map_of cs key = Some e" "accepted f key"
      by (auto simp: candidates_def)
    then have "key \<notin> seen" using s(2) by (auto simp: candidates_def restrict_map_def)
    then have "r < hamming probe e" using reached [OF ke(2)] by (meson not_le)
    then have "unat (fst t) < unat (fst s)" using exact(2) [OF t] ke(1) by (simp add: distance_popcount)
    then have "fst t < fst s" by (simp add: word_less_nat_alt)
    then show "t < s" by (cases t; cases s) simp
  qed
  then have "take k (sorted_list_of_set ?S) = take k (sorted_list_of_set ?A)"
    using sorted_list_of_topk fin by metis
  then show ?thesis using retains_sorted [OF fin(2) assms(1)] by (simp add: knn_spec_def)
qed

lemma all_seen:
  assumes "retains k (candidates distance (map_of cs |` seen) f probe) heap" "seen = dom (map_of cs)"
  shows "map to_hit (sorted_ascending heap) = knn_spec distance (map_of cs) probe k f"
proof -
  have "map_of cs |` seen = map_of cs" using assms(2) by (simp add: restrict_map_def fun_eq_iff domIff)
  then show ?thesis
    using assms(1) retains_sorted [OF finite_candidates [OF finite_dom_map_of]] by (simp add: knn_spec_def)
qed

theorem knn_loop_exact:
  assumes "mih_ok idx" "0 < k" "seen \<subseteq> dom (map_of (codes idx))"
    and "retains k (candidates distance (map_of (codes idx) |` seen) f probe) heap"
  shows "knn_loop distance idx probe k f budget r (seen, heap, cnt)
    = Some (knn_spec distance (map_of (codes idx)) probe k f)"
  using assms(3,4)
proof (induction "256 - r" arbitrary: r seen heap cnt rule: less_induct)
  case less
  let ?m = "mih_m idx" and ?M = "map_of (codes idx)" and ?spec = "knn_spec distance (map_of (codes idx)) probe k f"
  let ?reach = "\<Union>t \<in> set [0..<mih_m idx]. band_reach idx probe t (r div mih_m idx + (if t < r mod mih_m idx then 1 else 0))"
  let ?seen = "seen \<union> ?reach"
  have "set [0..<?m] \<subseteq> {..<?m}" by auto
  then obtain heap' cnt' where bands: "knn_bands distance idx probe f (r div ?m) (r mod ?m) [0..<?m] (seen, heap, cnt)
        = Some (?seen, heap', cnt')"
      and heap': "retains k (candidates distance (?M |` ?seen) f probe) heap'"
    using knn_bands_retains [OF assms(2,1) _ less.prems(2), of "[0..<?m]" "r div ?m" "r mod ?m" cnt] by blast
  have sub: "?seen \<subseteq> dom ?M" using less.prems(1) band_reach_dom by blast
  have reached: "key \<in> ?seen" if "?M key = Some e" "hamming probe e \<le> r" for key e
    using radius_reached [OF assms(1) that] by blast
  obtain b where b: "heap_exact heap' k r = Some b" using heap_exact_total [OF assms(2)] by blast
  have "knn_loop distance idx probe k f budget (Suc r) (?seen, heap', cnt') = Some ?spec" if "\<not> 256 \<le> r"
    using less.hyps [OF _ sub heap', of "Suc r"] that by simp
  moreover have "map to_hit (sorted_ascending heap') = ?spec" if b
    using stop_decided [OF heap' assms(2) _ reached] b that by simp
  moreover have "map to_hit (sorted_ascending heap') = ?spec" if "length (codes idx) \<le> card ?seen"
  proof (rule all_seen [OF heap'])
    have "card (dom ?M) = length (codes idx)"
      using assms(1) distinct_card [of "map fst (codes idx)"]
      by (simp add: mih_ok_def dom_map_of_conv_image_fst)
    then show "?seen = dom ?M" using that sub by (simp add: card_seteq finite_dom_map_of)
  qed
  moreover have "map to_hit (sorted_ascending heap') = ?spec" if "256 \<le> r"
  proof (rule all_seen [OF heap'])
    have "key \<in> ?seen" if "?M key = Some e" for key e
      using reached [OF that] hamming_le_256 [of probe e] \<open>256 \<le> r\<close> by (meson order_trans)
    then show "?seen = dom ?M" using sub by blast
  qed
  ultimately have round: "(case knn_bands distance idx probe f (r div ?m) (r mod ?m) [0..<?m] (seen, heap, cnt) of
        None \<Rightarrow> None
      | Some (seen', heap', mask_count') \<Rightarrow>
          (case heap_exact heap' k r of
             None \<Rightarrow> None
           | Some stop \<Rightarrow>
               if stop then Some (map to_hit (sorted_ascending heap'))
               else if length (codes idx) \<le> card seen' then Some (map to_hit (sorted_ascending heap'))
               else if 256 \<le> r then Some (map to_hit (sorted_ascending heap'))
               else knn_loop distance idx probe k f budget (Suc r) (seen', heap', mask_count'))) = Some ?spec"
    unfolding bands by (simp only: option.case prod.case b split: if_split) blast
  have brute: "brute_scan distance idx probe k f = Some ?spec"
    using brute_scan_correct assms(1,2) by (simp add: mih_ok_def)
  obtain b0 where "heap_exact heap k r = Some b0" using heap_exact_total [OF assms(2)] by blast
  then show ?case
    by (subst knn_loop.simps)
      (cases b0; simp only: Let_def round brute option.case option.map bool.case if_cancel
        not_True_eq_False not_False_eq_True simp_thms split: if_split)
qed

lemma mih_search_exact:
  assumes "mih_ok idx" "binary32 probe"
  shows "mih_search distance idx probe (DenseBinary Hamming) k f
    = Some (Inr (knn_spec distance (map_of (codes idx)) (le_engram (payload_bytes probe)) k f))"
proof -
  have "knn distance idx (le_engram (payload_bytes probe)) k f
      = Some (knn_spec distance (map_of (codes idx)) (le_engram (payload_bytes probe)) k f)" if "0 < k"
    unfolding knn_def Let_def
    by (rule knn_loop_exact [OF assms(1) that]) (simp_all add: retains_new candidates_def)
  then show ?thesis
    using assms(2) by (auto simp: mih_search_def binary32_def knn_spec_def candidates_def)
qed

end

end
