(* ===== verification/Dense_Index.thy ===== *)
theory Dense_Index
  imports Brute_Force MIH_Search
begin

text \<open>
  The seam between callers and dense indexes (\<open>trait DenseIndex\<close> of \<open>engine/seam.rs\<close>).
  The locale \<open>dense_index\<close> states what an implementation promises over the map of codes it
  represents; the linear scan and multi-index hashing are shown to be implementations, for every
  distance function that meets the documentation of \<open>engram_lib\<close>. What a caller gets after a
  sequence of operations is proved once in the locale, and two implementations agree on it.
\<close>

section \<open>Operations and their meaning\<close>

datatype index_op =
    Build "vector_payload list" "vector_record_key list"
  | Add vector_record_key vector_payload
  | Remove vector_record_key

text \<open>
  The operations of a caller that meets the interface: equally long lists and distinct keys for a
  rebuild, 32-byte binary payloads. An addition with any other payload is rejected and also
  allowed.
\<close>

fun op_ok :: "index_op \<Rightarrow> bool" where
  "op_ok (Build vs ks) \<longleftrightarrow> length vs = length ks \<and> (\<forall>p \<in> set vs. binary32 p) \<and> distinct ks"
| "op_ok (Add key v) \<longleftrightarrow> True"
| "op_ok (Remove key) \<longleftrightarrow> True"

fun spec_op :: "(vector_record_key \<rightharpoonup> engram) \<Rightarrow> index_op \<Rightarrow> vector_record_key \<rightharpoonup> engram" where
  "spec_op M (Build vs ks) = map_of (zip ks (map (\<lambda>p. le_engram (payload_bytes p)) vs))"
| "spec_op M (Add key v) = (if binary32 v then M(key \<mapsto> le_engram (payload_bytes v)) else M)"
| "spec_op M (Remove key) = M(key := None)"

definition spec_run :: "index_op list \<Rightarrow> vector_record_key \<rightharpoonup> engram" where
  "spec_run ops = foldl spec_op Map.empty ops"

text \<open>The calls of a caller on the two implementations, ignoring the returned results.\<close>

fun bf_step :: "brute_force_index \<Rightarrow> index_op \<Rightarrow> brute_force_index" where
  "bf_step s (Build vs ks) = fst (bf_build s vs ks)"
| "bf_step s (Add key v) = fst (bf_add s key v)"
| "bf_step s (Remove key) = fst (bf_remove s key)"

fun mih_step :: "mih_index \<Rightarrow> index_op \<Rightarrow> mih_index" where
  "mih_step s (Build vs ks) = fst (mih_build s vs ks)"
| "mih_step s (Add key v) = fst (mih_add s key v)"
| "mih_step s (Remove key) = fst (mih_remove s key)"

section \<open>The contract\<close>

locale dense_index =
  fixes step :: "'s \<Rightarrow> index_op \<Rightarrow> 's"
    and search :: "'s \<Rightarrow> vector_payload \<Rightarrow> dense_metric \<Rightarrow> nat \<Rightarrow> metadata_filter option
        \<Rightarrow> (vectorkit_error + dense_hit list) option"
    and new :: 's
    and view :: "'s \<Rightarrow> vector_record_key \<rightharpoonup> engram"
    and invar :: "'s \<Rightarrow> bool"
    and dist :: "engram \<Rightarrow> engram \<Rightarrow> u32"
  assumes invar_new: "invar new"
    and view_new: "view new = Map.empty"
    and invar_step: "invar s \<Longrightarrow> op_ok op \<Longrightarrow> invar (step s op)"
    and view_step: "invar s \<Longrightarrow> op_ok op \<Longrightarrow> view (step s op) = spec_op (view s) op"
    and search_view: "invar s \<Longrightarrow> binary32 probe \<Longrightarrow>
      search s probe (DenseBinary Hamming) k f
        = Some (Inr (knn_spec dist (view s) (le_engram (payload_bytes probe)) k f))"
begin

lemma run_from:
  assumes "invar s" "list_all op_ok ops"
  shows "invar (foldl step s ops) \<and> view (foldl step s ops) = foldl spec_op (view s) ops"
  using assms
proof (induction ops arbitrary: s)
  case (Cons op ops)
  then show ?case using invar_step [of s op] view_step [of s op] by simp
qed simp

lemma invar_run: "list_all op_ok ops \<Longrightarrow> invar (foldl step new ops)"
  using run_from [OF invar_new] by blast

lemma search_run:
  assumes "list_all op_ok ops" "binary32 probe"
  shows "search (foldl step new ops) probe (DenseBinary Hamming) k f
    = Some (Inr (knn_spec dist (spec_run ops) (le_engram (payload_bytes probe)) k f))"
  using run_from [OF invar_new assms(1)] assms(2) by (simp add: search_view view_new spec_run_def)

end

text \<open>Two implementations over the same distance cannot be told apart by searches.\<close>

locale dense_index_pair =
  linear: dense_index step search new view invar dist +
  lane: dense_index step' search' new' view' invar' dist
  for step :: "'s \<Rightarrow> index_op \<Rightarrow> 's" and search new view invar dist
    and step' :: "'t \<Rightarrow> index_op \<Rightarrow> 't" and search' new' view' invar'
begin

lemma conformance:
  assumes "list_all op_ok ops" "binary32 probe"
  shows "search' (foldl step' new' ops) probe (DenseBinary Hamming) k f
    = search (foldl step new ops) probe (DenseBinary Hamming) k f"
  using linear.search_run [OF assms] lane.search_run [OF assms] by simp

end

section \<open>The implementations\<close>

lemma bf_step_ok:
  assumes "bf_ok s" "op_ok op"
  shows "bf_ok (bf_step s op) \<and> bf_codes (bf_step s op) = spec_op (bf_codes s) op"
proof (cases op)
  case (Build vs ks)
  then show ?thesis using bf_build_ok [of vs ks s] assms by simp
next
  case (Add key v)
  then show ?thesis
    using bf_add_ok [OF assms(1), of v key] assms by (cases "binary32 v") (auto simp: bf_add_def binary32_def)
next
  case (Remove key)
  then show ?thesis using bf_remove_ok [OF assms(1)] by simp
qed

lemma mih_step_ok:
  assumes "mih_ok s" "op_ok op"
  shows "mih_ok (mih_step s op) \<and> map_of (codes (mih_step s op)) = spec_op (map_of (codes s)) op"
proof (cases op)
  case (Build vs ks)
  then show ?thesis using mih_build_ok [of s vs ks] assms by simp
next
  case (Add key v)
  then show ?thesis
    using mih_add_ok [OF assms(1), of v key] assms by (cases "binary32 v") (auto simp: mih_add_def binary32_def)
next
  case (Remove key)
  then show ?thesis using mih_remove_ok [OF assms(1)] by simp
qed

lemma bf_codes_new: "bf_codes bf_new = Map.empty"
  by (simp add: bf_codes_def bf_new_def arr_empty_def live_records_def live_slots_def)

lemma codes_new: "codes (mih_new_with_budget b budget) = []"
  by (simp add: mih_new_with_budget_def)

text \<open>On the Hamming distance itself.\<close>

interpretation bf_lane: dense_index bf_step "bf_search (\<lambda>a. map (hamming_u32 a))" bf_new bf_codes bf_ok
    hamming_u32
  by unfold_locales (simp_all add: bf_new_ok bf_codes_new bf_step_ok hamming_lib.bf_search_exact)

interpretation mih_lane: dense_index mih_step "mih_search hamming_u32"
    "mih_new_with_budget b budget" "\<lambda>s. map_of (codes s)" mih_ok hamming_u32
  for b budget
  by unfold_locales (simp_all add: mih_new_ok codes_new mih_step_ok hamming_lib.mih_search_exact)

interpretation lane_pair: dense_index_pair bf_step "bf_search (\<lambda>a. map (hamming_u32 a))" bf_new
    bf_codes bf_ok hamming_u32 mih_step "mih_search hamming_u32" "mih_new_with_budget b budget"
    "\<lambda>s. map_of (codes s)" mih_ok
  for b budget
  by unfold_locales

text \<open>On every distance that meets the documentation.\<close>

sublocale engram_lib \<subseteq> bf: dense_index bf_step "bf_search distances" bf_new bf_codes bf_ok distance
  by unfold_locales (simp_all add: bf_new_ok bf_codes_new bf_step_ok bf_search_exact)

sublocale engram_lib \<subseteq> mih: dense_index mih_step "mih_search distance"
    "mih_new_with_budget b budget" "\<lambda>s. map_of (codes s)" mih_ok distance
  for b budget
  by unfold_locales (simp_all add: mih_new_ok codes_new mih_step_ok mih_search_exact)

sublocale engram_lib \<subseteq> lanes: dense_index_pair bf_step "bf_search distances" bf_new bf_codes bf_ok
    distance mih_step "mih_search distance" "mih_new_with_budget b budget" "\<lambda>s. map_of (codes s)" mih_ok
  for b budget
  by unfold_locales

context engram_lib
begin

lemmas bf_history_exact = bf.search_run

lemmas mih_history_exact = mih.search_run

lemmas lanes_agree = lanes.conformance

end

end
