(* ===== verification/Stale_Postings.thy ===== *)
theory Stale_Postings
  imports Dense_Index
begin

text \<open>
  What a rebuild with a repeated key does to multi-index hashing. \<open>build\<close> posts the key under the
  bands of both codes but stores only the last code, and \<open>remove\<close> takes back only the postings of
  the stored code. The posting that is left counts as a seen code in every later search.
\<close>

lemma partition_point_Nil: "partition_point P [] = 0"
  by (simp add: partition_point_def partition_between.simps)

lemma table_insert_new: "tbl sub = None \<Longrightarrow> table_insert tbl sub key = tbl(sub \<mapsto> [key])"
  by (simp add: table_insert_def partition_point_Nil)

lemma table_remove_only: "tbl sub = Some [key] \<Longrightarrow> table_remove tbl sub key = tbl(sub := None)"
  by (simp add: table_remove_def binary_search_by_def partition_point_def partition_between.simps)

lemma tables_insert_into:
  assumes "length (tables idx) = mih_m idx" "t < mih_m idx"
  shows "tables (insert_into_tables idx key e) ! t
    = table_insert (tables idx ! t) (extract_band e t (sub_bits idx)) key"
  using assms fold_tables(2) [where n = "mih_m idx" and ts = "tables idx" and i = t
      and g = "\<lambda>t tbl. table_insert tbl (extract_band e t (sub_bits idx)) key"]
  by (simp add: insert_into_tables_def)

lemma tables_remove_from:
  assumes "length (tables idx) = mih_m idx" "t < mih_m idx"
  shows "tables (remove_from_tables idx key e) ! t
    = table_remove (tables idx ! t) (extract_band e t (sub_bits idx)) key"
  using assms fold_tables(2) [where n = "mih_m idx" and ts = "tables idx" and i = t
      and g = "\<lambda>t tbl. table_remove tbl (extract_band e t (sub_bits idx)) key"]
  by (simp add: remove_from_tables_def)

lemma length_fold_update [simp]: "length (fold (\<lambda>t ts. ts[t := f t ts]) is ts) = length ts"
  by (induction "is" arbitrary: ts) simp_all

lemma length_tables_frame [simp]:
  "length (tables (insert_into_tables idx key e)) = length (tables idx)"
  "length (tables (remove_from_tables idx key e)) = length (tables idx)"
  by (simp_all add: insert_into_tables_def remove_from_tables_def)

definition stale_ops :: "vector_payload \<Rightarrow> vector_payload \<Rightarrow> vector_record_key \<Rightarrow> vector_record_key \<Rightarrow> index_op list" where
  "stale_ops p q a b = [Build [p, q] [a, a], Remove a, Add b q]"

lemma stale_tables:
  assumes "binary32 p" "binary32 q" "a \<noteq> b"
    and "\<And>t. t < band_count_value m \<Longrightarrow>
      extract_band (le_engram (payload_bytes p)) t (sub_bits_of m)
        \<noteq> extract_band (le_engram (payload_bytes q)) t (sub_bits_of m)"
  defines "idx \<equiv> foldl mih_step (mih_new m) (stale_ops p q a b)"
  shows "mih_m idx = band_count_value m" "sub_bits idx = sub_bits_of m"
    "codes idx = [(b, le_engram (payload_bytes q))]" "mask_budget idx = None"
    "t < band_count_value m \<Longrightarrow> tables idx ! t =
       [extract_band (le_engram (payload_bytes p)) t (sub_bits_of m) \<mapsto> [a],
        extract_band (le_engram (payload_bytes q)) t (sub_bits_of m) \<mapsto> [b]]"
proof -
  have p: "payload_kind p = Binary" "length (payload_bytes p) = 32"
    "payload_kind q = Binary" "length (payload_bytes q) = 32"
    using assms(1,2) by (auto simp: binary32_def)
  let ?x = "le_engram (payload_bytes p)" and ?y = "le_engram (payload_bytes q)"
  let ?new = "mih_new m"
  let ?i1 = "(insert_into_tables ?new a ?x)\<lparr>codes := [(a, ?x)]\<rparr>"
  let ?i2 = "(insert_into_tables ?i1 a ?y)\<lparr>codes := [(a, ?y)]\<rparr>"
  let ?i3 = "remove_from_tables (?i2\<lparr>codes := []\<rparr>) a ?y"
  let ?i4 = "(insert_into_tables ?i3 b ?y)\<lparr>codes := [(b, ?y)]\<rparr>"
  have new: "length (tables ?new) = band_count_value m" "mih_m ?new = band_count_value m"
    "sub_bits ?new = sub_bits_of m" "codes ?new = []" "mask_budget ?new = None"
    by (simp_all add: mih_new_def mih_new_with_budget_def)
  have new0: "tables ?new ! t = Map.empty" if "t < band_count_value m" for t
    using that by (simp add: mih_new_def mih_new_with_budget_def)
  have reset: "?new\<lparr>codes := [], tables := map (\<lambda>_. Map.empty) (tables ?new)\<rparr> = ?new"
    by (simp add: mih_new_def mih_new_with_budget_def map_replicate_const)
  have b: "fst (mih_build ?new [p, q] [a, a]) = ?i2"
    using assms(1,2) new by (simp add: mih_build_def reset Let_def)
  have r: "fst (mih_remove ?i2 a) = ?i3"
    by (simp add: mih_remove_def Let_def)
  have s: "fst (mih_add ?i3 b q) = ?i4"
    using assms(2) p by (simp add: mih_add_def Let_def)
  have idx: "idx = ?i4"
    unfolding idx_def stale_ops_def by (simp only: foldl_Cons foldl_Nil mih_step.simps b r s)
  show "mih_m idx = band_count_value m" "sub_bits idx = sub_bits_of m"
    "codes idx = [(b, le_engram (payload_bytes q))]" "mask_budget idx = None"
    by (simp_all add: idx new insert_into_tables_def remove_from_tables_def)
  show "tables idx ! t = [extract_band ?x t (sub_bits_of m) \<mapsto> [a], extract_band ?y t (sub_bits_of m) \<mapsto> [b]]"
    if "t < band_count_value m"
    using that assms(4) [OF that]
    by (simp add: idx tables_insert_into tables_remove_from new new0 table_insert_new table_remove_only)
qed

lemma knn_bands_stale:
  assumes "1 \<le> sub_bits idx" "sub_bits idx \<le> 64"
    and "\<And>t. t \<in> set ts \<Longrightarrow> (tables idx ! t) (extract_band x t (sub_bits idx)) = Some [a]"
    and "map_of (codes idx) a = None" "S \<subseteq> {a}"
  shows "\<exists>n. knn_bands d idx x None 0 0 ts (S, h, c) = Some (if ts = [] then S else {a}, h, n)"
  using assms(3,5)
proof (induction ts arbitrary: S c)
  case (Cons t ts)
  have masks: "colex_flip_masks (sub_bits idx) 0 = Some [0]"
    using colex_flip_masks_lists [OF assms(1,2), of 0] by (simp add: weight_masks_0)
  have "enumerate_band_candidates_counted d idx (tables idx ! t) (extract_band x t (sub_bits idx)) 0 x None (S, h, c)
      = Some ({a}, h, (c + 1) mod 2 ^ 64)"
    using Cons.prems assms(4)
    by (auto simp: enumerate_band_candidates_counted_def masks accepted_def)
  then show ?case using Cons.IH [of "{a}" "(c + 1) mod 2 ^ 64"] Cons.prems by auto
qed simp

lemma stale_search:
  assumes "binary32 p" "binary32 q" "a \<noteq> b" "0 < k"
    and "\<And>t. t < band_count_value m \<Longrightarrow>
      extract_band (le_engram (payload_bytes p)) t (sub_bits_of m)
        \<noteq> extract_band (le_engram (payload_bytes q)) t (sub_bits_of m)"
  shows "mih_search d (foldl mih_step (mih_new m) (stale_ops p q a b)) p (DenseBinary Hamming) k None
    = Some (Inr [])"
proof -
  let ?idx = "foldl mih_step (mih_new m) (stale_ops p q a b)" and ?x = "le_engram (payload_bytes p)"
  note st = stale_tables [OF assms(1-3,5)]
  have w: "1 \<le> sub_bits ?idx" "sub_bits ?idx \<le> 64"
    using band_config_bounds [OF band_config_of [of m]] by (simp_all add: st)
  have m: "mih_m ?idx = band_count_value m" "0 < band_count_value m" "band_count_value m \<le> 32"
    by (simp add: st, (cases m; simp)+)
  have "\<exists>n. knn_bands d ?idx ?x None 0 0 [0..<mih_m ?idx] ({}, heap_new k, 0) = Some ({a}, heap_new k, n)"
    using knn_bands_stale [OF w, of "[0..<mih_m ?idx]" ?x a "{}" d "heap_new k" 0] m assms(3,5)
    by (auto simp: st)
  then obtain n where n: "knn_bands d ?idx ?x None 0 0 [0..<mih_m ?idx] ({}, heap_new k, 0)
      = Some ({a}, heap_new k, n)" by blast
  have c: "cumulative_choose (sub_bits ?idx) 0 = 1"
    using w unfolding cumulative_choose_def by (subst cumulative_loop.simps) simp
  have "knn_loop d ?idx ?x k None (2 ^ 20) 0 ({}, heap_new k, 0) = Some []"
    unfolding knn_loop.simps [of d ?idx ?x k None "2 ^ 20" 0 "{}" "heap_new k" 0] Let_def
    using n m(2,3) assms(4)
    by (simp add: c m(1) heap_exact_def heap_size_def heap_new_def sorted_ascending_def st(3)
        saturating_mul_def saturating_add_def)
  then show ?thesis
    using assms(1,4) by (simp add: mih_search_def binary32_def mih_payload_to_engram_def knn_def st)
qed

end
