(* ===== verification/Sidecar.thy ===== *)
theory Sidecar
  imports Resident_Array
begin

text \<open>
  The \<open>.vec\<close> sidecar format of \<open>engine/resident_store.rs\<close>: the encoder of
  \<open>write_sidecar\<close>, the parser \<open>parse_sidecar\<close> with every truncation and validation
  error, and the key and partition codecs. Every array whose sizes fit the 32-bit fields and whose
  strings are UTF-8 is read back exactly as it was written. Positions are natural numbers: on a
  64-bit target no sum of the parser overflows for files below 8 GiB.
\<close>

section \<open>Strings\<close>

definition as_bytes :: "string \<Rightarrow> u8 list" where
  "as_bytes s = map (\<lambda>c. word_of_nat (of_char c)) s"

definition is_cont :: "u8 \<Rightarrow> bool" where
  "is_cont b \<longleftrightarrow> 128 \<le> unat b \<and> unat b < 192"

text \<open>Well-formed UTF-8, the test of \<open>String::from_utf8\<close>.\<close>

fun utf8_valid :: "u8 list \<Rightarrow> bool" where
  "utf8_valid [] = True"
| "utf8_valid (a # bs) =
     (let n = unat a
      in if n < 128 then utf8_valid bs
         else if n < 194 then False
         else if n < 224
         then (case bs of b # bs' \<Rightarrow> is_cont b \<and> utf8_valid bs' | _ \<Rightarrow> False)
         else if n < 240
         then (case bs of
                 b # c # bs' \<Rightarrow>
                   is_cont b \<and> is_cont c \<and> (n = 224 \<longrightarrow> 160 \<le> unat b) \<and> (n = 237 \<longrightarrow> unat b < 160)
                   \<and> utf8_valid bs'
               | _ \<Rightarrow> False)
         else if n < 245
         then (case bs of
                 b # c # d # bs' \<Rightarrow>
                   is_cont b \<and> is_cont c \<and> is_cont d \<and> (n = 240 \<longrightarrow> 144 \<le> unat b)
                   \<and> (n = 244 \<longrightarrow> unat b < 144) \<and> utf8_valid bs'
               | _ \<Rightarrow> False)
         else False)"

text \<open>A Rust \<open>String\<close> short enough for the 4-byte length fields.\<close>

definition string_ok :: "string \<Rightarrow> bool" where
  "string_ok s \<longleftrightarrow> utf8_valid (as_bytes s) \<and> length s < 2 ^ 32"

section \<open>Reading\<close>

definition check_bounds :: "u8 list \<Rightarrow> nat \<Rightarrow> nat \<Rightarrow> string \<Rightarrow> vectorkit_error + unit" where
  "check_bounds data pos len ctx =
     (if length data < pos + len
      then Inl (DecodingFailure
             (Fmt ''ResidentArrayStore: truncated at {ctx} (pos={pos}, need={len}, have={})''
                [FText ctx, FNat pos, FNat len, FNat (length data)]))
      else Inr ())"

definition read_le_u16 :: "u8 list \<Rightarrow> nat \<Rightarrow> vectorkit_error + u16" where
  "read_le_u16 data pos =
     rbind (check_bounds data pos 2 ''u16'')
       (\<lambda>_. Inr (word_of_nat (from_le_bytes (take 2 (drop pos data)))))"

definition read_le_u32 :: "u8 list \<Rightarrow> nat \<Rightarrow> vectorkit_error + u32" where
  "read_le_u32 data pos =
     rbind (check_bounds data pos 4 ''u32'')
       (\<lambda>_. Inr (word_of_nat (from_le_bytes (take 4 (drop pos data)))))"

definition read_le_u64 :: "u8 list \<Rightarrow> nat \<Rightarrow> vectorkit_error + u64" where
  "read_le_u64 data pos =
     rbind (check_bounds data pos 8 ''u64'')
       (\<lambda>_. Inr (word_of_nat (from_le_bytes (take 8 (drop pos data)))))"

text \<open>\<open>String::from_utf8\<close>; the rejected bytes stand for its error value in the message.\<close>

definition read_utf8_string :: "u8 list \<Rightarrow> nat \<Rightarrow> vectorkit_error + string" where
  "read_utf8_string data pos =
     rbind (read_le_u32 data pos) (\<lambda>n. let len = unat n in
     rbind (check_bounds data (pos + 4) len ''string body'') (\<lambda>_.
       let bs = take len (drop (pos + 4) data)
       in if utf8_valid bs then Inr (map (\<lambda>b. char_of (unat b)) bs)
          else Inl (DecodingFailure (Fmt ''ResidentArrayStore: invalid UTF-8: {e}'' [FBytes bs]))))"

section \<open>Keys and partitions\<close>

definition encode_string :: "string \<Rightarrow> u8 list" where
  "encode_string s = to_le_bytes 4 (length (as_bytes s)) @ as_bytes s"

definition encode_key :: "vector_record_key \<Rightarrow> u8 list" where
  "encode_key key =
     encode_string (item_id key) @ to_le_bytes 4 (unat (vector_index key))
       @ encode_string (model_id key) @ encode_string (model_version key)"

definition decode_key :: "u8 list \<Rightarrow> nat \<Rightarrow> vectorkit_error + vector_record_key \<times> nat" where
  "decode_key data pos =
     rbind (read_utf8_string data pos) (\<lambda>iid. let p = pos + (4 + length iid) in
     rbind (check_bounds data p 4 ''vector_index'') (\<lambda>_.
     rbind (read_le_u32 data p) (\<lambda>vi. let p = p + 4 in
     rbind (read_utf8_string data p) (\<lambda>mid. let p = p + (4 + length mid) in
     rbind (read_utf8_string data p) (\<lambda>ver. let p = p + (4 + length ver) in
     Inr (\<lparr>item_id = iid, vector_index = vi, model_id = mid, model_version = ver\<rparr>, p - pos))))))"

definition encode_partition :: "model_partition_entry \<Rightarrow> u8 list" where
  "encode_partition p =
     encode_string (part_model_id p) @ to_le_bytes 4 (part_start p) @ to_le_bytes 4 (part_end p)"

definition encode_partitions :: "model_partition_entry list \<Rightarrow> u8 list" where
  "encode_partitions ps = to_le_bytes 4 (length ps) @ concat (map encode_partition ps)"

text \<open>The loop of \<open>decode_partitions\<close>, returning the entries and the final position.\<close>

fun decode_partition_loop :: "u8 list \<Rightarrow> nat \<Rightarrow> nat \<Rightarrow> vectorkit_error + model_partition_entry list \<times> nat" where
  "decode_partition_loop data p 0 = Inr ([], p)"
| "decode_partition_loop data p (Suc n) =
     rbind (read_utf8_string data p) (\<lambda>mid. let p = p + (4 + length mid) in
     rbind (check_bounds data p 8 ''partition range'') (\<lambda>_.
     rbind (read_le_u32 data p) (\<lambda>lo. let p = p + 4 in
     rbind (read_le_u32 data p) (\<lambda>hi. let p = p + 4 in
     rbind (decode_partition_loop data p n) (\<lambda>(ps, q).
       Inr (\<lparr>part_model_id = mid, part_start = unat lo, part_end = unat hi\<rparr> # ps, q))))))"

definition decode_partitions :: "u8 list \<Rightarrow> nat \<Rightarrow> vectorkit_error + model_partition_entry list \<times> nat" where
  "decode_partitions data pos =
     (if length data < pos + 4 then Inr ([], 0)
      else rbind (read_le_u32 data pos) (\<lambda>n.
           rbind (decode_partition_loop data (pos + 4) (unat n)) (\<lambda>(ps, p). Inr (ps, p - pos))))"

section \<open>The file\<close>

definition vec_magic :: "u8 list" where
  "vec_magic = [0x56, 0x45, 0x43, 0x31]"

definition vec_version :: u16 where
  "vec_version = 2"

definition kind_byte :: "vector_kind \<Rightarrow> u8" where
  "kind_byte k = word_of_int (kind_raw k)"

definition kind_of_byte :: "u8 \<Rightarrow> vector_kind option" where
  "kind_of_byte b =
     (if b = 0 then Some Binary else if b = 1 then Some Float32 else if b = 2 then Some Int8 else None)"

text \<open>The buffer \<open>write_sidecar\<close> assembles.\<close>

definition sidecar_bytes :: "resident_vector_array \<Rightarrow> u8 list" where
  "sidecar_bytes arr =
     vec_magic @ to_le_bytes 2 (unat vec_version) @ [kind_byte (arr_kind arr)]
       @ to_le_bytes 4 (arr_stride arr) @ to_le_bytes 4 (arr_count arr)
       @ to_le_bytes 4 (live_count arr) @ to_le_bytes 4 (length (tombstones arr))
       @ concat (map (\<lambda>w. to_le_bytes 8 (unat w)) (tombstones arr))
       @ arr_storage arr @ concat (map encode_key (arr_keys arr))
       @ encode_partitions (model_partitions arr)"

fun read_words :: "u8 list \<Rightarrow> nat \<Rightarrow> nat \<Rightarrow> vectorkit_error + u64 list \<times> nat" where
  "read_words data pos 0 = Inr ([], pos)"
| "read_words data pos (Suc n) =
     rbind (read_le_u64 data pos) (\<lambda>w.
     rbind (read_words data (pos + 8) n) (\<lambda>(ws, p). Inr (w # ws, p)))"

fun decode_keys :: "u8 list \<Rightarrow> nat \<Rightarrow> nat \<Rightarrow> vectorkit_error + vector_record_key list \<times> nat" where
  "decode_keys data pos 0 = Inr ([], pos)"
| "decode_keys data pos (Suc n) =
     rbind (decode_key data pos) (\<lambda>(key, consumed).
     rbind (decode_keys data (pos + consumed) n) (\<lambda>(ks, p). Inr (key # ks, p)))"

definition checked_mul :: "nat \<Rightarrow> nat \<Rightarrow> nat option" where
  "checked_mul a b = (if a * b \<le> usize_max then Some (a * b) else None)"

definition ok_or :: "'a option \<Rightarrow> 'e \<Rightarrow> 'e + 'a" where
  "ok_or x e = (case x of Some a \<Rightarrow> Inr a | None \<Rightarrow> Inl e)"

text \<open>The blocks after the header: tombstones, vectors, keys and partition index.\<close>

definition parse_blocks :: "u8 list \<Rightarrow> vector_kind \<Rightarrow> nat \<Rightarrow> nat \<Rightarrow> nat \<Rightarrow> nat
      \<Rightarrow> vectorkit_error + resident_vector_array" where
  "parse_blocks data kind stride cnt tombstone_words pos =
     rbind (ok_or (checked_mul tombstone_words 8)
       (DecodingFailure (Fmt ''ResidentArrayStore: tombstone block size overflows usize'' []))) (\<lambda>tb.
     rbind (check_bounds data pos tb ''tombstone block'') (\<lambda>_.
     rbind (read_words data pos tombstone_words) (\<lambda>(tombs, pos).
     rbind (ok_or (checked_mul cnt stride)
       (DecodingFailure (Fmt ''ResidentArrayStore: vectors block size overflows usize'' []))) (\<lambda>vb.
     rbind (check_bounds data pos vb ''vectors block'') (\<lambda>_.
     let store = take vb (drop pos data); pos = pos + vb in
     rbind (decode_keys data pos cnt) (\<lambda>(ks, pos).
     rbind (decode_partitions data pos) (\<lambda>(ps, consumed).
     Inr \<lparr>arr_kind = kind, arr_stride = stride, arr_count = cnt, arr_storage = store,
          arr_keys = ks, model_partitions = ps, tombstones = tombs\<rparr>)))))))"

definition parse_sidecar :: "u8 list \<Rightarrow> vectorkit_error + resident_vector_array" where
  "parse_sidecar data =
     (if length data < 4
      then Inl (DecodingFailure (Fmt ''ResidentArrayStore: sidecar too short for magic'' []))
      else if take 4 data \<noteq> vec_magic
      then Inl (DecodingFailure (Fmt ''ResidentArrayStore: bad magic {:?}; expected {:?}''
             [FBytes (take 4 data), FBytes vec_magic]))
      else
        rbind (read_le_u16 data 4) (\<lambda>version.
        if version \<noteq> vec_version
        then Inl (DecodingFailure
               (Fmt ''ResidentArrayStore: unsupported version {version}; expected {VEC_VERSION}''
                  [FNat (unat version), FNat (unat vec_version)]))
        else
          rbind (check_bounds data 6 1 ''kind'') (\<lambda>_.
          case kind_of_byte (data ! 6) of
            None \<Rightarrow> Inl (DecodingFailure (Fmt ''ResidentArrayStore: unknown kind byte {kind_raw}''
                       [FNat (unat (data ! 6))]))
          | Some kind \<Rightarrow>
              rbind (read_le_u32 data 7) (\<lambda>stride.
              rbind (read_le_u32 data 11) (\<lambda>cnt.
              rbind (read_le_u32 data 15) (\<lambda>live.
              rbind (read_le_u32 data 19) (\<lambda>tombstone_words.
              parse_blocks data kind (unat stride) (unat cnt) (unat tombstone_words) 23)))))))"

text \<open>What the format can represent.\<close>

definition key_ok :: "vector_record_key \<Rightarrow> bool" where
  "key_ok key \<longleftrightarrow> string_ok (item_id key) \<and> string_ok (model_id key) \<and> string_ok (model_version key)"

definition encodable :: "resident_vector_array \<Rightarrow> bool" where
  "encodable arr \<longleftrightarrow>
     arr_stride arr < 2 ^ 32 \<and> arr_count arr < 2 ^ 32 \<and> (\<forall>key \<in> set (arr_keys arr). key_ok key)"

section \<open>Reading what was written\<close>

text \<open>\<open>reads_at data pos rest\<close>: the unread part of the data at a position within it.\<close>

definition reads_at :: "u8 list \<Rightarrow> nat \<Rightarrow> u8 list \<Rightarrow> bool" where
  "reads_at data pos rest \<longleftrightarrow> pos \<le> length data \<and> drop pos data = rest"

lemma reads_at_0: "reads_at data 0 data"
  by (simp add: reads_at_def)

lemma reads_at_step:
  assumes "reads_at data pos (xs @ rest)" "length xs = n"
  shows "reads_at data (pos + n) rest" and "take n (drop pos data) = xs"
    and "check_bounds data pos n ctx = Inr ()"
proof -
  have d: "drop pos data = xs @ rest" "pos \<le> length data" using assms(1) by (simp_all add: reads_at_def)
  have "length data - pos = n + length rest" using d(1) assms(2) length_drop [of pos data] by simp
  then have len: "pos + n \<le> length data" using d(2) by simp
  have "drop (pos + n) data = drop n (drop pos data)" by (simp add: add.commute)
  then show "reads_at data (pos + n) rest" using d(1) assms(2) len by (simp add: reads_at_def)
  show "take n (drop pos data) = xs" using d(1) assms(2) by simp
  show "check_bounds data pos n ctx = Inr ()" using len by (simp add: check_bounds_def)
qed

lemma word_of_le_bytes_u16: "word_of_nat (from_le_bytes (to_le_bytes 2 (unat v))) = (v :: u16)"
  using unsigned_less [where 'b = 16 and ?'a = nat, of v] by simp

lemma read_le_u16_written:
  assumes "reads_at data pos (to_le_bytes 2 (unat v) @ rest)"
  shows "read_le_u16 data pos = Inr (v :: u16)"
  using reads_at_step(2,3) [OF assms, of 2] by (simp add: read_le_u16_def word_of_le_bytes_u16)

lemma read_le_u32_written:
  assumes "reads_at data pos (to_le_bytes 4 n @ rest)" "n < 2 ^ 32"
  shows "read_le_u32 data pos = Inr (word_of_nat n)"
  using reads_at_step(2,3) [OF assms(1), of 4] assms(2) by (simp add: read_le_u32_def)

lemma read_le_u64_written:
  assumes "reads_at data pos (to_le_bytes 8 (unat v) @ rest)"
  shows "read_le_u64 data pos = Inr (v :: u64)"
  using reads_at_step(2,3) [OF assms, of 8] by (simp add: read_le_u64_def word_of_le_bytes_u64)

lemma unat_word_of_nat_u32: "n < 2 ^ 32 \<Longrightarrow> unat (word_of_nat n :: u32) = n"
  by (simp add: unat_of_nat)

lemma map_char_of_as_bytes [simp]: "map (\<lambda>b. char_of (unat b)) (as_bytes s) = s"
proof -
  have "of_char c < (256 :: nat)" for c :: char by (rule nat_of_char_less_256)
  then have "unat (word_of_nat (of_char c) :: u8) = of_char c" for c :: char
    by (simp add: unat_of_nat)
  then show ?thesis by (simp add: as_bytes_def o_def)
qed

lemma length_as_bytes [simp]: "length (as_bytes s) = length s"
  by (simp add: as_bytes_def)

lemma read_utf8_string_written:
  assumes at: "reads_at data pos (encode_string s @ rest)" and s: "string_ok s"
  shows "read_utf8_string data pos = Inr s" and "reads_at data (pos + (4 + length s)) rest"
proof -
  have at0: "reads_at data pos (to_le_bytes 4 (length s) @ as_bytes s @ rest)"
    using at by (simp add: encode_string_def)
  have len: "length s < 2 ^ 32" "utf8_valid (as_bytes s)" using s by (simp_all add: string_ok_def)
  note at1 = reads_at_step(1) [OF at0, of 4, simplified]
  note body = reads_at_step [OF at1, of "length s", simplified]
  show "read_utf8_string data pos = Inr s"
    using read_le_u32_written [OF at0 len(1)] body len
    by (simp add: read_utf8_string_def Let_def unat_word_of_nat_u32 add.commute)
  show "reads_at data (pos + (4 + length s)) rest" using body(1) by (simp add: add.assoc)
qed

lemma decode_key_written:
  assumes at: "reads_at data pos (encode_key key @ rest)" and ok: "key_ok key"
  shows "\<exists>n. decode_key data pos = Inr (key, n) \<and> reads_at data (pos + n) rest"
proof -
  let ?l1 = "length (item_id key)" and ?l2 = "length (model_id key)" and ?l3 = "length (model_version key)"
  have s: "string_ok (item_id key)" "string_ok (model_id key)" "string_ok (model_version key)"
    using ok by (simp_all add: key_ok_def)
  have at0: "reads_at data pos (encode_string (item_id key) @ to_le_bytes 4 (unat (vector_index key))
      @ encode_string (model_id key) @ encode_string (model_version key) @ rest)"
    using at by (simp add: encode_key_def)
  note r1 = read_utf8_string_written [OF at0 s(1)]
  note r2 = read_le_u32_written [OF r1(2)] reads_at_step(1,3) [OF r1(2) length_to_le_bytes]
  note r3 = read_utf8_string_written [OF r2(2) s(2)]
  note r4 = read_utf8_string_written [OF r3(2) s(3)]
  have vi: "read_le_u32 data (pos + (4 + ?l1)) = Inr (vector_index key)"
    using r2(1) unat_u32_less [of "vector_index key"] by simp
  let ?n = "(4 + ?l1) + 4 + (4 + ?l2) + (4 + ?l3)"
  have "decode_key data pos = Inr (key, ?n)"
    unfolding decode_key_def Let_def r1(1) rbind_simps r2(3) vi r3(1) r4(1) by simp
  moreover have "reads_at data (pos + ?n) rest" using r4(2) by (simp add: add.assoc)
  ultimately show ?thesis by blast
qed

lemma decode_keys_written:
  assumes "reads_at data pos (concat (map encode_key ks) @ rest)" "\<forall>key \<in> set ks. key_ok key"
  shows "\<exists>p. decode_keys data pos (length ks) = Inr (ks, p) \<and> reads_at data p rest"
  using assms
proof (induction ks arbitrary: pos)
  case (Cons key ks)
  then obtain n where n: "decode_key data pos = Inr (key, n)"
    "reads_at data (pos + n) (concat (map encode_key ks) @ rest)"
    using decode_key_written [of data pos key "concat (map encode_key ks) @ rest"] by auto
  then show ?case using Cons.IH [OF n(2)] Cons.prems(2) by auto
qed simp

lemma read_words_written:
  assumes "reads_at data pos (concat (map (\<lambda>w. to_le_bytes 8 (unat w)) ws) @ rest)"
  shows "\<exists>p. read_words data pos (length ws) = Inr (ws, p) \<and> reads_at data p rest"
  using assms
proof (induction ws arbitrary: pos)
  case (Cons w ws)
  let ?rest = "concat (map (\<lambda>w. to_le_bytes 8 (unat w)) ws) @ rest"
  have at: "reads_at data pos (to_le_bytes 8 (unat w) @ ?rest)" using Cons.prems by simp
  show ?case
    using read_le_u64_written [OF at] Cons.IH [of "pos + 8"] reads_at_step(1) [OF at, of 8] by auto
qed simp

definition partition_ok :: "model_partition_entry \<Rightarrow> bool" where
  "partition_ok p \<longleftrightarrow> string_ok (part_model_id p) \<and> part_start p < 2 ^ 32 \<and> part_end p < 2 ^ 32"

lemma decode_partition_loop_written:
  assumes "reads_at data pos (concat (map encode_partition ps) @ rest)" "\<forall>p \<in> set ps. partition_ok p"
  shows "\<exists>q. decode_partition_loop data pos (length ps) = Inr (ps, q)"
  using assms
proof (induction ps arbitrary: pos)
  case (Cons p ps)
  let ?rest = "concat (map encode_partition ps) @ rest"
  have ok: "string_ok (part_model_id p)" "part_start p < 2 ^ 32" "part_end p < 2 ^ 32"
    using Cons.prems(2) by (simp_all add: partition_ok_def)
  have at0: "reads_at data pos (encode_string (part_model_id p) @ (to_le_bytes 4 (part_start p)
      @ to_le_bytes 4 (part_end p)) @ ?rest)"
    using Cons.prems(1) encode_partition_def [of p] by simp
  note r1 = read_utf8_string_written [OF at0 ok(1)]
  note b = reads_at_step(3) [OF r1(2), of 8, simplified]
  have at1: "reads_at data (pos + (4 + length (part_model_id p)))
      (to_le_bytes 4 (part_start p) @ to_le_bytes 4 (part_end p) @ ?rest)"
    using r1(2) by simp
  note r2 = read_le_u32_written [OF at1 ok(2)] reads_at_step(1) [OF at1 length_to_le_bytes]
  note r3 = read_le_u32_written [OF r2(2) ok(3)] reads_at_step(1) [OF r2(2) length_to_le_bytes]
  obtain q where q: "decode_partition_loop data (pos + (4 + length (part_model_id p)) + 4 + 4) (length ps)
      = Inr (ps, q)"
    using Cons.IH [OF r3(2)] Cons.prems(2) by auto
  show ?case
    unfolding list.size(4) add_Suc_right Nat.add_0_right decode_partition_loop.simps Let_def r1(1) rbind_simps
      b r2(1) r3(1) q
    using unat_word_of_nat_u32 [OF ok(2)] unat_word_of_nat_u32 [OF ok(3)] by simp
qed simp

lemma decode_partitions_written:
  assumes at: "reads_at data pos (encode_partitions ps)"
    and ok: "\<forall>p \<in> set ps. partition_ok p" "length ps < 2 ^ 32"
  shows "\<exists>n. decode_partitions data pos = Inr (ps, n)"
proof -
  have at0: "reads_at data pos (to_le_bytes 4 (length ps) @ concat (map encode_partition ps) @ [])"
    using at by (simp add: encode_partitions_def)
  note at1 = reads_at_step(1,3) [OF at0, of 4, simplified]
  have "\<not> length data < pos + 4" using at1(1) by (simp add: reads_at_def)
  moreover obtain q where "decode_partition_loop data (pos + 4) (length ps) = Inr (ps, q)"
    using decode_partition_loop_written [of data "pos + 4" ps "[]"] at1(1) ok(1) by auto
  ultimately show ?thesis
    using read_le_u32_written [OF at0 ok(2)] unat_word_of_nat_u32 [OF ok(2)]
    by (simp add: decode_partitions_def)
qed

lemma partitions_ok:
  assumes "p \<in> set (build_partitions ks ws)"
  shows "\<exists>key \<in> set ks. part_model_id p = model_id key" "part_start p < part_end p" "part_end p \<le> length ks"
proof -
  have fin: "finite {mid. model_slots ks ws mid \<noteq> {}}"
    by (rule finite_subset [of _ "model_id ` set ks"]) (auto simp: model_slots_def)
  from assms fin obtain mid where ne: "model_slots ks ws mid \<noteq> {}"
    and p: "p = \<lparr>part_model_id = mid, part_start = Min (model_slots ks ws mid),
                 part_end = Max (model_slots ks ws mid) + 1\<rparr>"
    by (auto simp: build_partitions_eq)
  note S = finite_model_slots [of ks ws mid]
  from Max_in [OF S ne] have "Max (model_slots ks ws mid) < length ks" by (rule model_slots_less)
  then show "part_end p \<le> length ks" by (simp add: p)
  show "part_start p < part_end p" using Min_le [OF S Max_in [OF S ne]] by (simp add: p)
  show "\<exists>key \<in> set ks. part_model_id p = model_id key"
    using ne by (auto simp: p model_slots_def intro!: nth_mem)
qed

lemma length_build_partitions: "length (build_partitions ks ws) \<le> length ks"
proof -
  have "{mid. model_slots ks ws mid \<noteq> {}} \<subseteq> model_id ` set ks" by (auto simp: model_slots_def)
  then have "card {mid. model_slots ks ws mid \<noteq> {}} \<le> card (model_id ` set ks)"
    by (rule card_mono [rotated]) simp
  also have "\<dots> \<le> length ks" by (meson card_image_le card_length finite_set le_trans)
  finally show ?thesis by (simp add: build_partitions_eq)
qed

text \<open>The blocks before the partition index, followed by any bytes.\<close>

definition sidecar_blocks :: "resident_vector_array \<Rightarrow> u8 list" where
  "sidecar_blocks arr =
     vec_magic @ to_le_bytes 2 (unat vec_version) @ [kind_byte (arr_kind arr)]
       @ to_le_bytes 4 (arr_stride arr) @ to_le_bytes 4 (arr_count arr)
       @ to_le_bytes 4 (live_count arr) @ to_le_bytes 4 (length (tombstones arr))
       @ concat (map (\<lambda>w. to_le_bytes 8 (unat w)) (tombstones arr))
       @ arr_storage arr @ concat (map encode_key (arr_keys arr))"

lemma sidecar_bytes_blocks: "sidecar_bytes arr = sidecar_blocks arr @ encode_partitions (model_partitions arr)"
  by (simp add: sidecar_bytes_def sidecar_blocks_def)

lemma parse_blocks_written:
  assumes at: "reads_at data pos (concat (map (\<lambda>w. to_le_bytes 8 (unat w)) (tombstones arr))
      @ arr_storage arr @ concat (map encode_key (arr_keys arr)) @ tail)"
    and ok: "arr_ok arr" and enc: "encodable arr"
  shows "\<exists>p. reads_at data p tail
    \<and> parse_blocks data (arr_kind arr) (arr_stride arr) (arr_count arr) (length (tombstones arr)) pos
      = rbind (decode_partitions data p) (\<lambda>(ps, consumed). Inr (arr\<lparr>model_partitions := ps\<rparr>))"
proof -
  have n: "length (arr_keys arr) = arr_count arr" "length (arr_storage arr) = arr_count arr * arr_stride arr"
    "length (tombstones arr) = (arr_count arr + 63) div 64" "arr_count arr < 2 ^ 32" "arr_stride arr < 2 ^ 32"
    "\<forall>key \<in> set (arr_keys arr). key_ok key"
    using ok enc by (simp_all add: arr_ok_def encodable_def)
  have tb: "checked_mul (length (tombstones arr)) 8 = Some (length (tombstones arr) * 8)"
    using n(3,4) by (simp add: checked_mul_def)
  have "arr_count arr * arr_stride arr \<le> (2 ^ 32 - 1) * (2 ^ 32 - 1)"
    using n(4,5) by (intro mult_le_mono) simp_all
  then have vb: "checked_mul (arr_count arr) (arr_stride arr) = Some (arr_count arr * arr_stride arr)"
    by (simp add: checked_mul_def)
  have len8: "length (concat (map (\<lambda>w. to_le_bytes 8 (unat w)) ws)) = length ws * 8" for ws :: "u64 list"
    by (induction ws) simp_all
  obtain p1 where p1: "read_words data pos (length (tombstones arr)) = Inr (tombstones arr, p1)"
    "reads_at data p1 (arr_storage arr @ concat (map encode_key (arr_keys arr)) @ tail)"
    using read_words_written [OF at] by blast
  note st = reads_at_step [OF p1(2) n(2)]
  obtain p2 where p2: "decode_keys data (p1 + arr_count arr * arr_stride arr) (arr_count arr) = Inr (arr_keys arr, p2)"
    "reads_at data p2 tail"
    using decode_keys_written [OF st(1) n(6)] n(1) by auto
  have rec: "arr\<lparr>model_partitions := ps\<rparr> = \<lparr>arr_kind = arr_kind arr, arr_stride = arr_stride arr,
      arr_count = arr_count arr, arr_storage = arr_storage arr, arr_keys = arr_keys arr,
      model_partitions = ps, tombstones = tombstones arr\<rparr>" for ps
    by (cases arr) simp
  show ?thesis
    using reads_at_step(3) [OF at len8] p1(1) st(2,3) p2
    by (intro exI [of _ p2]) (simp add: parse_blocks_def tb vb ok_or_def Let_def rec)
qed

lemma decode_partitions_ok:
  assumes at: "reads_at data pos (encode_partitions (model_partitions arr))"
    and ok: "arr_ok arr" and enc: "encodable arr"
  shows "\<exists>n. decode_partitions data pos = Inr (model_partitions arr, n)"
proof -
  have n: "length (arr_keys arr) = arr_count arr" "arr_count arr < 2 ^ 32"
    "\<forall>key \<in> set (arr_keys arr). key_ok key"
    using ok enc by (simp_all add: arr_ok_def encodable_def)
  have mp: "model_partitions arr = build_partitions (arr_keys arr) (tombstones arr)"
    using ok by (simp add: arr_ok_def)
  have "partition_ok p" if "p \<in> set (model_partitions arr)" for p
    using partitions_ok [OF that [unfolded mp]] n by (auto simp: partition_ok_def key_ok_def)
  moreover have "length (model_partitions arr) < 2 ^ 32"
    using length_build_partitions [of "arr_keys arr" "tombstones arr"] n(1,2) by (simp add: mp)
  ultimately show ?thesis using decode_partitions_written [OF at] by auto
qed

lemma kind_of_byte_kind_byte: "kind_of_byte (kind_byte k) = Some k"
  by (cases k) (simp_all add: kind_of_byte_def kind_byte_def)

lemma live_count_le: "live_count arr \<le> arr_count arr"
  unfolding live_count_def using length_filter_le [of _ "[0..<arr_count arr]"] by simp

lemma parse_sidecar_blocks:
  assumes "arr_ok arr" "encodable arr"
  shows "\<exists>p. reads_at (sidecar_blocks arr @ tail) p tail \<and> parse_sidecar (sidecar_blocks arr @ tail)
    = rbind (decode_partitions (sidecar_blocks arr @ tail) p) (\<lambda>(ps, consumed). Inr (arr\<lparr>model_partitions := ps\<rparr>))"
proof -
  let ?d = "sidecar_blocks arr @ tail"
  have n: "arr_stride arr < 2 ^ 32" "arr_count arr < 2 ^ 32" "live_count arr < 2 ^ 32"
    "length (tombstones arr) < 2 ^ 32"
    using assms live_count_le [of arr] by (auto simp: arr_ok_def encodable_def)
  have mag: "\<not> length ?d < 4" "take 4 ?d = vec_magic"
    by (simp_all add: sidecar_blocks_def vec_magic_def)
  let ?body = "to_le_bytes 4 (arr_stride arr) @ to_le_bytes 4 (arr_count arr)
    @ to_le_bytes 4 (live_count arr) @ to_le_bytes 4 (length (tombstones arr))
    @ concat (map (\<lambda>w. to_le_bytes 8 (unat w)) (tombstones arr))
    @ arr_storage arr @ concat (map encode_key (arr_keys arr)) @ tail"
  have at4: "reads_at ?d 4 (to_le_bytes 2 (unat vec_version) @ [kind_byte (arr_kind arr)] @ ?body)"
    and at6: "reads_at ?d 6 ([kind_byte (arr_kind arr)] @ ?body)"
    and at7: "reads_at ?d 7 ?body"
    by (simp_all add: reads_at_def sidecar_blocks_def vec_magic_def)
  note at11 = reads_at_step(1) [OF at7, of 4, simplified]
  note at15 = reads_at_step(1) [OF at11, of 4, simplified]
  note at19 = reads_at_step(1) [OF at15, of 4, simplified]
  note at23 = reads_at_step(1) [OF at19, of 4, simplified]
  have kind: "?d ! 6 = kind_byte (arr_kind arr)"
    by (simp add: sidecar_blocks_def vec_magic_def nth_append)
  show ?thesis
    using read_le_u16_written [OF at4] reads_at_step(3) [OF at6, of 1] read_le_u32_written [OF at7 n(1)]
      read_le_u32_written [OF at11 n(2)] read_le_u32_written [OF at15 n(3)]
      read_le_u32_written [OF at19 n(4)] parse_blocks_written [OF at23 assms] mag kind
    by (simp add: parse_sidecar_def kind_of_byte_kind_byte unat_word_of_nat_u32 [OF n(1)]
        unat_word_of_nat_u32 [OF n(2)] unat_word_of_nat_u32 [OF n(4)])
qed

lemma parse_sidecar_bytes:
  assumes "arr_ok arr" "encodable arr"
  shows "parse_sidecar (sidecar_bytes arr) = Inr arr"
proof -
  obtain p where p: "reads_at (sidecar_bytes arr) p (encode_partitions (model_partitions arr))"
    "parse_sidecar (sidecar_bytes arr)
      = rbind (decode_partitions (sidecar_bytes arr) p) (\<lambda>(ps, consumed). Inr (arr\<lparr>model_partitions := ps\<rparr>))"
    using parse_sidecar_blocks [OF assms] unfolding sidecar_bytes_blocks by blast
  then show ?thesis using decode_partitions_ok [OF p(1) assms] by auto
qed

text \<open>A file that ends within the first four bytes of the partition index is read without partitions.\<close>

lemma parse_sidecar_truncated:
  assumes "arr_ok arr" "encodable arr" "length tail < 4"
  shows "parse_sidecar (sidecar_blocks arr @ tail) = Inr (arr\<lparr>model_partitions := []\<rparr>)"
  using parse_sidecar_blocks [OF assms(1,2), of tail] assms(3)
  by (force simp: decode_partitions_def reads_at_def)

subsection \<open>The shape of what is read\<close>

lemma rbind_Inr: "rbind r f = Inr y \<longleftrightarrow> (\<exists>x. r = Inr x \<and> f x = Inr y)"
  by (cases r) (simp_all add: rbind_def)

lemma read_words_length: "read_words data pos n = Inr (ws, p) \<Longrightarrow> length ws = n"
  by (induction n arbitrary: pos ws) (auto simp: rbind_Inr)

lemma decode_keys_length: "decode_keys data pos n = Inr (ks, p) \<Longrightarrow> length ks = n"
  by (induction n arbitrary: pos ks) (auto simp: rbind_Inr)

lemma check_bounds_Inr: "check_bounds data pos n ctx = Inr u \<longleftrightarrow> pos + n \<le> length data"
  by (auto simp: check_bounds_def)

lemma parse_blocks_shape:
  assumes "parse_blocks data kind stride cnt words pos = Inr arr"
  shows "arr_kind arr = kind \<and> arr_stride arr = stride \<and> arr_count arr = cnt
    \<and> length (tombstones arr) = words \<and> length (arr_keys arr) = cnt
    \<and> length (arr_storage arr) = cnt * stride \<and> cnt * stride \<le> length data"
  using assms
  by (auto simp: parse_blocks_def rbind_Inr ok_or_def checked_mul_def check_bounds_Inr Let_def
      read_words_length decode_keys_length split: option.splits if_splits)

lemma parse_sidecar_shape:
  assumes "parse_sidecar data = Inr arr"
  shows "take 4 data = vec_magic" "length (arr_keys arr) = arr_count arr"
    "length (arr_storage arr) = arr_count arr * arr_stride arr"
    "arr_count arr * arr_stride arr \<le> length data" "arr_count arr < 2 ^ 32" "arr_stride arr < 2 ^ 32"
    "length (tombstones arr) < 2 ^ 32" "kind_of_byte (data ! 6) = Some (arr_kind arr)"
proof -
  from assms obtain kind stride cnt words where p:
    "take 4 data = vec_magic" "kind_of_byte (data ! 6) = Some kind"
    "parse_blocks data kind (unat (stride :: u32)) (unat (cnt :: u32)) (unat (words :: u32)) 23 = Inr arr"
    by (auto simp: parse_sidecar_def rbind_Inr split: if_splits option.splits)
  then show "take 4 data = vec_magic" "length (arr_keys arr) = arr_count arr"
    "length (arr_storage arr) = arr_count arr * arr_stride arr"
    "arr_count arr * arr_stride arr \<le> length data" "arr_count arr < 2 ^ 32" "arr_stride arr < 2 ^ 32"
    "length (tombstones arr) < 2 ^ 32" "kind_of_byte (data ! 6) = Some (arr_kind arr)"
    using parse_blocks_shape [OF p(3)] unat_u32_less by auto
qed

end
