(* ===== verification/Resident_Store.thy ===== *)
theory Resident_Store
  imports Sidecar Brute_Force
begin

text \<open>
  The store behind the sidecar (\<open>ResidentArrayStore\<close> of \<open>engine/resident_store.rs\<close>):
  loading, rebuilding, eager and deferred appends, tombstones, flushing and compaction. A state is
  the store together with the sidecar file and the outcomes of the file-system calls still to come,
  so every I/O failure is a case of the model. An operation returns \<open>None\<close> for a panic and
  otherwise the new state with its \<open>Result\<close>. The compaction threshold and the tombstone ratio
  are rationals: with \<open>f64\<close> the comparison with the default threshold 1/4 has the same outcome
  for fewer than \<open>2 ^ 53\<close> slots.
\<close>

section \<open>State\<close>

datatype io_outcome =
    IoOk
  | CreateFailed string
  | WriteFailed string
  | FlushFailed string
  | RenameFailed string

record sidecar_file =
  disk :: "u8 list option"
  pending_io :: "io_outcome list"

record resident_array_store =
  sidecar_path :: string
  compaction_threshold :: rat
  store_array :: resident_vector_array
  sidecar_write_count :: nat
  is_dirty :: bool

type_synonym store_state = "resident_array_store \<times> sidecar_file"
type_synonym store_result = "(store_state \<times> (vectorkit_error + unit)) option"

definition store_new :: "string \<Rightarrow> vector_kind \<Rightarrow> nat \<Rightarrow> rat \<Rightarrow> resident_array_store" where
  "store_new path kind stride threshold =
     \<lparr>sidecar_path = path, compaction_threshold = threshold, store_array = arr_empty kind stride,
      sidecar_write_count = 0, is_dirty = False\<rparr>"

definition store_new_binary :: "string \<Rightarrow> resident_array_store" where
  "store_new_binary path = store_new path Binary 32 (1 / 4)"

section \<open>Writing and loading\<close>

definition next_io :: "sidecar_file \<Rightarrow> io_outcome \<times> sidecar_file" where
  "next_io w = (case pending_io w of [] \<Rightarrow> (IoOk, w) | x # xs \<Rightarrow> (x, w\<lparr>pending_io := xs\<rparr>))"

text \<open>
  The bytes go to a temporary file that is renamed over the sidecar at the end, so a failure of any
  of the four calls leaves the sidecar as it was.
\<close>

definition write_sidecar :: "resident_vector_array \<Rightarrow> string \<Rightarrow> sidecar_file
      \<Rightarrow> sidecar_file \<times> (vectorkit_error + unit)" where
  "write_sidecar arr path w =
     (let buf = sidecar_bytes arr
      in case next_io w of
           (CreateFailed e, w') \<Rightarrow> (w', Inl (StoreUnavailable (Fmt
             ''ResidentArrayStore.write_sidecar: could not create tmp file {:?}: {}'' [FText path, FText e])))
         | (WriteFailed e, w') \<Rightarrow> (w', Inl (StoreUnavailable (Fmt
             ''ResidentArrayStore.write_sidecar: write failed: {}'' [FText e])))
         | (FlushFailed e, w') \<Rightarrow> (w', Inl (StoreUnavailable (Fmt
             ''ResidentArrayStore.write_sidecar: flush failed: {}'' [FText e])))
         | (RenameFailed e, w') \<Rightarrow> (w', Inl (StoreUnavailable (Fmt
             ''ResidentArrayStore.write_sidecar: rename failed: {}'' [FText e])))
         | (IoOk, w') \<Rightarrow> (w'\<lparr>disk := Some buf\<rparr>, Inr ()))"

text \<open>\<open>fs::read\<close> of an existing file: its bytes or the given failure.\<close>

definition read_sidecar :: "string \<Rightarrow> string option \<Rightarrow> u8 list \<Rightarrow> vectorkit_error + resident_vector_array" where
  "read_sidecar path fault bytes =
     (case fault of
        Some e \<Rightarrow> Inl (StoreUnavailable
          (Fmt ''ResidentArrayStore.read_sidecar: could not read {:?}: {}'' [FText path, FText e]))
      | None \<Rightarrow> parse_sidecar bytes)"

definition load :: "string option \<Rightarrow> store_state \<Rightarrow> store_result" where
  "load fault = (\<lambda>(s, w).
     case disk w of
       None \<Rightarrow> Some ((s, w), Inr ())
     | Some bytes \<Rightarrow>
         (case read_sidecar (sidecar_path s) fault bytes of
            Inr loaded \<Rightarrow> Some ((s\<lparr>store_array := loaded, is_dirty := False\<rparr>, w), Inr ())
          | Inl e \<Rightarrow>
              Some ((s\<lparr>store_array := arr_empty (arr_kind (store_array s)) (arr_stride (store_array s)),
                       is_dirty := False\<rparr>, w), Inl e)))"

definition persist :: "resident_vector_array \<Rightarrow> store_state \<Rightarrow> store_result" where
  "persist new_array = (\<lambda>(s, w).
     case write_sidecar new_array (sidecar_path s) w of
       (w', Inl e) \<Rightarrow> Some ((s, w'), Inl e)
     | (w', Inr _) \<Rightarrow>
         Some ((s\<lparr>store_array := new_array, sidecar_write_count := sidecar_write_count s + 1,
                  is_dirty := False\<rparr>, w'), Inr ()))"

text \<open>Sequencing: a panic or an error ends the operation.\<close>

definition and_then :: "store_result \<Rightarrow> (store_state \<Rightarrow> store_result) \<Rightarrow> store_result" where
  "and_then r f =
     (case r of
        None \<Rightarrow> None
      | Some (st, Inl e) \<Rightarrow> Some (st, Inl e)
      | Some (st, Inr _) \<Rightarrow> f st)"

definition build_array :: "(vector_record_key \<times> u8 list) list \<Rightarrow> vector_kind \<Rightarrow> nat \<Rightarrow> resident_vector_array" where
  "build_array records kind stride =
     (let cnt = length records; packed = concat (map snd records); ks = map fst records;
          tombs = replicate ((cnt + 63) div 64) 0
      in \<lparr>arr_kind = kind, arr_stride = stride, arr_count = cnt, arr_storage = packed, arr_keys = ks,
          model_partitions = build_partitions ks tombs, tombstones = tombs\<rparr>)"

definition rebuild_from :: "(vector_record_key \<times> u8 list) list \<Rightarrow> store_state \<Rightarrow> store_result" where
  "rebuild_from records = (\<lambda>(s, w).
     persist (build_array records (arr_kind (store_array s)) (arr_stride (store_array s))) (s, w))"

section \<open>Compaction\<close>

definition tombstone_ratio :: "resident_array_store \<Rightarrow> rat" where
  "tombstone_ratio s =
     (let total = arr_count (store_array s)
      in if total = 0 then 0
         else of_nat (length (filter (is_tombstoned (store_array s)) [0..<total])) / of_nat total)"

text \<open>The loop that copies the live slots; \<open>None\<close> is the panic of an index out of range.\<close>

fun copy_live :: "resident_vector_array \<Rightarrow> nat list \<Rightarrow> (vector_record_key \<times> u8 list) list option" where
  "copy_live arr [] = Some []"
| "copy_live arr (slot_idx # slots) =
     (if is_tombstoned arr slot_idx then copy_live arr slots
      else (case vector_bytes arr slot_idx of
              None \<Rightarrow> None
            | Some bs \<Rightarrow>
                if length (arr_keys arr) \<le> slot_idx then None
                else map_option (\<lambda>rest. (arr_keys arr ! slot_idx, bs) # rest) (copy_live arr slots)))"

definition compact :: "store_state \<Rightarrow> store_result" where
  "compact = (\<lambda>(s, w).
     case copy_live (store_array s) [0..<arr_count (store_array s)] of
       None \<Rightarrow> None
     | Some live \<Rightarrow>
         persist (build_array (sort_key fst live) (arr_kind (store_array s)) (arr_stride (store_array s)))
           (s, w))"

text \<open>The check that ends every eager write.\<close>

definition auto_compact :: "store_state \<Rightarrow> store_result" where
  "auto_compact = (\<lambda>(s, w).
     if compaction_threshold s < tombstone_ratio s then compact (s, w) else Some ((s, w), Inr ()))"

section \<open>Appending, flushing and tombstones\<close>

definition appending_array :: "resident_vector_array \<Rightarrow> vector_record_key \<Rightarrow> u8 list \<Rightarrow> resident_vector_array" where
  "appending_array base key bs = with_slot base key bs (tombstones base)"

definition append_record :: "vector_record_key \<Rightarrow> u8 list \<Rightarrow> store_state \<Rightarrow> store_result" where
  "append_record key bytes = (\<lambda>(s, w).
     if length bytes \<noteq> arr_stride (store_array s)
     then Some ((s, w), Inl (InvalidPayload
            (Fmt ''ResidentArrayStore.append: bytes.len()={} != stride={}''
               [FNat (length bytes), FNat (arr_stride (store_array s))])))
     else and_then (persist (appending_array (store_array s) key bytes) (s, w)) auto_compact)"

definition append_deferred :: "vector_record_key \<Rightarrow> u8 list \<Rightarrow> store_state \<Rightarrow> store_result" where
  "append_deferred key bytes = (\<lambda>(s, w).
     if length bytes \<noteq> arr_stride (store_array s)
     then Some ((s, w), Inl (InvalidPayload
            (Fmt ''ResidentArrayStore.append_deferred: bytes.len()={} != stride={}''
               [FNat (length bytes), FNat (arr_stride (store_array s))])))
     else Some ((s\<lparr>store_array := appending_array (store_array s) key bytes, is_dirty := True\<rparr>, w), Inr ()))"

text \<open>The copying loop of \<open>append_batch\<close>, which stops at the first record of another width.\<close>

fun extend_all :: "nat \<Rightarrow> (vector_record_key \<times> u8 list) list \<Rightarrow> u8 list \<times> vector_record_key list
      \<Rightarrow> vectorkit_error + u8 list \<times> vector_record_key list" where
  "extend_all stride [] acc = Inr acc"
| "extend_all stride ((key, bytes) # records) (st, ks) =
     (if length bytes \<noteq> stride
      then Inl (InvalidPayload (Fmt ''ResidentArrayStore.append_batch: bytes.len()={} != stride={}''
             [FNat (length bytes), FNat stride]))
      else extend_all stride records (st @ bytes, ks @ [key]))"

definition batch_array :: "resident_vector_array \<Rightarrow> u8 list \<Rightarrow> vector_record_key list \<Rightarrow> resident_vector_array" where
  "batch_array base new_storage new_keys =
     (let new_count = length new_keys;
          new_tombstones = pad_words ((new_count + 63) div 64) (tombstones base)
      in \<lparr>arr_kind = arr_kind base, arr_stride = arr_stride base, arr_count = new_count,
          arr_storage = new_storage, arr_keys = new_keys,
          model_partitions = build_partitions new_keys new_tombstones, tombstones = new_tombstones\<rparr>)"

definition append_batch :: "(vector_record_key \<times> u8 list) list \<Rightarrow> store_state \<Rightarrow> store_result" where
  "append_batch records = (\<lambda>(s, w).
     if records = [] then Some ((s, w), Inr ())
     else (case extend_all (arr_stride (store_array s)) records
                  (arr_storage (store_array s), arr_keys (store_array s)) of
             Inl e \<Rightarrow> Some ((s, w), Inl e)
           | Inr (new_storage, new_keys) \<Rightarrow>
               and_then (persist (batch_array (store_array s) new_storage new_keys) (s, w)) auto_compact))"

definition flush :: "store_state \<Rightarrow> store_result" where
  "flush = (\<lambda>(s, w).
     if \<not> is_dirty s then Some ((s, w), Inr ())
     else and_then (persist (store_array s) (s, w)) auto_compact)"

definition tombstone :: "vector_record_key \<Rightarrow> store_state \<Rightarrow> store_result" where
  "tombstone key = (\<lambda>(s, w).
     let (new_tombstones, changed) = mark_slots (\<lambda>k'. k' = key) (store_array s)
     in if \<not> changed then Some ((s, w), Inr ())
        else and_then (persist (with_tombstones (store_array s) new_tombstones) (s, w)) auto_compact)"

definition tombstone_deferred :: "vector_record_key set \<Rightarrow> store_state \<Rightarrow> store_result" where
  "tombstone_deferred ks = (\<lambda>(s, w).
     if ks = {} then Some ((s, w), Inr ())
     else
       let (new_tombstones, changed) = mark_slots (\<lambda>k'. k' \<in> ks) (store_array s)
       in if \<not> changed then Some ((s, w), Inr ())
          else Some ((s\<lparr>store_array := with_tombstones (store_array s) new_tombstones, is_dirty := True\<rparr>, w),
                 Inr ()))"

definition snapshot :: "resident_array_store \<Rightarrow> resident_vector_array" where
  "snapshot s = store_array s"

section \<open>The arrays the operations build\<close>

lemma build_array_ok:
  assumes "\<forall>(key, bs) \<in> set records. length bs = stride"
  shows "arr_ok (build_array records kind stride)" and "live_records (build_array records kind stride) = records"
proof -
  note pa = packed_array [OF _ _ refl refl, of "map snd records" "map fst records" stride kind]
  have "length (map snd records) = length (map fst records)" "\<forall>bs \<in> set (map snd records). length bs = stride"
    using assms by auto
  note pa = pa [OF this]
  show "arr_ok (build_array records kind stride)"
    using pa(1) by (simp add: build_array_def Let_def)
  show "live_records (build_array records kind stride) = records"
    using pa(2) by (simp add: build_array_def Let_def zip_map_fst_snd)
qed

lemma build_array_simps [simp]:
  "arr_kind (build_array records kind stride) = kind"
  "arr_stride (build_array records kind stride) = stride"
  "arr_count (build_array records kind stride) = length records"
  "arr_keys (build_array records kind stride) = map fst records"
  by (simp_all add: build_array_def Let_def)

lemma is_tombstoned_build_array [simp]: "\<not> is_tombstoned (build_array records kind stride) i"
  by (simp add: build_array_def Let_def is_tombstoned_def)

lemma copy_live_eq:
  assumes "arr_ok arr" "\<forall>i \<in> set slots. i < arr_count arr"
  shows "copy_live arr slots =
    Some (map (\<lambda>i. (arr_keys arr ! i, slot_bytes arr i)) (filter (\<lambda>i. \<not> is_tombstoned arr i) slots))"
  using assms(2)
proof (induction slots)
  case (Cons i slots)
  then have "i < arr_count arr" by simp
  then show ?case
    using Cons vector_bytes_slot [OF assms(1)] assms(1) by (simp add: arr_ok_def)
qed simp

lemma copy_live_all: "arr_ok arr \<Longrightarrow> copy_live arr [0..<arr_count arr] = Some (live_records arr)"
  by (simp add: copy_live_eq live_records_def live_slots_def)

lemma length_slot_bytes: "arr_ok arr \<Longrightarrow> i < arr_count arr \<Longrightarrow> length (slot_bytes arr i) = arr_stride arr"
proof -
  assume "arr_ok arr" "i < arr_count arr"
  then have "i * arr_stride arr + arr_stride arr \<le> length (arr_storage arr)"
    using mult_le_mono1 [of "Suc i" "arr_count arr" "arr_stride arr"] by (simp add: arr_ok_def)
  then show ?thesis by (simp add: slot_bytes_def)
qed

lemma live_records_width: "arr_ok arr \<Longrightarrow> \<forall>(key, bs) \<in> set (live_records arr). length bs = arr_stride arr"
  by (auto simp: live_records_def set_live_slots length_slot_bytes)

lemma compacted_ok:
  assumes "arr_ok arr"
  shows "arr_ok (build_array (sort_key fst (live_records arr)) (arr_kind arr) (arr_stride arr))"
    and "live_records (build_array (sort_key fst (live_records arr)) (arr_kind arr) (arr_stride arr))
      = sort_key fst (live_records arr)"
  using build_array_ok [of "sort_key fst (live_records arr)" "arr_stride arr" "arr_kind arr"]
    live_records_width [OF assms] by simp_all

lemma compact_eq:
  assumes "arr_ok (store_array s)"
  shows "compact (s, w) = persist (build_array (sort_key fst (live_records (store_array s)))
    (arr_kind (store_array s)) (arr_stride (store_array s))) (s, w)"
  by (simp add: compact_def copy_live_all [OF assms])

lemma appending_array_ok:
  assumes "arr_ok arr" "length bs = arr_stride arr"
  shows "arr_ok (appending_array arr key bs)"
    and "live_records (appending_array arr key bs) = live_records arr @ [(key, bs)]"
  using arr_ok_appended [OF assms refl, of key] assms(1) with_tombstones_same [OF assms(1)]
  by (auto simp: appending_array_def arr_ok_def is_tombstoned_def)

subsection \<open>Batches are sequences of appends\<close>

lemma extend_all_eq:
  "extend_all stride records (st, ks) =
     (case find (\<lambda>(key, bs). length bs \<noteq> stride) records of
        None \<Rightarrow> Inr (st @ concat (map snd records), ks @ map fst records)
      | Some (key, bs) \<Rightarrow>
          Inl (InvalidPayload (Fmt ''ResidentArrayStore.append_batch: bytes.len()={} != stride={}''
            [FNat (length bs), FNat stride])))"
  by (induction records arbitrary: st ks) (auto split: option.splits)

lemma extend_all_ok:
  "\<forall>(key, bs) \<in> set records. length bs = stride \<Longrightarrow>
    extend_all stride records (st, ks) = Inr (st @ concat (map snd records), ks @ map fst records)"
  by (induction records arbitrary: st ks) auto

lemma pad_words_pad_words: "m \<le> n \<Longrightarrow> pad_words n (pad_words m ws) = pad_words n ws"
  by (auto simp: pad_words_def max_def replicate_add [symmetric])

lemma batch_array_appends:
  assumes "arr_ok arr"
  shows "batch_array arr (arr_storage arr @ concat (map snd records)) (arr_keys arr @ map fst records)
    = foldl (\<lambda>a (key, bs). appending_array a key bs) arr records"
proof (induction records rule: rev_induct)
  case Nil
  show ?case using assms by (simp add: batch_array_def Let_def arr_ok_def pad_words_def)
next
  case (snoc r records)
  obtain key bs where r: "r = (key, bs)" by (cases r)
  let ?n = "length (arr_keys arr @ map fst records)"
  have le: "(?n + 63) div 64 \<le> (Suc ?n + 63) div 64" by (rule div_le_mono) simp
  show ?case
    using pad_words_pad_words [OF le] snoc [symmetric]
    by (simp add: r appending_array_def with_slot_def batch_array_def Let_def)
qed

lemma appends_ok:
  assumes "arr_ok arr" "\<forall>(key, bs) \<in> set records. length bs = arr_stride arr"
  shows "arr_ok (foldl (\<lambda>a (key, bs). appending_array a key bs) arr records)
    \<and> live_records (foldl (\<lambda>a (key, bs). appending_array a key bs) arr records) = live_records arr @ records"
  using assms
proof (induction records arbitrary: arr)
  case (Cons r records)
  obtain key bs where r: "r = (key, bs)" by (cases r)
  have len: "length bs = arr_stride arr" using Cons.prems(2) r by simp
  have "arr_stride (appending_array arr key bs) = arr_stride arr" by (simp add: appending_array_def)
  then show ?case
    using Cons.IH [of "appending_array arr key bs"] appending_array_ok [OF Cons.prems(1) len, of key]
      Cons.prems(2) r by simp
qed simp

subsection \<open>Writes\<close>

lemma write_sidecar_cases:
  obtains (ok) w' where "write_sidecar arr path w = (w'\<lparr>disk := Some (sidecar_bytes arr)\<rparr>, Inr ())"
  | (fault) w' e where "write_sidecar arr path w = (w', Inl e)" "disk w' = disk w"
  by (cases "pending_io w"; cases "fst (next_io w)")
    (auto simp: write_sidecar_def next_io_def Let_def)

lemma persist_cases:
  obtains (ok) w' where "persist arr (s, w) =
      Some ((s\<lparr>store_array := arr, sidecar_write_count := sidecar_write_count s + 1, is_dirty := False\<rparr>,
             w'\<lparr>disk := Some (sidecar_bytes arr)\<rparr>), Inr ())"
  | (fault) w' e where "persist arr (s, w) = Some ((s, w'), Inl e)" "disk w' = disk w"
proof -
  show ?thesis
  proof (cases rule: write_sidecar_cases [of arr "sidecar_path s" w])
    case (ok w')
    then show ?thesis using that(1) [of w'] by (simp add: persist_def)
  next
    case (fault w' e)
    then show ?thesis using that(2) [of w' e] by (simp add: persist_def)
  qed
qed

text \<open>
  The relation between the array before an eager write and the store after it: the write failed
  and nothing changed, or the store holds the new array, or it holds its compacted form.
\<close>

definition compacted :: "resident_vector_array \<Rightarrow> resident_vector_array" where
  "compacted arr = build_array (sort_key fst (live_records arr)) (arr_kind arr) (arr_stride arr)"

definition eager_outcome :: "resident_vector_array \<Rightarrow> store_state \<Rightarrow> store_state
      \<Rightarrow> vectorkit_error + unit \<Rightarrow> bool" where
  "eager_outcome arr st st' r \<longleftrightarrow>
     compaction_threshold (fst st') = compaction_threshold (fst st)
     \<and> sidecar_write_count (fst st') \<le> sidecar_write_count (fst st) + 2
     \<and> (store_array (fst st') = store_array (fst st) \<and> is_dirty (fst st') = is_dirty (fst st)
          \<and> disk (snd st') = disk (snd st) \<and> isl r
        \<or> (store_array (fst st') = arr \<or> store_array (fst st') = compacted arr \<and> \<not> isl r)
          \<and> \<not> is_dirty (fst st') \<and> disk (snd st') = Some (sidecar_bytes (store_array (fst st')))
          \<and> (\<not> isl r \<longrightarrow> 0 \<le> compaction_threshold (fst st') \<longrightarrow>
               tombstone_ratio (fst st') \<le> compaction_threshold (fst st')))"

lemma tombstone_ratio_compacted:
  "store_array s = compacted arr \<Longrightarrow> tombstone_ratio s = 0"
  by (simp add: tombstone_ratio_def compacted_def Let_def)

lemma eager_write:
  assumes ok: "arr_ok arr"
  shows "\<exists>st' r. and_then (persist arr st) auto_compact = Some (st', r) \<and> eager_outcome arr st st' r"
proof -
  obtain s w where st: "st = (s, w)" by (cases st)
  show ?thesis
  proof (cases rule: persist_cases [of arr s w])
    case (fault w' e)
    then show ?thesis by (simp add: st and_then_def eager_outcome_def)
  next
    case p: (ok w')
    let ?s = "s\<lparr>store_array := arr, sidecar_write_count := sidecar_write_count s + 1, is_dirty := False\<rparr>"
    let ?w = "w'\<lparr>disk := Some (sidecar_bytes arr)\<rparr>"
    have run: "and_then (persist arr st) auto_compact = auto_compact (?s, ?w)"
      using p by (simp add: st and_then_def)
    show ?thesis
    proof (cases "compaction_threshold s < tombstone_ratio ?s")
      case False
      then show ?thesis unfolding run by (simp add: auto_compact_def st eager_outcome_def)
    next
      case True
      then have c: "auto_compact (?s, ?w) = persist (compacted arr) (?s, ?w)"
        using compact_eq [of ?s] ok by (simp add: auto_compact_def compacted_def)
      show ?thesis
      proof (cases rule: persist_cases [of "compacted arr" ?s ?w])
        case (fault w' e)
        then show ?thesis unfolding run c by (simp add: st eager_outcome_def)
      next
        case (ok w')
        then show ?thesis
          unfolding run c by (simp add: st eager_outcome_def tombstone_ratio_compacted [of _ arr])
      qed
    qed
  qed
qed

section \<open>Histories\<close>

text \<open>
  The calls of a client that stays within the 32-bit fields of the format: a new record has UTF-8
  strings and there is a slot number left for it; a rebuild passes records of the store's width.
  I/O faults are in the pending outcomes of the state.
\<close>

inductive store_step :: "store_state \<Rightarrow> store_state \<Rightarrow> bool" where
  step_load: "load None st = Some (st', r) \<Longrightarrow> store_step st st'"
| step_rebuild: "\<forall>(key, bs) \<in> set records. key_ok key \<and> length bs = arr_stride (store_array (fst st)) \<Longrightarrow>
    length records < 2 ^ 32 \<Longrightarrow> rebuild_from records st = Some (st', r) \<Longrightarrow> store_step st st'"
| step_append: "key_ok key \<Longrightarrow> arr_count (store_array (fst st)) + 1 < 2 ^ 32 \<Longrightarrow>
    append_record key bs st = Some (st', r) \<Longrightarrow> store_step st st'"
| step_append_deferred: "key_ok key \<Longrightarrow> arr_count (store_array (fst st)) + 1 < 2 ^ 32 \<Longrightarrow>
    append_deferred key bs st = Some (st', r) \<Longrightarrow> store_step st st'"
| step_append_batch: "\<forall>(key, bs) \<in> set records. key_ok key \<Longrightarrow>
    arr_count (store_array (fst st)) + length records < 2 ^ 32 \<Longrightarrow>
    append_batch records st = Some (st', r) \<Longrightarrow> store_step st st'"
| step_flush: "flush st = Some (st', r) \<Longrightarrow> store_step st st'"
| step_tombstone: "tombstone key st = Some (st', r) \<Longrightarrow> store_step st st'"
| step_tombstone_deferred: "tombstone_deferred ks st = Some (st', r) \<Longrightarrow> store_step st st'"
| step_compact: "compact st = Some (st', r) \<Longrightarrow> store_step st st'"

definition store_inv :: "store_state \<Rightarrow> bool" where
  "store_inv st \<longleftrightarrow>
     arr_ok (store_array (fst st)) \<and> encodable (store_array (fst st))
     \<and> (\<forall>bs. disk (snd st) = Some bs \<longrightarrow> (\<exists>a. arr_ok a \<and> encodable a \<and> bs = sidecar_bytes a))
     \<and> (\<not> is_dirty (fst st) \<longrightarrow>
          disk (snd st) = Some (sidecar_bytes (store_array (fst st)))
          \<or> disk (snd st) = None \<and> arr_count (store_array (fst st)) = 0)"

lemma compacted_arr_ok: "arr_ok arr \<Longrightarrow> arr_ok (compacted arr)"
  by (simp add: compacted_def compacted_ok)

lemma live_records_compacted: "arr_ok arr \<Longrightarrow> live_records (compacted arr) = sort_key fst (live_records arr)"
  by (simp add: compacted_def compacted_ok)

lemma encodable_compacted: "arr_ok arr \<Longrightarrow> encodable arr \<Longrightarrow> encodable (compacted arr)"
proof -
  assume ok: "arr_ok arr" and enc: "encodable arr"
  have "length (live_records arr) \<le> arr_count arr"
    using live_count_le [of arr] by (simp add: length_live_records)
  moreover have "fst ` set (live_records arr) \<subseteq> set (arr_keys arr)"
    using ok by (auto simp: live_records_def set_live_slots arr_ok_def)
  ultimately show ?thesis using enc by (auto simp: encodable_def compacted_def)
qed

lemma encodable_appending:
  "encodable arr \<Longrightarrow> arr_ok arr \<Longrightarrow> key_ok key \<Longrightarrow> arr_count arr + 1 < 2 ^ 32 \<Longrightarrow>
    encodable (appending_array arr key bs)"
  by (auto simp: encodable_def appending_array_def arr_ok_def)

lemma encodable_batch:
  "encodable arr \<Longrightarrow> arr_ok arr \<Longrightarrow> \<forall>(key, bs) \<in> set records. key_ok key \<Longrightarrow>
    arr_count arr + length records < 2 ^ 32 \<Longrightarrow>
    encodable (batch_array arr st (arr_keys arr @ map fst records))"
  by (auto simp: encodable_def batch_array_def Let_def arr_ok_def)

lemma encodable_build:
  "\<forall>(key, bs) \<in> set records. key_ok key \<Longrightarrow> length records < 2 ^ 32 \<Longrightarrow> stride < 2 ^ 32 \<Longrightarrow>
    encodable (build_array records kind stride)"
  by (auto simp: encodable_def)

lemma eager_outcome_inv:
  assumes "store_inv st" "arr_ok arr" "encodable arr" "eager_outcome arr st st' r"
  shows "store_inv st'"
  using assms compacted_arr_ok [OF assms(2)] encodable_compacted [OF assms(2,3)]
  unfolding eager_outcome_def store_inv_def by fastforce

lemma persist_outcome:
  assumes "persist arr st = Some (st', r)" "\<And>i. \<not> is_tombstoned arr i"
  shows "eager_outcome arr st st' r"
proof -
  obtain s w where st: "st = (s, w)" by (cases st)
  have ratio: "store_array s' = arr \<Longrightarrow> tombstone_ratio s' = 0" for s'
    using assms(2) by (simp add: tombstone_ratio_def Let_def)
  show ?thesis
    using assms(1) unfolding st
    by (cases rule: persist_cases [of arr s w]) (auto simp: eager_outcome_def ratio)
qed

lemma compact_outcome:
  assumes "arr_ok (store_array (fst st))" "compact st = Some (st', r)"
  shows "eager_outcome (compacted (store_array (fst st))) st st' r"
proof -
  obtain s w where st: "st = (s, w)" by (cases st)
  have "persist (compacted (store_array s)) (s, w) = Some (st', r)"
    using assms compact_eq [of s w] by (simp add: st compacted_def)
  then show ?thesis unfolding st by (simp add: persist_outcome compacted_def)
qed

lemma append_outcome:
  assumes "arr_ok (store_array s)" "length bs = arr_stride (store_array s)"
  shows "\<exists>st' r. append_record key bs (s, w) = Some (st', r)
    \<and> eager_outcome (appending_array (store_array s) key bs) (s, w) st' r"
  using eager_write [OF appending_array_ok(1) [OF assms, of key], of "(s, w)"] assms(2)
  by (simp add: append_record_def)

lemma batch_outcome:
  assumes "arr_ok (store_array s)" "\<forall>(key, bs) \<in> set records. length bs = arr_stride (store_array s)"
    and "records \<noteq> []"
  shows "\<exists>st' r. append_batch records (s, w) = Some (st', r)
    \<and> eager_outcome (foldl (\<lambda>a (key, bs). appending_array a key bs) (store_array s) records) (s, w) st' r"
  using eager_write [OF appends_ok [OF assms(1,2), THEN conjunct1], of "(s, w)"] assms(3)
  by (simp add: append_batch_def extend_all_ok [OF assms(2)] batch_array_appends [OF assms(1)])

lemma tombstone_outcome:
  assumes ok: "arr_ok (store_array s)" and key: "key \<in> set (arr_keys (store_array s))"
  shows "\<exists>ws st' r. tombstone key (s, w) = Some (st', r)
    \<and> mark_slots (\<lambda>k'. k' = key) (store_array s) = (ws, True)
    \<and> eager_outcome (with_tombstones (store_array s) ws) (s, w) st' r"
proof -
  obtain ws changed where m: "mark_slots (\<lambda>k'. k' = key) (store_array s) = (ws, changed)"
    by (rule prod.exhaust)
  then have "changed" using mark_slots(3) [OF ok m] key by simp
  then show ?thesis
    using eager_write [OF arr_ok_marked(1) [OF ok m], of "(s, w)"] m by (simp add: tombstone_def)
qed

lemma tombstone_absent:
  assumes ok: "arr_ok (store_array s)" and key: "key \<notin> set (arr_keys (store_array s))"
  shows "tombstone key (s, w) = Some ((s, w), Inr ())"
  using mark_slots(3) [OF ok] key
  by (cases "mark_slots (\<lambda>k'. k' = key) (store_array s)") (auto simp: tombstone_def)

lemma flush_outcome:
  assumes "arr_ok (store_array s)" "is_dirty s"
  shows "\<exists>st' r. flush (s, w) = Some (st', r) \<and> eager_outcome (store_array s) (s, w) st' r"
  using eager_write [OF assms(1), of "(s, w)"] assms(2) by (simp add: flush_def)

lemma encodable_with_tombstones [simp]: "encodable (with_tombstones arr ws) \<longleftrightarrow> encodable arr"
  by (simp add: encodable_def)

lemma load_inv:
  assumes "store_inv st" "load None st = Some (st', r)"
  shows "store_inv st'"
proof (cases "disk (snd st)")
  case None
  then show ?thesis using assms by (auto simp: load_def split: prod.splits)
next
  case (Some bs)
  then obtain a where a: "arr_ok a" "encodable a" "bs = sidecar_bytes a"
    using assms(1) by (auto simp: store_inv_def)
  obtain s w where st: "st = (s, w)" by (cases st)
  have "st' = (s\<lparr>store_array := a, is_dirty := False\<rparr>, w)"
    using assms(2) Some a by (simp add: st load_def read_sidecar_def parse_sidecar_bytes)
  then show ?thesis using a Some by (auto simp: store_inv_def st)
qed

lemma deferred_inv:
  assumes "store_inv (s, w)" "arr_ok arr" "encodable arr"
  shows "store_inv (s\<lparr>store_array := arr, is_dirty := True\<rparr>, w)"
  using assms by (simp add: store_inv_def)

lemma store_inv_array:
  assumes "store_inv (s, w)"
  shows "arr_ok (store_array s)" "encodable (store_array s)" "arr_stride (store_array s) < 2 ^ 32"
  using assms by (simp_all add: store_inv_def encodable_def)

lemma rebuild_inv:
  assumes inv: "store_inv (s, w)" and "rebuild_from records (s, w) = Some (st', r)" "length records < 2 ^ 32"
    and "\<forall>(key, bs) \<in> set records. key_ok key \<and> length bs = arr_stride (store_array s)"
  shows "store_inv st'"
proof -
  let ?a = "build_array records (arr_kind (store_array s)) (arr_stride (store_array s))"
  have "\<forall>(key, bs) \<in> set records. key_ok key" "\<forall>(key, bs) \<in> set records. length bs = arr_stride (store_array s)"
    using assms(4) by auto
  then have "arr_ok ?a" "encodable ?a"
    using build_array_ok(1) encodable_build assms(3) store_inv_array(3) [OF inv] by blast+
  moreover have "eager_outcome ?a (s, w) st' r"
    using assms(2) by (intro persist_outcome) (simp_all add: rebuild_from_def)
  ultimately show ?thesis using eager_outcome_inv inv by blast
qed

lemma append_inv:
  assumes inv: "store_inv (s, w)" and "append_record key bs (s, w) = Some (st', r)" "key_ok key"
    and "arr_count (store_array s) + 1 < 2 ^ 32"
  shows "store_inv st'"
proof (cases "length bs = arr_stride (store_array s)")
  case True
  note ok = store_inv_array [OF inv]
  have "eager_outcome (appending_array (store_array s) key bs) (s, w) st' r"
    using append_outcome [OF ok(1) True, of key w] assms(2) by auto
  then show ?thesis
    using eager_outcome_inv [OF inv appending_array_ok(1) [OF ok(1) True]]
      encodable_appending [OF ok(2,1) assms(3,4)] by blast
next
  case False
  then show ?thesis using assms(2) inv by (simp add: append_record_def)
qed

lemma append_deferred_inv:
  assumes inv: "store_inv (s, w)" and "append_deferred key bs (s, w) = Some (st', r)" "key_ok key"
    and "arr_count (store_array s) + 1 < 2 ^ 32"
  shows "store_inv st'"
proof (cases "length bs = arr_stride (store_array s)")
  case True
  note ok = store_inv_array [OF inv]
  show ?thesis
    using assms(2) True deferred_inv [OF inv appending_array_ok(1) [OF ok(1) True, of key]
        encodable_appending [OF ok(2,1) assms(3,4)]]
    by (auto simp: append_deferred_def)
next
  case False
  then show ?thesis using assms(2) inv by (simp add: append_deferred_def)
qed

lemma append_batch_inv:
  assumes inv: "store_inv (s, w)" and batch: "append_batch records (s, w) = Some (st', r)"
    and "\<forall>(key, bs) \<in> set records. key_ok key" "arr_count (store_array s) + length records < 2 ^ 32"
  shows "store_inv st'"
proof (cases "records \<noteq> [] \<and> (\<forall>(key, bs) \<in> set records. length bs = arr_stride (store_array s))")
  case True
  note ok = store_inv_array [OF inv]
  let ?a = "foldl (\<lambda>a (key, bs). appending_array a key bs) (store_array s) records"
  have "eager_outcome ?a (s, w) st' r"
    using batch_outcome [OF ok(1), of records w] True batch by auto
  moreover have "encodable ?a"
    unfolding batch_array_appends [OF ok(1), symmetric] using encodable_batch [OF ok(2,1) assms(3,4)] .
  ultimately show ?thesis
    using eager_outcome_inv [OF inv] appends_ok [OF ok(1)] True by blast
next
  case False
  then have "records = [] \<or> find (\<lambda>(key, bs). length bs \<noteq> arr_stride (store_array s)) records \<noteq> None"
    by (auto simp: find_None_iff)
  then show ?thesis
    using batch inv by (auto simp: append_batch_def extend_all_eq split: if_splits)
qed

lemma flush_inv:
  assumes inv: "store_inv (s, w)" and "flush (s, w) = Some (st', r)"
  shows "store_inv st'"
proof (cases "is_dirty s")
  case True
  note ok = store_inv_array [OF inv]
  show ?thesis
    using flush_outcome [OF ok(1) True, of w] eager_outcome_inv [OF inv ok(1,2)] assms(2) by auto
qed (use assms in \<open>simp add: flush_def\<close>)

lemma tombstone_inv:
  assumes inv: "store_inv (s, w)" and "tombstone key (s, w) = Some (st', r)"
  shows "store_inv st'"
proof (cases "key \<in> set (arr_keys (store_array s))")
  case True
  note ok = store_inv_array [OF inv]
  obtain ws where "mark_slots (\<lambda>k'. k' = key) (store_array s) = (ws, True)"
    "eager_outcome (with_tombstones (store_array s) ws) (s, w) st' r"
    using tombstone_outcome [OF ok(1) True, of w] assms(2) by auto
  then show ?thesis
    using eager_outcome_inv [OF inv arr_ok_marked(1) [OF ok(1)]] ok(2) by simp
next
  case False
  then show ?thesis using tombstone_absent [OF store_inv_array(1) [OF inv] False] assms by simp
qed

lemma tombstone_deferred_inv:
  assumes inv: "store_inv (s, w)" and "tombstone_deferred ks (s, w) = Some (st', r)"
  shows "store_inv st'"
proof -
  note ok = store_inv_array [OF inv]
  obtain ws changed where m: "mark_slots (\<lambda>k'. k' \<in> ks) (store_array s) = (ws, changed)"
    by (rule prod.exhaust)
  show ?thesis
    using assms(2) m inv deferred_inv [OF inv arr_ok_marked(1) [OF ok(1) m]] ok(2)
    by (auto simp: tombstone_deferred_def split: if_splits)
qed

lemma compact_inv:
  assumes inv: "store_inv (s, w)" and "compact (s, w) = Some (st', r)"
  shows "store_inv st'"
  using compact_outcome [of "(s, w)" st' r] assms(2) store_inv_array [OF inv]
    eager_outcome_inv [OF inv compacted_arr_ok encodable_compacted] by simp

lemma store_step_inv: "store_step st st' \<Longrightarrow> store_inv st \<Longrightarrow> store_inv st'"
proof (induction rule: store_step.induct)
  case (step_load st st' r)
  then show ?case using load_inv by blast
next
  case (step_rebuild records st st' r)
  then show ?case using rebuild_inv [of "fst st" "snd st"] by auto
next
  case (step_append key st bs st' r)
  then show ?case using append_inv [of "fst st" "snd st"] by auto
next
  case (step_append_deferred key st bs st' r)
  then show ?case using append_deferred_inv [of "fst st" "snd st"] by auto
next
  case (step_append_batch records st st' r)
  then show ?case using append_batch_inv [of "fst st" "snd st"] by auto
next
  case (step_flush st st' r)
  then show ?case using flush_inv [of "fst st" "snd st"] by auto
next
  case (step_tombstone key st st' r)
  then show ?case using tombstone_inv [of "fst st" "snd st"] by auto
next
  case (step_tombstone_deferred ks st st' r)
  then show ?case using tombstone_deferred_inv [of "fst st" "snd st"] by auto
next
  case (step_compact st st' r)
  then show ?case using compact_inv [of "fst st" "snd st"] by auto
qed

lemma store_new_inv:
  "stride < 2 ^ 32 \<Longrightarrow> store_inv (store_new path kind stride threshold, \<lparr>disk = None, pending_io = io\<rparr>)"
  by (simp add: store_inv_def store_new_def arr_empty_ok) (simp add: arr_empty_def encodable_def)

lemma store_history_inv: "store_step\<^sup>*\<^sup>* st st' \<Longrightarrow> store_inv st \<Longrightarrow> store_inv st'"
  by (induction rule: rtranclp_induct) (auto intro: store_step_inv)

lemma clean_load:
  assumes "store_inv (s, w)" "\<not> is_dirty s"
  shows "load None (s, w) = Some ((s, w), Inr ())"
  using assms by (auto simp: store_inv_def load_def read_sidecar_def parse_sidecar_bytes)

end
