(* ===== verification/Max_Sim.thy ===== *)
theory Max_Sim
  imports Vector_Types
begin

text \<open>
  The late-interaction scorer (\<open>engine/max_sim.rs\<close>). A document map (\<open>BTreeMap\<close>) is
  its list of entries in ascending key order. The total is a \<open>u32\<close> that wraps, as in a release
  build; below \<open>2 ^ 24\<close> query tokens it is the integer sum of the definition.
\<close>

section \<open>The scorer\<close>

record max_sim_hit =
  ms_item_id :: string
  ms_score :: u32

definition compute_max_sim :: "(engram \<Rightarrow> engram \<Rightarrow> u32) \<Rightarrow> engram list \<Rightarrow> engram list \<Rightarrow> u32" where
  "compute_max_sim distance query_tokens doc_tokens =
     (if query_tokens = [] \<or> doc_tokens = [] then 0
      else foldl (\<lambda>total_score q. total_score + (256 - min_list (map (distance q) doc_tokens)))
             0 query_tokens)"

definition score :: "(engram \<Rightarrow> engram \<Rightarrow> u32) \<Rightarrow> engram list \<Rightarrow> (string \<times> engram list) list \<Rightarrow> nat
      \<Rightarrow> max_sim_hit list" where
  "score distance query_tokens documents k =
     (if k = 0 \<or> documents = [] then []
      else
        let results = map (\<lambda>(iid, doc_tokens).
              \<lparr>ms_item_id = iid, ms_score = compute_max_sim distance query_tokens doc_tokens\<rparr>) documents
        in take k (sort_key (\<lambda>h. (- int (unat (ms_score h)), ms_item_id h)) results))"

text \<open>The definition of the score: the sum of the best similarity of every query token.\<close>

definition max_sim :: "engram list \<Rightarrow> engram list \<Rightarrow> nat" where
  "max_sim Q D = (if D = [] then 0 else (\<Sum>q\<leftarrow>Q. 256 - Min ((\<lambda>d. hamming q d) ` set D)))"

definition ranks_before :: "max_sim_hit \<Rightarrow> max_sim_hit \<Rightarrow> bool" where
  "ranks_before a b \<longleftrightarrow>
     ms_score b < ms_score a \<or> ms_score a = ms_score b \<and> ms_item_id a \<le> ms_item_id b"

section \<open>Values and bounds\<close>

lemma min_list_unat:
  "xs \<noteq> [] \<Longrightarrow> unat (min_list xs) = Min (unat ` set (xs :: u32 list))"
  by (simp add: min_list_Min mono_Min_commute mono_def word_le_nat_alt)

lemma max_sim_le: "max_sim Q D \<le> 256 * length Q"
proof -
  have "(\<Sum>q\<leftarrow>Q. 256 - f q) \<le> 256 * length Q" for f :: "engram \<Rightarrow> nat"
    by (induction Q) auto
  then show ?thesis by (simp add: max_sim_def)
qed

lemma of_nat_total:
  "foldl (\<lambda>t q. t + word_of_nat (f q)) (word_of_nat a) Q = (word_of_nat (a + (\<Sum>q\<leftarrow>Q. f q)) :: u32)"
  by (induction Q arbitrary: a) (simp_all add: algebra_simps flip: of_nat_add)

context engram_lib
begin

lemma token_similarity:
  assumes "D \<noteq> []"
  shows "256 - min_list (map (distance q) D) = word_of_nat (256 - Min (hamming q ` set D))"
proof -
  let ?m = "min_list (map (distance q) D)"
  have m: "unat ?m = Min (hamming q ` set D)"
    using assms by (simp add: min_list_unat image_image distance_popcount)
  obtain d where "d \<in> set D" using assms by (cases D) auto
  then have "Min (hamming q ` set D) \<le> hamming q d" by (intro Min_le) auto
  then have le: "unat ?m \<le> 256" using m hamming_le_256 [of q d] by simp
  have "(256 :: u32) - ?m = word_of_nat 256 - word_of_nat (unat ?m)" by simp
  also have "\<dots> = word_of_nat (256 - unat ?m)" using le by (simp only: of_nat_diff)
  finally show ?thesis by (simp add: m)
qed

lemma compute_max_sim_word: "compute_max_sim distance Q D = word_of_nat (max_sim Q D)"
proof (cases "Q = [] \<or> D = []")
  case True
  then show ?thesis by (auto simp: compute_max_sim_def max_sim_def)
next
  case False
  then show ?thesis
    using of_nat_total [of "\<lambda>q. 256 - Min (hamming q ` set D)" 0 Q]
    by (simp add: compute_max_sim_def max_sim_def token_similarity)
qed

lemma compute_max_sim_value:
  assumes "length Q < 2 ^ 24"
  shows "unat (compute_max_sim distance Q D) = max_sim Q D"
proof -
  have "max_sim Q D < 2 ^ 32" using max_sim_le [of Q D] assms by simp
  then show ?thesis by (simp add: compute_max_sim_word unat_of_nat)
qed

end

section \<open>Ranking\<close>

lemma sort_key_ranks:
  "ranks_before a b \<longleftrightarrow>
     (- int (unat (ms_score a)), ms_item_id a) \<le> (- int (unat (ms_score b)), ms_item_id b)"
  by (auto simp: ranks_before_def less_eq_prod_def word_less_def word_uint_eq_iff)

lemma score_ranking:
  assumes "hits = score distance Q docs k"
    and "all = map (\<lambda>(iid, D). \<lparr>ms_item_id = iid, ms_score = compute_max_sim distance Q D\<rparr>) docs"
  shows "length hits = min k (length docs)" "sorted_wrt ranks_before hits"
    and "\<exists>rest. mset hits + mset rest = mset all \<and> (\<forall>h \<in> set hits. \<forall>r \<in> set rest. ranks_before h r)"
proof -
  let ?f = "\<lambda>h. (- int (unat (ms_score h)), ms_item_id h)"
  let ?s = "sort_key ?f all"
  have hits: "hits = take k ?s"
    using assms by (auto simp: score_def Let_def)
  have sw: "sorted_wrt ranks_before ?s"
    unfolding sort_key_ranks [abs_def] by (rule sorted_sort_key [of ?f all, unfolded sorted_map])
  show "length hits = min k (length docs)" using hits assms(2) by simp
  show "sorted_wrt ranks_before hits" unfolding hits using sw by (rule sorted_wrt_take)
  have "mset (take k ?s) + mset (drop k ?s) = mset all"
    by (metis append_take_drop_id mset_append mset_sort)
  moreover have "\<forall>h \<in> set (take k ?s). \<forall>r \<in> set (drop k ?s). ranks_before h r"
    using sw sorted_wrt_append [of ranks_before "take k ?s" "drop k ?s"] by simp
  ultimately show "\<exists>rest. mset hits + mset rest = mset all \<and> (\<forall>h \<in> set hits. \<forall>r \<in> set rest. ranks_before h r)"
    unfolding hits by blast
qed

end
