(* ===== verification/Bit_Field.thy ===== *)
theory Bit_Field
  imports Prelude
begin

text \<open>
  Packed bitmaps. LocusKit reads and writes its \<open>i64\<close> columns through the external module
  \<open>substrate_kernel::bit_field\<close>: its functions are arguments of the definitions that use them,
  and the locale \<open>bit_field\<close> states what they do. The locale \<open>raw_enum\<close> is the contract
  of a field enum (\<open>raw_value\<close> and \<open>from_raw\<close> with a fallback); \<open>field_enum\<close> joins
  both: a written field reads back, and leaves every disjoint field alone.
\<close>

type_synonym i64 = "64 word"

section \<open>The external bit-field module\<close>

definition ref_extract_field :: "i64 \<Rightarrow> nat \<Rightarrow> nat \<Rightarrow> i64" where
  "ref_extract_field b s w = drop_bit s b AND mask w"

definition ref_extract_flag :: "i64 \<Rightarrow> nat \<Rightarrow> bool" where
  "ref_extract_flag b i = (drop_bit i b AND 1 = 1)"

definition ref_write_field :: "i64 \<Rightarrow> i64 \<Rightarrow> nat \<Rightarrow> nat \<Rightarrow> i64" where
  "ref_write_field v b s w = (b AND NOT (push_bit s (mask w))) OR push_bit s (v AND mask w)"

definition ref_popcount :: "i64 \<Rightarrow> nat" where
  "ref_popcount b = popcount b"

locale bit_field =
  fixes extract_field :: "i64 \<Rightarrow> nat \<Rightarrow> nat \<Rightarrow> i64"
    and extract_flag :: "i64 \<Rightarrow> nat \<Rightarrow> bool"
    and write_field :: "i64 \<Rightarrow> i64 \<Rightarrow> nat \<Rightarrow> nat \<Rightarrow> i64"
    and popcnt :: "i64 \<Rightarrow> nat"
  assumes extract_field_spec: "0 < w \<Longrightarrow> s + w \<le> 64 \<Longrightarrow> extract_field b s w = drop_bit s b AND mask w"
    and extract_flag_spec: "i < 64 \<Longrightarrow> extract_flag b i \<longleftrightarrow> bit b i"
    and write_field_spec: "0 < w \<Longrightarrow> s + w \<le> 64 \<Longrightarrow>
      write_field v b s w = (b AND NOT (push_bit s (mask w))) OR push_bit s (v AND mask w)"
    and popcnt_spec: "popcnt b = popcount b"
begin

lemma bit_extract_field:
  "0 < w \<Longrightarrow> s + w \<le> 64 \<Longrightarrow> bit (extract_field b s w) n \<longleftrightarrow> n < w \<and> bit b (s + n)"
  by (auto simp: extract_field_spec bit_simps dest: bit_imp_le_length)

lemma bit_write_field:
  "0 < w \<Longrightarrow> s + w \<le> 64 \<Longrightarrow>
    bit (write_field v b s w) n \<longleftrightarrow> (if s \<le> n \<and> n < s + w then bit v (n - s) else bit b n)"
  by (auto simp: write_field_spec bit_simps dest: bit_imp_le_length)

lemma extract_write_same:
  assumes "0 < w" "s + w \<le> 64"
  shows "extract_field (write_field v b s w) s w = v AND mask w"
proof (rule bit_word_eqI)
  fix n assume "n < LENGTH(64)"
  then show "bit (extract_field (write_field v b s w) s w) n \<longleftrightarrow> bit (v AND mask w) n"
    using assms by (auto simp: bit_extract_field bit_write_field bit_simps)
qed

lemma extract_write_other:
  assumes "0 < w" "s + w \<le> 64" "0 < w'" "s' + w' \<le> 64" "s + w \<le> s' \<or> s' + w' \<le> s"
  shows "extract_field (write_field v b s w) s' w' = extract_field b s' w'"
proof (rule bit_word_eqI)
  fix n assume "n < LENGTH(64)"
  then show "bit (extract_field (write_field v b s w) s' w') n \<longleftrightarrow> bit (extract_field b s' w') n"
    using assms by (auto simp: bit_extract_field bit_write_field)
qed

lemma flag_write_other:
  "0 < w \<Longrightarrow> s + w \<le> 64 \<Longrightarrow> i < 64 \<Longrightarrow> i < s \<or> s + w \<le> i \<Longrightarrow>
    extract_flag (write_field v b s w) i = extract_flag b i"
  by (auto simp: extract_flag_spec bit_write_field)

lemma extract_field_less:
  assumes "0 < w" "s + w \<le> 64"
  shows "uint (extract_field b s w) < 2 ^ w"
  using assms by (simp add: extract_field_spec unsigned_take_bit_eq flip: take_bit_eq_mask)

lemma sint_extract_field:
  assumes "0 < w" "s + w \<le> 64" "w < 64"
  shows "sint (extract_field b s w) = uint (extract_field b s w)"
proof -
  have "uint (extract_field b s w) < 2 ^ w" using assms(1,2) by (rule extract_field_less)
  also have "\<dots> \<le> 2 ^ 63" using assms(3) by (intro power_increasing) simp_all
  finally have "uint (extract_field b s w) < 2 ^ 63" .
  then show ?thesis
    using order_trans [of "- (2 ^ 63)" 0 "uint (extract_field b s w)"]
    by (simp add: sint_uint signed_take_bit_int_eq_self)
qed

lemma field_value:
  assumes "0 < w" "s + w \<le> 64" "w < 64"
  shows "sint (extract_field b s w) = uint (drop_bit s b) mod 2 ^ w"
  unfolding sint_extract_field [OF assms]
  using assms(1,2) by (simp add: extract_field_spec unsigned_take_bit_eq flip: take_bit_eq_mask take_bit_eq_mod)

end

interpretation ref_bits: bit_field ref_extract_field ref_extract_flag ref_write_field ref_popcount
  by unfold_locales
    (simp_all add: ref_extract_field_def ref_extract_flag_def ref_write_field_def ref_popcount_def
      bit_iff_odd_drop_bit and_one_eq mod_2_eq_odd)

section \<open>Field enums\<close>

locale raw_enum =
  fixes raw :: "'a \<Rightarrow> int" and from_raw :: "int \<Rightarrow> 'a" and fallback :: 'a and width :: nat
  assumes from_raw_raw: "from_raw (raw x) = x"
    and raw_from_raw: "from_raw v = fallback \<or> raw (from_raw v) = v"
    and raw_nonneg: "0 \<le> raw x" and raw_less: "raw x < 2 ^ width"
    and width_pos: "0 < width" and width_less: "width < 64"
begin

lemma inj_raw: "inj raw"
  by (metis from_raw_raw injI)

lemma from_raw_unknown: "v \<notin> range raw \<Longrightarrow> from_raw v = fallback"
  by (metis raw_from_raw rangeI)

lemma from_raw_eq: "x \<noteq> fallback \<Longrightarrow> from_raw v = x \<longleftrightarrow> v = raw x"
  using raw_from_raw [of v] from_raw_raw by auto

end

locale field_enum =
  bit_field extract_field extract_flag write_field popcnt + raw_enum raw from_raw fallback width
  for extract_field extract_flag write_field popcnt
    and raw :: "'a \<Rightarrow> int" and from_raw fallback width
begin

lemma read_written:
  assumes "s + width \<le> 64"
  shows "from_raw (sint (extract_field (write_field (word_of_int (raw x)) b s width) s width)) = x"
proof -
  let ?f = "extract_field (write_field (word_of_int (raw x)) b s width) s width"
  have "uint ?f = take_bit width (take_bit 64 (raw x))"
    using extract_write_same [OF width_pos assms, of "word_of_int (raw x)" b]
    by (simp add: unsigned_take_bit_eq uint_word_of_int_eq flip: take_bit_eq_mask)
  also have "\<dots> = raw x"
    using raw_nonneg [of x] raw_less [of x] width_less
    by (simp add: take_bit_take_bit min_def take_bit_int_eq_self)
  finally show ?thesis
    using from_raw_raw [of x] sint_extract_field [OF width_pos assms width_less] by simp
qed

lemma keeps_others:
  "s + width \<le> 64 \<Longrightarrow> 0 < w' \<Longrightarrow> s' + w' \<le> 64 \<Longrightarrow> s + width \<le> s' \<or> s' + w' \<le> s \<Longrightarrow>
    extract_field (write_field (word_of_int (raw x)) b s width) s' w' = extract_field b s' w'"
  by (rule extract_write_other [OF width_pos])

end

end
