(* ===== verification/Locus_Enums.thy ===== *)
theory Locus_Enums
  imports Bit_Field
begin

text \<open>
  The thirty-two field enums of LocusKit (\<open>adjectives.rs\<close>, \<open>provenance.rs\<close> and the
  operational layouts of drawers, tunnels, proposals, facts, diary entries and associations). Each
  enum has its raw values and its decoder, which falls back to a neutral case on an unassigned
  value; a constructor is written with its enum first (\<open>State::Active\<close> is
  \<open>State_Active\<close>). Every enum is an interpretation of \<open>raw_enum\<close> at the width of the
  field that stores it, and with it of \<open>field_enum\<close> over the bit fields.
\<close>

section \<open>Enums\<close>

subsection \<open>\<open>adjectives.rs\<close>\<close>

datatype State =
    State_Active
  | State_Pending
  | State_Contested
  | State_Accepted
  | State_Superseded
  | State_Decayed
  | State_Withdrawn
  | State_Expired
  | State_Rejected
  | State_Tombstoned

fun State_raw :: "State \<Rightarrow> int" where
  "State_raw State_Active = 0"
| "State_raw State_Pending = 1"
| "State_raw State_Contested = 2"
| "State_raw State_Accepted = 3"
| "State_raw State_Superseded = 16"
| "State_raw State_Decayed = 17"
| "State_raw State_Withdrawn = 18"
| "State_raw State_Expired = 19"
| "State_raw State_Rejected = 32"
| "State_raw State_Tombstoned = 33"

definition State_from_raw :: "int \<Rightarrow> State" where
  "State_from_raw v =
     (if v = 0 then State_Active
      else if v = 1 then State_Pending
      else if v = 2 then State_Contested
      else if v = 3 then State_Accepted
      else if v = 16 then State_Superseded
      else if v = 17 then State_Decayed
      else if v = 18 then State_Withdrawn
      else if v = 19 then State_Expired
      else if v = 32 then State_Rejected
      else if v = 33 then State_Tombstoned
      else State_Active)"

datatype Trust =
    Trust_Verbatim
  | Trust_Observed
  | Trust_Imported
  | Trust_Canonical
  | Trust_Derived
  | Trust_Proposed
  | Trust_Ambient

fun Trust_raw :: "Trust \<Rightarrow> int" where
  "Trust_raw Trust_Verbatim = 0"
| "Trust_raw Trust_Observed = 1"
| "Trust_raw Trust_Imported = 2"
| "Trust_raw Trust_Canonical = 3"
| "Trust_raw Trust_Derived = 4"
| "Trust_raw Trust_Proposed = 5"
| "Trust_raw Trust_Ambient = 6"

definition Trust_from_raw :: "int \<Rightarrow> Trust" where
  "Trust_from_raw v =
     (if v = 0 then Trust_Verbatim
      else if v = 1 then Trust_Observed
      else if v = 2 then Trust_Imported
      else if v = 3 then Trust_Canonical
      else if v = 4 then Trust_Derived
      else if v = 5 then Trust_Proposed
      else if v = 6 then Trust_Ambient
      else Trust_Verbatim)"

datatype AdjectiveSensitivity =
    AdjectiveSensitivity_Normal
  | AdjectiveSensitivity_Elevated
  | AdjectiveSensitivity_Restricted
  | AdjectiveSensitivity_Secret

fun AdjectiveSensitivity_raw :: "AdjectiveSensitivity \<Rightarrow> int" where
  "AdjectiveSensitivity_raw AdjectiveSensitivity_Normal = 0"
| "AdjectiveSensitivity_raw AdjectiveSensitivity_Elevated = 16"
| "AdjectiveSensitivity_raw AdjectiveSensitivity_Restricted = 32"
| "AdjectiveSensitivity_raw AdjectiveSensitivity_Secret = 48"

definition AdjectiveSensitivity_from_raw :: "int \<Rightarrow> AdjectiveSensitivity" where
  "AdjectiveSensitivity_from_raw v =
     (if v = 0 then AdjectiveSensitivity_Normal
      else if v = 16 then AdjectiveSensitivity_Elevated
      else if v = 32 then AdjectiveSensitivity_Restricted
      else if v = 48 then AdjectiveSensitivity_Secret
      else AdjectiveSensitivity_Normal)"

datatype AdjectiveExportability =
    AdjectiveExportability_Private
  | AdjectiveExportability_Public

fun AdjectiveExportability_raw :: "AdjectiveExportability \<Rightarrow> int" where
  "AdjectiveExportability_raw AdjectiveExportability_Private = 0"
| "AdjectiveExportability_raw AdjectiveExportability_Public = 32"

definition AdjectiveExportability_from_raw :: "int \<Rightarrow> AdjectiveExportability" where
  "AdjectiveExportability_from_raw v =
     (if v = 0 then AdjectiveExportability_Private
      else if v = 32 then AdjectiveExportability_Public
      else AdjectiveExportability_Private)"

subsection \<open>\<open>drawer_operational.rs\<close>\<close>

datatype CaptureChannel =
    CaptureChannel_Typed
  | CaptureChannel_Voiced
  | CaptureChannel_Ocr
  | CaptureChannel_ImportedFile
  | CaptureChannel_Sensor
  | CaptureChannel_Actuator

fun CaptureChannel_raw :: "CaptureChannel \<Rightarrow> int" where
  "CaptureChannel_raw CaptureChannel_Typed = 0"
| "CaptureChannel_raw CaptureChannel_Voiced = 1"
| "CaptureChannel_raw CaptureChannel_Ocr = 2"
| "CaptureChannel_raw CaptureChannel_ImportedFile = 3"
| "CaptureChannel_raw CaptureChannel_Sensor = 4"
| "CaptureChannel_raw CaptureChannel_Actuator = 5"

definition CaptureChannel_from_raw :: "int \<Rightarrow> CaptureChannel" where
  "CaptureChannel_from_raw v =
     (if v = 0 then CaptureChannel_Typed
      else if v = 1 then CaptureChannel_Voiced
      else if v = 2 then CaptureChannel_Ocr
      else if v = 3 then CaptureChannel_ImportedFile
      else if v = 4 then CaptureChannel_Sensor
      else if v = 5 then CaptureChannel_Actuator
      else CaptureChannel_Typed)"

datatype ContentKind =
    ContentKind_Prose
  | ContentKind_Code
  | ContentKind_Transcript
  | ContentKind_List
  | ContentKind_StructuredJson
  | ContentKind_ImageCaption
  | ContentKind_FingerprintOnly
  | ContentKind_Dataset

fun ContentKind_raw :: "ContentKind \<Rightarrow> int" where
  "ContentKind_raw ContentKind_Prose = 0"
| "ContentKind_raw ContentKind_Code = 1"
| "ContentKind_raw ContentKind_Transcript = 2"
| "ContentKind_raw ContentKind_List = 3"
| "ContentKind_raw ContentKind_StructuredJson = 4"
| "ContentKind_raw ContentKind_ImageCaption = 5"
| "ContentKind_raw ContentKind_FingerprintOnly = 6"
| "ContentKind_raw ContentKind_Dataset = 7"

definition ContentKind_from_raw :: "int \<Rightarrow> ContentKind" where
  "ContentKind_from_raw v =
     (if v = 0 then ContentKind_Prose
      else if v = 1 then ContentKind_Code
      else if v = 2 then ContentKind_Transcript
      else if v = 3 then ContentKind_List
      else if v = 4 then ContentKind_StructuredJson
      else if v = 5 then ContentKind_ImageCaption
      else if v = 6 then ContentKind_FingerprintOnly
      else if v = 7 then ContentKind_Dataset
      else ContentKind_Prose)"

subsection \<open>\<open>provenance.rs\<close>\<close>

datatype SourceType =
    SourceType_User
  | SourceType_Observed
  | SourceType_Imported
  | SourceType_Canonical
  | SourceType_Derived
  | SourceType_FederationAggregate
  | SourceType_TierAggregate
  | SourceType_PairedEstate
  | SourceType_Ambient
  | SourceType_Actuator

fun SourceType_raw :: "SourceType \<Rightarrow> int" where
  "SourceType_raw SourceType_User = 0"
| "SourceType_raw SourceType_Observed = 1"
| "SourceType_raw SourceType_Imported = 2"
| "SourceType_raw SourceType_Canonical = 3"
| "SourceType_raw SourceType_Derived = 4"
| "SourceType_raw SourceType_FederationAggregate = 5"
| "SourceType_raw SourceType_TierAggregate = 6"
| "SourceType_raw SourceType_PairedEstate = 7"
| "SourceType_raw SourceType_Ambient = 8"
| "SourceType_raw SourceType_Actuator = 9"

definition SourceType_from_raw :: "int \<Rightarrow> SourceType" where
  "SourceType_from_raw v =
     (if v = 0 then SourceType_User
      else if v = 1 then SourceType_Observed
      else if v = 2 then SourceType_Imported
      else if v = 3 then SourceType_Canonical
      else if v = 4 then SourceType_Derived
      else if v = 5 then SourceType_FederationAggregate
      else if v = 6 then SourceType_TierAggregate
      else if v = 7 then SourceType_PairedEstate
      else if v = 8 then SourceType_Ambient
      else if v = 9 then SourceType_Actuator
      else SourceType_User)"

datatype Channel =
    Channel_UiTyped
  | Channel_UiVoiced
  | Channel_McpAgent
  | Channel_FileImport
  | Channel_ApiGrounding
  | Channel_FederationInbound
  | Channel_DreamProposal
  | Channel_DreamAssociation
  | Channel_DreamMiningResult
  | Channel_DeviceSensor
  | Channel_ActuatorOutcome

fun Channel_raw :: "Channel \<Rightarrow> int" where
  "Channel_raw Channel_UiTyped = 0"
| "Channel_raw Channel_UiVoiced = 1"
| "Channel_raw Channel_McpAgent = 2"
| "Channel_raw Channel_FileImport = 3"
| "Channel_raw Channel_ApiGrounding = 4"
| "Channel_raw Channel_FederationInbound = 5"
| "Channel_raw Channel_DreamProposal = 6"
| "Channel_raw Channel_DreamAssociation = 7"
| "Channel_raw Channel_DreamMiningResult = 8"
| "Channel_raw Channel_DeviceSensor = 15"
| "Channel_raw Channel_ActuatorOutcome = 16"

definition Channel_from_raw :: "int \<Rightarrow> Channel" where
  "Channel_from_raw v =
     (if v = 0 then Channel_UiTyped
      else if v = 1 then Channel_UiVoiced
      else if v = 2 then Channel_McpAgent
      else if v = 3 then Channel_FileImport
      else if v = 4 then Channel_ApiGrounding
      else if v = 5 then Channel_FederationInbound
      else if v = 6 then Channel_DreamProposal
      else if v = 7 then Channel_DreamAssociation
      else if v = 8 then Channel_DreamMiningResult
      else if v = 15 then Channel_DeviceSensor
      else if v = 16 then Channel_ActuatorOutcome
      else Channel_UiTyped)"

datatype Confirmation =
    Confirmation_Unconfirmed
  | Confirmation_UserConfirmed
  | Confirmation_AutomatedConfirmed
  | Confirmation_PeerConfirmed
  | Confirmation_ActuatorConfirmed

fun Confirmation_raw :: "Confirmation \<Rightarrow> int" where
  "Confirmation_raw Confirmation_Unconfirmed = 0"
| "Confirmation_raw Confirmation_UserConfirmed = 1"
| "Confirmation_raw Confirmation_AutomatedConfirmed = 2"
| "Confirmation_raw Confirmation_PeerConfirmed = 3"
| "Confirmation_raw Confirmation_ActuatorConfirmed = 4"

definition Confirmation_from_raw :: "int \<Rightarrow> Confirmation" where
  "Confirmation_from_raw v =
     (if v = 0 then Confirmation_Unconfirmed
      else if v = 1 then Confirmation_UserConfirmed
      else if v = 2 then Confirmation_AutomatedConfirmed
      else if v = 3 then Confirmation_PeerConfirmed
      else if v = 4 then Confirmation_ActuatorConfirmed
      else Confirmation_Unconfirmed)"

datatype Confidence =
    Confidence_Null
  | Confidence_Low
  | Confidence_Medium
  | Confidence_High
  | Confidence_Verified

fun Confidence_raw :: "Confidence \<Rightarrow> int" where
  "Confidence_raw Confidence_Null = 0"
| "Confidence_raw Confidence_Low = 16"
| "Confidence_raw Confidence_Medium = 32"
| "Confidence_raw Confidence_High = 48"
| "Confidence_raw Confidence_Verified = 56"

definition Confidence_from_raw :: "int \<Rightarrow> Confidence" where
  "Confidence_from_raw v =
     (if v = 0 then Confidence_Null
      else if v = 16 then Confidence_Low
      else if v = 32 then Confidence_Medium
      else if v = 48 then Confidence_High
      else if v = 56 then Confidence_Verified
      else Confidence_Null)"

datatype Sensitivity =
    Sensitivity_Normal
  | Sensitivity_Elevated
  | Sensitivity_Restricted
  | Sensitivity_Secret

fun Sensitivity_raw :: "Sensitivity \<Rightarrow> int" where
  "Sensitivity_raw Sensitivity_Normal = 0"
| "Sensitivity_raw Sensitivity_Elevated = 16"
| "Sensitivity_raw Sensitivity_Restricted = 32"
| "Sensitivity_raw Sensitivity_Secret = 48"

definition Sensitivity_from_raw :: "int \<Rightarrow> Sensitivity" where
  "Sensitivity_from_raw v =
     (if v = 0 then Sensitivity_Normal
      else if v = 16 then Sensitivity_Elevated
      else if v = 32 then Sensitivity_Restricted
      else if v = 48 then Sensitivity_Secret
      else Sensitivity_Normal)"

datatype EnrichmentStatus =
    EnrichmentStatus_None
  | EnrichmentStatus_QidPending
  | EnrichmentStatus_QidCompleted
  | EnrichmentStatus_ClosureCached
  | EnrichmentStatus_QidProposed

fun EnrichmentStatus_raw :: "EnrichmentStatus \<Rightarrow> int" where
  "EnrichmentStatus_raw EnrichmentStatus_None = 0"
| "EnrichmentStatus_raw EnrichmentStatus_QidPending = 1"
| "EnrichmentStatus_raw EnrichmentStatus_QidCompleted = 2"
| "EnrichmentStatus_raw EnrichmentStatus_ClosureCached = 3"
| "EnrichmentStatus_raw EnrichmentStatus_QidProposed = 4"

definition EnrichmentStatus_from_raw :: "int \<Rightarrow> EnrichmentStatus" where
  "EnrichmentStatus_from_raw v =
     (if v = 0 then EnrichmentStatus_None
      else if v = 1 then EnrichmentStatus_QidPending
      else if v = 2 then EnrichmentStatus_QidCompleted
      else if v = 3 then EnrichmentStatus_ClosureCached
      else if v = 4 then EnrichmentStatus_QidProposed
      else EnrichmentStatus_None)"

subsection \<open>\<open>tunnel_operational.rs\<close>\<close>

datatype TunnelKind =
    TunnelKind_Supersedes
  | TunnelKind_References
  | TunnelKind_Blocks
  | TunnelKind_Validates
  | TunnelKind_Contradicts
  | TunnelKind_DerivesFrom
  | TunnelKind_Covers
  | TunnelKind_Elaborates
  | TunnelKind_RespondsTo
  | TunnelKind_Parent

fun TunnelKind_raw :: "TunnelKind \<Rightarrow> int" where
  "TunnelKind_raw TunnelKind_Supersedes = 0"
| "TunnelKind_raw TunnelKind_References = 1"
| "TunnelKind_raw TunnelKind_Blocks = 2"
| "TunnelKind_raw TunnelKind_Validates = 3"
| "TunnelKind_raw TunnelKind_Contradicts = 4"
| "TunnelKind_raw TunnelKind_DerivesFrom = 5"
| "TunnelKind_raw TunnelKind_Covers = 6"
| "TunnelKind_raw TunnelKind_Elaborates = 7"
| "TunnelKind_raw TunnelKind_RespondsTo = 8"
| "TunnelKind_raw TunnelKind_Parent = 9"

definition TunnelKind_from_raw :: "int \<Rightarrow> TunnelKind" where
  "TunnelKind_from_raw v =
     (if v = 0 then TunnelKind_Supersedes
      else if v = 1 then TunnelKind_References
      else if v = 2 then TunnelKind_Blocks
      else if v = 3 then TunnelKind_Validates
      else if v = 4 then TunnelKind_Contradicts
      else if v = 5 then TunnelKind_DerivesFrom
      else if v = 6 then TunnelKind_Covers
      else if v = 7 then TunnelKind_Elaborates
      else if v = 8 then TunnelKind_RespondsTo
      else if v = 9 then TunnelKind_Parent
      else TunnelKind_References)"

datatype TunnelDirection =
    TunnelDirection_Directional
  | TunnelDirection_Bidirectional
  | TunnelDirection_Symmetric
  | TunnelDirection_Hub

fun TunnelDirection_raw :: "TunnelDirection \<Rightarrow> int" where
  "TunnelDirection_raw TunnelDirection_Directional = 0"
| "TunnelDirection_raw TunnelDirection_Bidirectional = 1"
| "TunnelDirection_raw TunnelDirection_Symmetric = 2"
| "TunnelDirection_raw TunnelDirection_Hub = 3"

definition TunnelDirection_from_raw :: "int \<Rightarrow> TunnelDirection" where
  "TunnelDirection_from_raw v =
     (if v = 0 then TunnelDirection_Directional
      else if v = 1 then TunnelDirection_Bidirectional
      else if v = 2 then TunnelDirection_Symmetric
      else if v = 3 then TunnelDirection_Hub
      else TunnelDirection_Directional)"

datatype TunnelLifecycle =
    TunnelLifecycle_Active
  | TunnelLifecycle_Proposed
  | TunnelLifecycle_Superseded
  | TunnelLifecycle_Withdrawn

fun TunnelLifecycle_raw :: "TunnelLifecycle \<Rightarrow> int" where
  "TunnelLifecycle_raw TunnelLifecycle_Active = 0"
| "TunnelLifecycle_raw TunnelLifecycle_Proposed = 1"
| "TunnelLifecycle_raw TunnelLifecycle_Superseded = 2"
| "TunnelLifecycle_raw TunnelLifecycle_Withdrawn = 3"

definition TunnelLifecycle_from_raw :: "int \<Rightarrow> TunnelLifecycle" where
  "TunnelLifecycle_from_raw v =
     (if v = 0 then TunnelLifecycle_Active
      else if v = 1 then TunnelLifecycle_Proposed
      else if v = 2 then TunnelLifecycle_Superseded
      else if v = 3 then TunnelLifecycle_Withdrawn
      else TunnelLifecycle_Active)"

datatype TunnelOriginClass =
    TunnelOriginClass_UserExplicit
  | TunnelOriginClass_Derived
  | TunnelOriginClass_Imported
  | TunnelOriginClass_FederatedSync
  | TunnelOriginClass_Migration

fun TunnelOriginClass_raw :: "TunnelOriginClass \<Rightarrow> int" where
  "TunnelOriginClass_raw TunnelOriginClass_UserExplicit = 0"
| "TunnelOriginClass_raw TunnelOriginClass_Derived = 1"
| "TunnelOriginClass_raw TunnelOriginClass_Imported = 2"
| "TunnelOriginClass_raw TunnelOriginClass_FederatedSync = 3"
| "TunnelOriginClass_raw TunnelOriginClass_Migration = 4"

definition TunnelOriginClass_from_raw :: "int \<Rightarrow> TunnelOriginClass" where
  "TunnelOriginClass_from_raw v =
     (if v = 0 then TunnelOriginClass_UserExplicit
      else if v = 1 then TunnelOriginClass_Derived
      else if v = 2 then TunnelOriginClass_Imported
      else if v = 3 then TunnelOriginClass_FederatedSync
      else if v = 4 then TunnelOriginClass_Migration
      else TunnelOriginClass_UserExplicit)"

datatype TunnelStrength =
    TunnelStrength_Weak
  | TunnelStrength_Normal
  | TunnelStrength_Strong
  | TunnelStrength_LoadBearing

fun TunnelStrength_raw :: "TunnelStrength \<Rightarrow> int" where
  "TunnelStrength_raw TunnelStrength_Weak = 0"
| "TunnelStrength_raw TunnelStrength_Normal = 2"
| "TunnelStrength_raw TunnelStrength_Strong = 4"
| "TunnelStrength_raw TunnelStrength_LoadBearing = 6"

definition TunnelStrength_from_raw :: "int \<Rightarrow> TunnelStrength" where
  "TunnelStrength_from_raw v =
     (if v = 0 then TunnelStrength_Weak
      else if v = 2 then TunnelStrength_Normal
      else if v = 4 then TunnelStrength_Strong
      else if v = 6 then TunnelStrength_LoadBearing
      else TunnelStrength_Weak)"

subsection \<open>\<open>proposal_operational.rs\<close>\<close>

datatype ProposalKind =
    ProposalKind_NewTunnel
  | ProposalKind_MutateDrawer
  | ProposalKind_WithdrawDrawer
  | ProposalKind_NewKGFact
  | ProposalKind_AssociationPromotion
  | ProposalKind_MiningPatternAdjustment
  | ProposalKind_ActionProposal
  | ProposalKind_RecordObservation
  | ProposalKind_TierAdvisory

fun ProposalKind_raw :: "ProposalKind \<Rightarrow> int" where
  "ProposalKind_raw ProposalKind_NewTunnel = 0"
| "ProposalKind_raw ProposalKind_MutateDrawer = 1"
| "ProposalKind_raw ProposalKind_WithdrawDrawer = 2"
| "ProposalKind_raw ProposalKind_NewKGFact = 3"
| "ProposalKind_raw ProposalKind_AssociationPromotion = 4"
| "ProposalKind_raw ProposalKind_MiningPatternAdjustment = 5"
| "ProposalKind_raw ProposalKind_ActionProposal = 6"
| "ProposalKind_raw ProposalKind_RecordObservation = 7"
| "ProposalKind_raw ProposalKind_TierAdvisory = 8"

definition ProposalKind_from_raw :: "int \<Rightarrow> ProposalKind" where
  "ProposalKind_from_raw v =
     (if v = 0 then ProposalKind_NewTunnel
      else if v = 1 then ProposalKind_MutateDrawer
      else if v = 2 then ProposalKind_WithdrawDrawer
      else if v = 3 then ProposalKind_NewKGFact
      else if v = 4 then ProposalKind_AssociationPromotion
      else if v = 5 then ProposalKind_MiningPatternAdjustment
      else if v = 6 then ProposalKind_ActionProposal
      else if v = 7 then ProposalKind_RecordObservation
      else if v = 8 then ProposalKind_TierAdvisory
      else ProposalKind_NewTunnel)"

datatype ProposalTargetObjectType =
    ProposalTargetObjectType_Drawer
  | ProposalTargetObjectType_Tunnel
  | ProposalTargetObjectType_Kgfact
  | ProposalTargetObjectType_Association
  | ProposalTargetObjectType_NoneBrandNew
  | ProposalTargetObjectType_AmbientSample
  | ProposalTargetObjectType_SystemState

fun ProposalTargetObjectType_raw :: "ProposalTargetObjectType \<Rightarrow> int" where
  "ProposalTargetObjectType_raw ProposalTargetObjectType_Drawer = 0"
| "ProposalTargetObjectType_raw ProposalTargetObjectType_Tunnel = 1"
| "ProposalTargetObjectType_raw ProposalTargetObjectType_Kgfact = 2"
| "ProposalTargetObjectType_raw ProposalTargetObjectType_Association = 3"
| "ProposalTargetObjectType_raw ProposalTargetObjectType_NoneBrandNew = 4"
| "ProposalTargetObjectType_raw ProposalTargetObjectType_AmbientSample = 5"
| "ProposalTargetObjectType_raw ProposalTargetObjectType_SystemState = 6"

definition ProposalTargetObjectType_from_raw :: "int \<Rightarrow> ProposalTargetObjectType" where
  "ProposalTargetObjectType_from_raw v =
     (if v = 0 then ProposalTargetObjectType_Drawer
      else if v = 1 then ProposalTargetObjectType_Tunnel
      else if v = 2 then ProposalTargetObjectType_Kgfact
      else if v = 3 then ProposalTargetObjectType_Association
      else if v = 4 then ProposalTargetObjectType_NoneBrandNew
      else if v = 5 then ProposalTargetObjectType_AmbientSample
      else if v = 6 then ProposalTargetObjectType_SystemState
      else ProposalTargetObjectType_Drawer)"

datatype ProposalConfirmationSource =
    ProposalConfirmationSource_Human
  | ProposalConfirmationSource_Agent
  | ProposalConfirmationSource_AutomatedThreshold
  | ProposalConfirmationSource_Actuator

fun ProposalConfirmationSource_raw :: "ProposalConfirmationSource \<Rightarrow> int" where
  "ProposalConfirmationSource_raw ProposalConfirmationSource_Human = 0"
| "ProposalConfirmationSource_raw ProposalConfirmationSource_Agent = 1"
| "ProposalConfirmationSource_raw ProposalConfirmationSource_AutomatedThreshold = 2"
| "ProposalConfirmationSource_raw ProposalConfirmationSource_Actuator = 3"

definition ProposalConfirmationSource_from_raw :: "int \<Rightarrow> ProposalConfirmationSource" where
  "ProposalConfirmationSource_from_raw v =
     (if v = 0 then ProposalConfirmationSource_Human
      else if v = 1 then ProposalConfirmationSource_Agent
      else if v = 2 then ProposalConfirmationSource_AutomatedThreshold
      else if v = 3 then ProposalConfirmationSource_Actuator
      else ProposalConfirmationSource_Human)"

datatype ProposalGeneratedByClass =
    ProposalGeneratedByClass_DreamingDaemon
  | ProposalGeneratedByClass_McpAgent
  | ProposalGeneratedByClass_FederationSync
  | ProposalGeneratedByClass_Manual
  | ProposalGeneratedByClass_TierAggregator

fun ProposalGeneratedByClass_raw :: "ProposalGeneratedByClass \<Rightarrow> int" where
  "ProposalGeneratedByClass_raw ProposalGeneratedByClass_DreamingDaemon = 0"
| "ProposalGeneratedByClass_raw ProposalGeneratedByClass_McpAgent = 1"
| "ProposalGeneratedByClass_raw ProposalGeneratedByClass_FederationSync = 2"
| "ProposalGeneratedByClass_raw ProposalGeneratedByClass_Manual = 3"
| "ProposalGeneratedByClass_raw ProposalGeneratedByClass_TierAggregator = 4"

definition ProposalGeneratedByClass_from_raw :: "int \<Rightarrow> ProposalGeneratedByClass" where
  "ProposalGeneratedByClass_from_raw v =
     (if v = 0 then ProposalGeneratedByClass_DreamingDaemon
      else if v = 1 then ProposalGeneratedByClass_McpAgent
      else if v = 2 then ProposalGeneratedByClass_FederationSync
      else if v = 3 then ProposalGeneratedByClass_Manual
      else if v = 4 then ProposalGeneratedByClass_TierAggregator
      else ProposalGeneratedByClass_DreamingDaemon)"

datatype ProposalConfidenceBucket =
    ProposalConfidenceBucket_Null
  | ProposalConfidenceBucket_Low
  | ProposalConfidenceBucket_Medium
  | ProposalConfidenceBucket_High
  | ProposalConfidenceBucket_Verified

fun ProposalConfidenceBucket_raw :: "ProposalConfidenceBucket \<Rightarrow> int" where
  "ProposalConfidenceBucket_raw ProposalConfidenceBucket_Null = 0"
| "ProposalConfidenceBucket_raw ProposalConfidenceBucket_Low = 8"
| "ProposalConfidenceBucket_raw ProposalConfidenceBucket_Medium = 16"
| "ProposalConfidenceBucket_raw ProposalConfidenceBucket_High = 32"
| "ProposalConfidenceBucket_raw ProposalConfidenceBucket_Verified = 48"

definition ProposalConfidenceBucket_from_raw :: "int \<Rightarrow> ProposalConfidenceBucket" where
  "ProposalConfidenceBucket_from_raw v =
     (if v = 0 then ProposalConfidenceBucket_Null
      else if v = 8 then ProposalConfidenceBucket_Low
      else if v = 16 then ProposalConfidenceBucket_Medium
      else if v = 32 then ProposalConfidenceBucket_High
      else if v = 48 then ProposalConfidenceBucket_Verified
      else ProposalConfidenceBucket_Null)"

subsection \<open>\<open>kg_fact_operational.rs\<close>\<close>

datatype KGExtractorClass =
    KGExtractorClass_Manual
  | KGExtractorClass_FoundationModel
  | KGExtractorClass_SpecializedModel
  | KGExtractorClass_RulesBased
  | KGExtractorClass_ImportedKG
  | KGExtractorClass_Federated

fun KGExtractorClass_raw :: "KGExtractorClass \<Rightarrow> int" where
  "KGExtractorClass_raw KGExtractorClass_Manual = 0"
| "KGExtractorClass_raw KGExtractorClass_FoundationModel = 1"
| "KGExtractorClass_raw KGExtractorClass_SpecializedModel = 2"
| "KGExtractorClass_raw KGExtractorClass_RulesBased = 3"
| "KGExtractorClass_raw KGExtractorClass_ImportedKG = 4"
| "KGExtractorClass_raw KGExtractorClass_Federated = 5"

definition KGExtractorClass_from_raw :: "int \<Rightarrow> KGExtractorClass" where
  "KGExtractorClass_from_raw v =
     (if v = 0 then KGExtractorClass_Manual
      else if v = 1 then KGExtractorClass_FoundationModel
      else if v = 2 then KGExtractorClass_SpecializedModel
      else if v = 3 then KGExtractorClass_RulesBased
      else if v = 4 then KGExtractorClass_ImportedKG
      else if v = 5 then KGExtractorClass_Federated
      else KGExtractorClass_Manual)"

datatype KGAssertionKind =
    KGAssertionKind_Asserted
  | KGAssertionKind_Inferred
  | KGAssertionKind_Hypothesized
  | KGAssertionKind_Contradicted

fun KGAssertionKind_raw :: "KGAssertionKind \<Rightarrow> int" where
  "KGAssertionKind_raw KGAssertionKind_Asserted = 0"
| "KGAssertionKind_raw KGAssertionKind_Inferred = 1"
| "KGAssertionKind_raw KGAssertionKind_Hypothesized = 2"
| "KGAssertionKind_raw KGAssertionKind_Contradicted = 3"

definition KGAssertionKind_from_raw :: "int \<Rightarrow> KGAssertionKind" where
  "KGAssertionKind_from_raw v =
     (if v = 0 then KGAssertionKind_Asserted
      else if v = 1 then KGAssertionKind_Inferred
      else if v = 2 then KGAssertionKind_Hypothesized
      else if v = 3 then KGAssertionKind_Contradicted
      else KGAssertionKind_Asserted)"

datatype KGSpecificity =
    KGSpecificity_General
  | KGSpecificity_Domain
  | KGSpecificity_Specific
  | KGSpecificity_Instance

fun KGSpecificity_raw :: "KGSpecificity \<Rightarrow> int" where
  "KGSpecificity_raw KGSpecificity_General = 0"
| "KGSpecificity_raw KGSpecificity_Domain = 2"
| "KGSpecificity_raw KGSpecificity_Specific = 4"
| "KGSpecificity_raw KGSpecificity_Instance = 6"

definition KGSpecificity_from_raw :: "int \<Rightarrow> KGSpecificity" where
  "KGSpecificity_from_raw v =
     (if v = 0 then KGSpecificity_General
      else if v = 2 then KGSpecificity_Domain
      else if v = 4 then KGSpecificity_Specific
      else if v = 6 then KGSpecificity_Instance
      else KGSpecificity_General)"

datatype KGConfidenceBand =
    KGConfidenceBand_Unknown
  | KGConfidenceBand_Low
  | KGConfidenceBand_Medium
  | KGConfidenceBand_High
  | KGConfidenceBand_Certain

fun KGConfidenceBand_raw :: "KGConfidenceBand \<Rightarrow> int" where
  "KGConfidenceBand_raw KGConfidenceBand_Unknown = 0"
| "KGConfidenceBand_raw KGConfidenceBand_Low = 1"
| "KGConfidenceBand_raw KGConfidenceBand_Medium = 2"
| "KGConfidenceBand_raw KGConfidenceBand_High = 4"
| "KGConfidenceBand_raw KGConfidenceBand_Certain = 6"

definition KGConfidenceBand_from_raw :: "int \<Rightarrow> KGConfidenceBand" where
  "KGConfidenceBand_from_raw v =
     (if v = 0 then KGConfidenceBand_Unknown
      else if v = 1 then KGConfidenceBand_Low
      else if v = 2 then KGConfidenceBand_Medium
      else if v = 4 then KGConfidenceBand_High
      else if v = 6 then KGConfidenceBand_Certain
      else KGConfidenceBand_Unknown)"

subsection \<open>\<open>diary_operational.rs\<close>\<close>

datatype DiaryEventClass =
    DiaryEventClass_Capture
  | DiaryEventClass_Mutation
  | DiaryEventClass_Withdraw
  | DiaryEventClass_Expunge
  | DiaryEventClass_Propose
  | DiaryEventClass_Associate
  | DiaryEventClass_Learn
  | DiaryEventClass_SignalEmission
  | DiaryEventClass_Maintenance
  | DiaryEventClass_Migration
  | DiaryEventClass_Training
  | DiaryEventClass_AuditTombstone

fun DiaryEventClass_raw :: "DiaryEventClass \<Rightarrow> int" where
  "DiaryEventClass_raw DiaryEventClass_Capture = 0"
| "DiaryEventClass_raw DiaryEventClass_Mutation = 1"
| "DiaryEventClass_raw DiaryEventClass_Withdraw = 2"
| "DiaryEventClass_raw DiaryEventClass_Expunge = 3"
| "DiaryEventClass_raw DiaryEventClass_Propose = 4"
| "DiaryEventClass_raw DiaryEventClass_Associate = 5"
| "DiaryEventClass_raw DiaryEventClass_Learn = 6"
| "DiaryEventClass_raw DiaryEventClass_SignalEmission = 7"
| "DiaryEventClass_raw DiaryEventClass_Maintenance = 8"
| "DiaryEventClass_raw DiaryEventClass_Migration = 9"
| "DiaryEventClass_raw DiaryEventClass_Training = 10"
| "DiaryEventClass_raw DiaryEventClass_AuditTombstone = 11"

definition DiaryEventClass_from_raw :: "int \<Rightarrow> DiaryEventClass" where
  "DiaryEventClass_from_raw v =
     (if v = 0 then DiaryEventClass_Capture
      else if v = 1 then DiaryEventClass_Mutation
      else if v = 2 then DiaryEventClass_Withdraw
      else if v = 3 then DiaryEventClass_Expunge
      else if v = 4 then DiaryEventClass_Propose
      else if v = 5 then DiaryEventClass_Associate
      else if v = 6 then DiaryEventClass_Learn
      else if v = 7 then DiaryEventClass_SignalEmission
      else if v = 8 then DiaryEventClass_Maintenance
      else if v = 9 then DiaryEventClass_Migration
      else if v = 10 then DiaryEventClass_Training
      else if v = 11 then DiaryEventClass_AuditTombstone
      else DiaryEventClass_Capture)"

datatype DiarySeverity =
    DiarySeverity_Trace
  | DiarySeverity_Info
  | DiarySeverity_Warning
  | DiarySeverity_Error

fun DiarySeverity_raw :: "DiarySeverity \<Rightarrow> int" where
  "DiarySeverity_raw DiarySeverity_Trace = 0"
| "DiarySeverity_raw DiarySeverity_Info = 2"
| "DiarySeverity_raw DiarySeverity_Warning = 4"
| "DiarySeverity_raw DiarySeverity_Error = 6"

definition DiarySeverity_from_raw :: "int \<Rightarrow> DiarySeverity" where
  "DiarySeverity_from_raw v =
     (if v = 0 then DiarySeverity_Trace
      else if v = 2 then DiarySeverity_Info
      else if v = 4 then DiarySeverity_Warning
      else if v = 6 then DiarySeverity_Error
      else DiarySeverity_Trace)"

datatype DiaryActorClass =
    DiaryActorClass_User
  | DiaryActorClass_SubstrateDaemon
  | DiaryActorClass_McpAgent
  | DiaryActorClass_MigrationTool
  | DiaryActorClass_FederationPeer

fun DiaryActorClass_raw :: "DiaryActorClass \<Rightarrow> int" where
  "DiaryActorClass_raw DiaryActorClass_User = 0"
| "DiaryActorClass_raw DiaryActorClass_SubstrateDaemon = 1"
| "DiaryActorClass_raw DiaryActorClass_McpAgent = 2"
| "DiaryActorClass_raw DiaryActorClass_MigrationTool = 3"
| "DiaryActorClass_raw DiaryActorClass_FederationPeer = 4"

definition DiaryActorClass_from_raw :: "int \<Rightarrow> DiaryActorClass" where
  "DiaryActorClass_from_raw v =
     (if v = 0 then DiaryActorClass_User
      else if v = 1 then DiaryActorClass_SubstrateDaemon
      else if v = 2 then DiaryActorClass_McpAgent
      else if v = 3 then DiaryActorClass_MigrationTool
      else if v = 4 then DiaryActorClass_FederationPeer
      else DiaryActorClass_User)"

datatype DiaryBatchMembership =
    DiaryBatchMembership_Standalone
  | DiaryBatchMembership_BatchStart
  | DiaryBatchMembership_BatchMember
  | DiaryBatchMembership_BatchEnd

fun DiaryBatchMembership_raw :: "DiaryBatchMembership \<Rightarrow> int" where
  "DiaryBatchMembership_raw DiaryBatchMembership_Standalone = 0"
| "DiaryBatchMembership_raw DiaryBatchMembership_BatchStart = 1"
| "DiaryBatchMembership_raw DiaryBatchMembership_BatchMember = 2"
| "DiaryBatchMembership_raw DiaryBatchMembership_BatchEnd = 3"

definition DiaryBatchMembership_from_raw :: "int \<Rightarrow> DiaryBatchMembership" where
  "DiaryBatchMembership_from_raw v =
     (if v = 0 then DiaryBatchMembership_Standalone
      else if v = 1 then DiaryBatchMembership_BatchStart
      else if v = 2 then DiaryBatchMembership_BatchMember
      else if v = 3 then DiaryBatchMembership_BatchEnd
      else DiaryBatchMembership_Standalone)"

subsection \<open>\<open>association_operational.rs\<close>\<close>

datatype AssociationDecayClass =
    AssociationDecayClass_Pinned
  | AssociationDecayClass_Slow
  | AssociationDecayClass_Normal
  | AssociationDecayClass_Fast

fun AssociationDecayClass_raw :: "AssociationDecayClass \<Rightarrow> int" where
  "AssociationDecayClass_raw AssociationDecayClass_Pinned = 0"
| "AssociationDecayClass_raw AssociationDecayClass_Slow = 16"
| "AssociationDecayClass_raw AssociationDecayClass_Normal = 32"
| "AssociationDecayClass_raw AssociationDecayClass_Fast = 48"

definition AssociationDecayClass_from_raw :: "int \<Rightarrow> AssociationDecayClass" where
  "AssociationDecayClass_from_raw v =
     (if v = 0 then AssociationDecayClass_Pinned
      else if v = 16 then AssociationDecayClass_Slow
      else if v = 32 then AssociationDecayClass_Normal
      else if v = 48 then AssociationDecayClass_Fast
      else AssociationDecayClass_Pinned)"

datatype AssociationArity =
    AssociationArity_Binary
  | AssociationArity_NAry

fun AssociationArity_raw :: "AssociationArity \<Rightarrow> int" where
  "AssociationArity_raw AssociationArity_Binary = 0"
| "AssociationArity_raw AssociationArity_NAry = 1"

definition AssociationArity_from_raw :: "int \<Rightarrow> AssociationArity" where
  "AssociationArity_from_raw v =
     (if v = 0 then AssociationArity_Binary
      else if v = 1 then AssociationArity_NAry
      else AssociationArity_Binary)"

section \<open>Predicates\<close>

definition is_cluster_a :: "State \<Rightarrow> bool" where
  "is_cluster_a s \<longleftrightarrow> s \<in> {State_Active, State_Pending, State_Contested, State_Accepted}"

definition is_bulk_exportable :: "AdjectiveSensitivity \<Rightarrow> bool" where
  "is_bulk_exportable s \<longleftrightarrow> s \<in> {AdjectiveSensitivity_Normal, AdjectiveSensitivity_Elevated}"

definition requires_owner_key_for_bulk :: "AdjectiveSensitivity \<Rightarrow> bool" where
  "requires_owner_key_for_bulk s \<longleftrightarrow> s = AdjectiveSensitivity_Restricted"

definition is_excluded_from_bulk :: "AdjectiveSensitivity \<Rightarrow> bool" where
  "is_excluded_from_bulk s \<longleftrightarrow> s = AdjectiveSensitivity_Secret"

section \<open>Orders\<close>

text \<open>The orders the source derives or implements from the raw values.\<close>

instantiation Trust :: linorder
begin

definition less_eq_Trust :: "Trust \<Rightarrow> Trust \<Rightarrow> bool" where
  "less_eq_Trust a b \<longleftrightarrow> Trust_raw a \<le> Trust_raw b"

definition less_Trust :: "Trust \<Rightarrow> Trust \<Rightarrow> bool" where
  "less_Trust a b \<longleftrightarrow> Trust_raw a < Trust_raw b"

instance
proof
  fix a b :: Trust
  show "a \<le> b \<Longrightarrow> b \<le> a \<Longrightarrow> a = b"
    by (cases a; cases b) (simp_all add: less_eq_Trust_def)
qed (auto simp: less_eq_Trust_def less_Trust_def)

end

instantiation Confidence :: linorder
begin

definition less_eq_Confidence :: "Confidence \<Rightarrow> Confidence \<Rightarrow> bool" where
  "less_eq_Confidence a b \<longleftrightarrow> Confidence_raw a \<le> Confidence_raw b"

definition less_Confidence :: "Confidence \<Rightarrow> Confidence \<Rightarrow> bool" where
  "less_Confidence a b \<longleftrightarrow> Confidence_raw a < Confidence_raw b"

instance
proof
  fix a b :: Confidence
  show "a \<le> b \<Longrightarrow> b \<le> a \<Longrightarrow> a = b"
    by (cases a; cases b) (simp_all add: less_eq_Confidence_def)
qed (auto simp: less_eq_Confidence_def less_Confidence_def)

end

instantiation TunnelStrength :: linorder
begin

definition less_eq_TunnelStrength :: "TunnelStrength \<Rightarrow> TunnelStrength \<Rightarrow> bool" where
  "less_eq_TunnelStrength a b \<longleftrightarrow> TunnelStrength_raw a \<le> TunnelStrength_raw b"

definition less_TunnelStrength :: "TunnelStrength \<Rightarrow> TunnelStrength \<Rightarrow> bool" where
  "less_TunnelStrength a b \<longleftrightarrow> TunnelStrength_raw a < TunnelStrength_raw b"

instance
proof
  fix a b :: TunnelStrength
  show "a \<le> b \<Longrightarrow> b \<le> a \<Longrightarrow> a = b"
    by (cases a; cases b) (simp_all add: less_eq_TunnelStrength_def)
qed (auto simp: less_eq_TunnelStrength_def less_TunnelStrength_def)

end

instantiation ProposalConfidenceBucket :: linorder
begin

definition less_eq_ProposalConfidenceBucket :: "ProposalConfidenceBucket \<Rightarrow> ProposalConfidenceBucket \<Rightarrow> bool" where
  "less_eq_ProposalConfidenceBucket a b \<longleftrightarrow> ProposalConfidenceBucket_raw a \<le> ProposalConfidenceBucket_raw b"

definition less_ProposalConfidenceBucket :: "ProposalConfidenceBucket \<Rightarrow> ProposalConfidenceBucket \<Rightarrow> bool" where
  "less_ProposalConfidenceBucket a b \<longleftrightarrow> ProposalConfidenceBucket_raw a < ProposalConfidenceBucket_raw b"

instance
proof
  fix a b :: ProposalConfidenceBucket
  show "a \<le> b \<Longrightarrow> b \<le> a \<Longrightarrow> a = b"
    by (cases a; cases b) (simp_all add: less_eq_ProposalConfidenceBucket_def)
qed (auto simp: less_eq_ProposalConfidenceBucket_def less_ProposalConfidenceBucket_def)

end

instantiation KGSpecificity :: linorder
begin

definition less_eq_KGSpecificity :: "KGSpecificity \<Rightarrow> KGSpecificity \<Rightarrow> bool" where
  "less_eq_KGSpecificity a b \<longleftrightarrow> KGSpecificity_raw a \<le> KGSpecificity_raw b"

definition less_KGSpecificity :: "KGSpecificity \<Rightarrow> KGSpecificity \<Rightarrow> bool" where
  "less_KGSpecificity a b \<longleftrightarrow> KGSpecificity_raw a < KGSpecificity_raw b"

instance
proof
  fix a b :: KGSpecificity
  show "a \<le> b \<Longrightarrow> b \<le> a \<Longrightarrow> a = b"
    by (cases a; cases b) (simp_all add: less_eq_KGSpecificity_def)
qed (auto simp: less_eq_KGSpecificity_def less_KGSpecificity_def)

end

instantiation KGConfidenceBand :: linorder
begin

definition less_eq_KGConfidenceBand :: "KGConfidenceBand \<Rightarrow> KGConfidenceBand \<Rightarrow> bool" where
  "less_eq_KGConfidenceBand a b \<longleftrightarrow> KGConfidenceBand_raw a \<le> KGConfidenceBand_raw b"

definition less_KGConfidenceBand :: "KGConfidenceBand \<Rightarrow> KGConfidenceBand \<Rightarrow> bool" where
  "less_KGConfidenceBand a b \<longleftrightarrow> KGConfidenceBand_raw a < KGConfidenceBand_raw b"

instance
proof
  fix a b :: KGConfidenceBand
  show "a \<le> b \<Longrightarrow> b \<le> a \<Longrightarrow> a = b"
    by (cases a; cases b) (simp_all add: less_eq_KGConfidenceBand_def)
qed (auto simp: less_eq_KGConfidenceBand_def less_KGConfidenceBand_def)

end

instantiation DiarySeverity :: linorder
begin

definition less_eq_DiarySeverity :: "DiarySeverity \<Rightarrow> DiarySeverity \<Rightarrow> bool" where
  "less_eq_DiarySeverity a b \<longleftrightarrow> DiarySeverity_raw a \<le> DiarySeverity_raw b"

definition less_DiarySeverity :: "DiarySeverity \<Rightarrow> DiarySeverity \<Rightarrow> bool" where
  "less_DiarySeverity a b \<longleftrightarrow> DiarySeverity_raw a < DiarySeverity_raw b"

instance
proof
  fix a b :: DiarySeverity
  show "a \<le> b \<Longrightarrow> b \<le> a \<Longrightarrow> a = b"
    by (cases a; cases b) (simp_all add: less_eq_DiarySeverity_def)
qed (auto simp: less_eq_DiarySeverity_def less_DiarySeverity_def)

end

instantiation AssociationDecayClass :: linorder
begin

definition less_eq_AssociationDecayClass :: "AssociationDecayClass \<Rightarrow> AssociationDecayClass \<Rightarrow> bool" where
  "less_eq_AssociationDecayClass a b \<longleftrightarrow> AssociationDecayClass_raw a \<le> AssociationDecayClass_raw b"

definition less_AssociationDecayClass :: "AssociationDecayClass \<Rightarrow> AssociationDecayClass \<Rightarrow> bool" where
  "less_AssociationDecayClass a b \<longleftrightarrow> AssociationDecayClass_raw a < AssociationDecayClass_raw b"

instance
proof
  fix a b :: AssociationDecayClass
  show "a \<le> b \<Longrightarrow> b \<le> a \<Longrightarrow> a = b"
    by (cases a; cases b) (simp_all add: less_eq_AssociationDecayClass_def)
qed (auto simp: less_eq_AssociationDecayClass_def less_AssociationDecayClass_def)

end

section \<open>Every enum is a raw codec\<close>

interpretation State: raw_enum State_raw State_from_raw State_Active 6
proof
  fix x v
  show "State_from_raw (State_raw x) = x" by (cases x) (simp_all add: State_from_raw_def)
  show "State_from_raw v = State_Active \<or> State_raw (State_from_raw v) = v" by (simp add: State_from_raw_def)
  show "0 \<le> State_raw x" "State_raw x < 2 ^ 6" by (cases x; simp)+
qed simp_all

interpretation Trust: raw_enum Trust_raw Trust_from_raw Trust_Verbatim 6
proof
  fix x v
  show "Trust_from_raw (Trust_raw x) = x" by (cases x) (simp_all add: Trust_from_raw_def)
  show "Trust_from_raw v = Trust_Verbatim \<or> Trust_raw (Trust_from_raw v) = v" by (simp add: Trust_from_raw_def)
  show "0 \<le> Trust_raw x" "Trust_raw x < 2 ^ 6" by (cases x; simp)+
qed simp_all

interpretation AdjectiveSensitivity: raw_enum AdjectiveSensitivity_raw AdjectiveSensitivity_from_raw AdjectiveSensitivity_Normal 6
proof
  fix x v
  show "AdjectiveSensitivity_from_raw (AdjectiveSensitivity_raw x) = x" by (cases x) (simp_all add: AdjectiveSensitivity_from_raw_def)
  show "AdjectiveSensitivity_from_raw v = AdjectiveSensitivity_Normal \<or> AdjectiveSensitivity_raw (AdjectiveSensitivity_from_raw v) = v" by (simp add: AdjectiveSensitivity_from_raw_def)
  show "0 \<le> AdjectiveSensitivity_raw x" "AdjectiveSensitivity_raw x < 2 ^ 6" by (cases x; simp)+
qed simp_all

interpretation AdjectiveExportability: raw_enum AdjectiveExportability_raw AdjectiveExportability_from_raw AdjectiveExportability_Private 6
proof
  fix x v
  show "AdjectiveExportability_from_raw (AdjectiveExportability_raw x) = x" by (cases x) (simp_all add: AdjectiveExportability_from_raw_def)
  show "AdjectiveExportability_from_raw v = AdjectiveExportability_Private \<or> AdjectiveExportability_raw (AdjectiveExportability_from_raw v) = v" by (simp add: AdjectiveExportability_from_raw_def)
  show "0 \<le> AdjectiveExportability_raw x" "AdjectiveExportability_raw x < 2 ^ 6" by (cases x; simp)+
qed simp_all

interpretation CaptureChannel: raw_enum CaptureChannel_raw CaptureChannel_from_raw CaptureChannel_Typed 6
proof
  fix x v
  show "CaptureChannel_from_raw (CaptureChannel_raw x) = x" by (cases x) (simp_all add: CaptureChannel_from_raw_def)
  show "CaptureChannel_from_raw v = CaptureChannel_Typed \<or> CaptureChannel_raw (CaptureChannel_from_raw v) = v" by (simp add: CaptureChannel_from_raw_def)
  show "0 \<le> CaptureChannel_raw x" "CaptureChannel_raw x < 2 ^ 6" by (cases x; simp)+
qed simp_all

interpretation ContentKind: raw_enum ContentKind_raw ContentKind_from_raw ContentKind_Prose 6
proof
  fix x v
  show "ContentKind_from_raw (ContentKind_raw x) = x" by (cases x) (simp_all add: ContentKind_from_raw_def)
  show "ContentKind_from_raw v = ContentKind_Prose \<or> ContentKind_raw (ContentKind_from_raw v) = v" by (simp add: ContentKind_from_raw_def)
  show "0 \<le> ContentKind_raw x" "ContentKind_raw x < 2 ^ 6" by (cases x; simp)+
qed simp_all

interpretation SourceType: raw_enum SourceType_raw SourceType_from_raw SourceType_User 6
proof
  fix x v
  show "SourceType_from_raw (SourceType_raw x) = x" by (cases x) (simp_all add: SourceType_from_raw_def)
  show "SourceType_from_raw v = SourceType_User \<or> SourceType_raw (SourceType_from_raw v) = v" by (simp add: SourceType_from_raw_def)
  show "0 \<le> SourceType_raw x" "SourceType_raw x < 2 ^ 6" by (cases x; simp)+
qed simp_all

interpretation Channel: raw_enum Channel_raw Channel_from_raw Channel_UiTyped 6
proof
  fix x v
  show "Channel_from_raw (Channel_raw x) = x" by (cases x) (simp_all add: Channel_from_raw_def)
  show "Channel_from_raw v = Channel_UiTyped \<or> Channel_raw (Channel_from_raw v) = v" by (simp add: Channel_from_raw_def)
  show "0 \<le> Channel_raw x" "Channel_raw x < 2 ^ 6" by (cases x; simp)+
qed simp_all

interpretation Confirmation: raw_enum Confirmation_raw Confirmation_from_raw Confirmation_Unconfirmed 6
proof
  fix x v
  show "Confirmation_from_raw (Confirmation_raw x) = x" by (cases x) (simp_all add: Confirmation_from_raw_def)
  show "Confirmation_from_raw v = Confirmation_Unconfirmed \<or> Confirmation_raw (Confirmation_from_raw v) = v" by (simp add: Confirmation_from_raw_def)
  show "0 \<le> Confirmation_raw x" "Confirmation_raw x < 2 ^ 6" by (cases x; simp)+
qed simp_all

interpretation Confidence: raw_enum Confidence_raw Confidence_from_raw Confidence_Null 6
proof
  fix x v
  show "Confidence_from_raw (Confidence_raw x) = x" by (cases x) (simp_all add: Confidence_from_raw_def)
  show "Confidence_from_raw v = Confidence_Null \<or> Confidence_raw (Confidence_from_raw v) = v" by (simp add: Confidence_from_raw_def)
  show "0 \<le> Confidence_raw x" "Confidence_raw x < 2 ^ 6" by (cases x; simp)+
qed simp_all

interpretation Sensitivity: raw_enum Sensitivity_raw Sensitivity_from_raw Sensitivity_Normal 6
proof
  fix x v
  show "Sensitivity_from_raw (Sensitivity_raw x) = x" by (cases x) (simp_all add: Sensitivity_from_raw_def)
  show "Sensitivity_from_raw v = Sensitivity_Normal \<or> Sensitivity_raw (Sensitivity_from_raw v) = v" by (simp add: Sensitivity_from_raw_def)
  show "0 \<le> Sensitivity_raw x" "Sensitivity_raw x < 2 ^ 6" by (cases x; simp)+
qed simp_all

interpretation EnrichmentStatus: raw_enum EnrichmentStatus_raw EnrichmentStatus_from_raw EnrichmentStatus_None 6
proof
  fix x v
  show "EnrichmentStatus_from_raw (EnrichmentStatus_raw x) = x" by (cases x) (simp_all add: EnrichmentStatus_from_raw_def)
  show "EnrichmentStatus_from_raw v = EnrichmentStatus_None \<or> EnrichmentStatus_raw (EnrichmentStatus_from_raw v) = v" by (simp add: EnrichmentStatus_from_raw_def)
  show "0 \<le> EnrichmentStatus_raw x" "EnrichmentStatus_raw x < 2 ^ 6" by (cases x; simp)+
qed simp_all

interpretation TunnelKind: raw_enum TunnelKind_raw TunnelKind_from_raw TunnelKind_References 6
proof
  fix x v
  show "TunnelKind_from_raw (TunnelKind_raw x) = x" by (cases x) (simp_all add: TunnelKind_from_raw_def)
  show "TunnelKind_from_raw v = TunnelKind_References \<or> TunnelKind_raw (TunnelKind_from_raw v) = v" by (simp add: TunnelKind_from_raw_def)
  show "0 \<le> TunnelKind_raw x" "TunnelKind_raw x < 2 ^ 6" by (cases x; simp)+
qed simp_all

interpretation TunnelDirection: raw_enum TunnelDirection_raw TunnelDirection_from_raw TunnelDirection_Directional 3
proof
  fix x v
  show "TunnelDirection_from_raw (TunnelDirection_raw x) = x" by (cases x) (simp_all add: TunnelDirection_from_raw_def)
  show "TunnelDirection_from_raw v = TunnelDirection_Directional \<or> TunnelDirection_raw (TunnelDirection_from_raw v) = v" by (simp add: TunnelDirection_from_raw_def)
  show "0 \<le> TunnelDirection_raw x" "TunnelDirection_raw x < 2 ^ 3" by (cases x; simp)+
qed simp_all

interpretation TunnelLifecycle: raw_enum TunnelLifecycle_raw TunnelLifecycle_from_raw TunnelLifecycle_Active 3
proof
  fix x v
  show "TunnelLifecycle_from_raw (TunnelLifecycle_raw x) = x" by (cases x) (simp_all add: TunnelLifecycle_from_raw_def)
  show "TunnelLifecycle_from_raw v = TunnelLifecycle_Active \<or> TunnelLifecycle_raw (TunnelLifecycle_from_raw v) = v" by (simp add: TunnelLifecycle_from_raw_def)
  show "0 \<le> TunnelLifecycle_raw x" "TunnelLifecycle_raw x < 2 ^ 3" by (cases x; simp)+
qed simp_all

interpretation TunnelOriginClass: raw_enum TunnelOriginClass_raw TunnelOriginClass_from_raw TunnelOriginClass_UserExplicit 3
proof
  fix x v
  show "TunnelOriginClass_from_raw (TunnelOriginClass_raw x) = x" by (cases x) (simp_all add: TunnelOriginClass_from_raw_def)
  show "TunnelOriginClass_from_raw v = TunnelOriginClass_UserExplicit \<or> TunnelOriginClass_raw (TunnelOriginClass_from_raw v) = v" by (simp add: TunnelOriginClass_from_raw_def)
  show "0 \<le> TunnelOriginClass_raw x" "TunnelOriginClass_raw x < 2 ^ 3" by (cases x; simp)+
qed simp_all

interpretation TunnelStrength: raw_enum TunnelStrength_raw TunnelStrength_from_raw TunnelStrength_Weak 3
proof
  fix x v
  show "TunnelStrength_from_raw (TunnelStrength_raw x) = x" by (cases x) (simp_all add: TunnelStrength_from_raw_def)
  show "TunnelStrength_from_raw v = TunnelStrength_Weak \<or> TunnelStrength_raw (TunnelStrength_from_raw v) = v" by (simp add: TunnelStrength_from_raw_def)
  show "0 \<le> TunnelStrength_raw x" "TunnelStrength_raw x < 2 ^ 3" by (cases x; simp)+
qed simp_all

interpretation ProposalKind: raw_enum ProposalKind_raw ProposalKind_from_raw ProposalKind_NewTunnel 6
proof
  fix x v
  show "ProposalKind_from_raw (ProposalKind_raw x) = x" by (cases x) (simp_all add: ProposalKind_from_raw_def)
  show "ProposalKind_from_raw v = ProposalKind_NewTunnel \<or> ProposalKind_raw (ProposalKind_from_raw v) = v" by (simp add: ProposalKind_from_raw_def)
  show "0 \<le> ProposalKind_raw x" "ProposalKind_raw x < 2 ^ 6" by (cases x; simp)+
qed simp_all

interpretation ProposalTargetObjectType: raw_enum ProposalTargetObjectType_raw ProposalTargetObjectType_from_raw ProposalTargetObjectType_Drawer 6
proof
  fix x v
  show "ProposalTargetObjectType_from_raw (ProposalTargetObjectType_raw x) = x" by (cases x) (simp_all add: ProposalTargetObjectType_from_raw_def)
  show "ProposalTargetObjectType_from_raw v = ProposalTargetObjectType_Drawer \<or> ProposalTargetObjectType_raw (ProposalTargetObjectType_from_raw v) = v" by (simp add: ProposalTargetObjectType_from_raw_def)
  show "0 \<le> ProposalTargetObjectType_raw x" "ProposalTargetObjectType_raw x < 2 ^ 6" by (cases x; simp)+
qed simp_all

interpretation ProposalConfirmationSource: raw_enum ProposalConfirmationSource_raw ProposalConfirmationSource_from_raw ProposalConfirmationSource_Human 6
proof
  fix x v
  show "ProposalConfirmationSource_from_raw (ProposalConfirmationSource_raw x) = x" by (cases x) (simp_all add: ProposalConfirmationSource_from_raw_def)
  show "ProposalConfirmationSource_from_raw v = ProposalConfirmationSource_Human \<or> ProposalConfirmationSource_raw (ProposalConfirmationSource_from_raw v) = v" by (simp add: ProposalConfirmationSource_from_raw_def)
  show "0 \<le> ProposalConfirmationSource_raw x" "ProposalConfirmationSource_raw x < 2 ^ 6" by (cases x; simp)+
qed simp_all

interpretation ProposalGeneratedByClass: raw_enum ProposalGeneratedByClass_raw ProposalGeneratedByClass_from_raw ProposalGeneratedByClass_DreamingDaemon 6
proof
  fix x v
  show "ProposalGeneratedByClass_from_raw (ProposalGeneratedByClass_raw x) = x" by (cases x) (simp_all add: ProposalGeneratedByClass_from_raw_def)
  show "ProposalGeneratedByClass_from_raw v = ProposalGeneratedByClass_DreamingDaemon \<or> ProposalGeneratedByClass_raw (ProposalGeneratedByClass_from_raw v) = v" by (simp add: ProposalGeneratedByClass_from_raw_def)
  show "0 \<le> ProposalGeneratedByClass_raw x" "ProposalGeneratedByClass_raw x < 2 ^ 6" by (cases x; simp)+
qed simp_all

interpretation ProposalConfidenceBucket: raw_enum ProposalConfidenceBucket_raw ProposalConfidenceBucket_from_raw ProposalConfidenceBucket_Null 6
proof
  fix x v
  show "ProposalConfidenceBucket_from_raw (ProposalConfidenceBucket_raw x) = x" by (cases x) (simp_all add: ProposalConfidenceBucket_from_raw_def)
  show "ProposalConfidenceBucket_from_raw v = ProposalConfidenceBucket_Null \<or> ProposalConfidenceBucket_raw (ProposalConfidenceBucket_from_raw v) = v" by (simp add: ProposalConfidenceBucket_from_raw_def)
  show "0 \<le> ProposalConfidenceBucket_raw x" "ProposalConfidenceBucket_raw x < 2 ^ 6" by (cases x; simp)+
qed simp_all

interpretation KGExtractorClass: raw_enum KGExtractorClass_raw KGExtractorClass_from_raw KGExtractorClass_Manual 4
proof
  fix x v
  show "KGExtractorClass_from_raw (KGExtractorClass_raw x) = x" by (cases x) (simp_all add: KGExtractorClass_from_raw_def)
  show "KGExtractorClass_from_raw v = KGExtractorClass_Manual \<or> KGExtractorClass_raw (KGExtractorClass_from_raw v) = v" by (simp add: KGExtractorClass_from_raw_def)
  show "0 \<le> KGExtractorClass_raw x" "KGExtractorClass_raw x < 2 ^ 4" by (cases x; simp)+
qed simp_all

interpretation KGAssertionKind: raw_enum KGAssertionKind_raw KGAssertionKind_from_raw KGAssertionKind_Asserted 3
proof
  fix x v
  show "KGAssertionKind_from_raw (KGAssertionKind_raw x) = x" by (cases x) (simp_all add: KGAssertionKind_from_raw_def)
  show "KGAssertionKind_from_raw v = KGAssertionKind_Asserted \<or> KGAssertionKind_raw (KGAssertionKind_from_raw v) = v" by (simp add: KGAssertionKind_from_raw_def)
  show "0 \<le> KGAssertionKind_raw x" "KGAssertionKind_raw x < 2 ^ 3" by (cases x; simp)+
qed simp_all

interpretation KGSpecificity: raw_enum KGSpecificity_raw KGSpecificity_from_raw KGSpecificity_General 3
proof
  fix x v
  show "KGSpecificity_from_raw (KGSpecificity_raw x) = x" by (cases x) (simp_all add: KGSpecificity_from_raw_def)
  show "KGSpecificity_from_raw v = KGSpecificity_General \<or> KGSpecificity_raw (KGSpecificity_from_raw v) = v" by (simp add: KGSpecificity_from_raw_def)
  show "0 \<le> KGSpecificity_raw x" "KGSpecificity_raw x < 2 ^ 3" by (cases x; simp)+
qed simp_all

interpretation KGConfidenceBand: raw_enum KGConfidenceBand_raw KGConfidenceBand_from_raw KGConfidenceBand_Unknown 3
proof
  fix x v
  show "KGConfidenceBand_from_raw (KGConfidenceBand_raw x) = x" by (cases x) (simp_all add: KGConfidenceBand_from_raw_def)
  show "KGConfidenceBand_from_raw v = KGConfidenceBand_Unknown \<or> KGConfidenceBand_raw (KGConfidenceBand_from_raw v) = v" by (simp add: KGConfidenceBand_from_raw_def)
  show "0 \<le> KGConfidenceBand_raw x" "KGConfidenceBand_raw x < 2 ^ 3" by (cases x; simp)+
qed simp_all

interpretation DiaryEventClass: raw_enum DiaryEventClass_raw DiaryEventClass_from_raw DiaryEventClass_Capture 4
proof
  fix x v
  show "DiaryEventClass_from_raw (DiaryEventClass_raw x) = x" by (cases x) (simp_all add: DiaryEventClass_from_raw_def)
  show "DiaryEventClass_from_raw v = DiaryEventClass_Capture \<or> DiaryEventClass_raw (DiaryEventClass_from_raw v) = v" by (simp add: DiaryEventClass_from_raw_def)
  show "0 \<le> DiaryEventClass_raw x" "DiaryEventClass_raw x < 2 ^ 4" by (cases x; simp)+
qed simp_all

interpretation DiarySeverity: raw_enum DiarySeverity_raw DiarySeverity_from_raw DiarySeverity_Trace 3
proof
  fix x v
  show "DiarySeverity_from_raw (DiarySeverity_raw x) = x" by (cases x) (simp_all add: DiarySeverity_from_raw_def)
  show "DiarySeverity_from_raw v = DiarySeverity_Trace \<or> DiarySeverity_raw (DiarySeverity_from_raw v) = v" by (simp add: DiarySeverity_from_raw_def)
  show "0 \<le> DiarySeverity_raw x" "DiarySeverity_raw x < 2 ^ 3" by (cases x; simp)+
qed simp_all

interpretation DiaryActorClass: raw_enum DiaryActorClass_raw DiaryActorClass_from_raw DiaryActorClass_User 3
proof
  fix x v
  show "DiaryActorClass_from_raw (DiaryActorClass_raw x) = x" by (cases x) (simp_all add: DiaryActorClass_from_raw_def)
  show "DiaryActorClass_from_raw v = DiaryActorClass_User \<or> DiaryActorClass_raw (DiaryActorClass_from_raw v) = v" by (simp add: DiaryActorClass_from_raw_def)
  show "0 \<le> DiaryActorClass_raw x" "DiaryActorClass_raw x < 2 ^ 3" by (cases x; simp)+
qed simp_all

interpretation DiaryBatchMembership: raw_enum DiaryBatchMembership_raw DiaryBatchMembership_from_raw DiaryBatchMembership_Standalone 3
proof
  fix x v
  show "DiaryBatchMembership_from_raw (DiaryBatchMembership_raw x) = x" by (cases x) (simp_all add: DiaryBatchMembership_from_raw_def)
  show "DiaryBatchMembership_from_raw v = DiaryBatchMembership_Standalone \<or> DiaryBatchMembership_raw (DiaryBatchMembership_from_raw v) = v" by (simp add: DiaryBatchMembership_from_raw_def)
  show "0 \<le> DiaryBatchMembership_raw x" "DiaryBatchMembership_raw x < 2 ^ 3" by (cases x; simp)+
qed simp_all

interpretation AssociationDecayClass: raw_enum AssociationDecayClass_raw AssociationDecayClass_from_raw AssociationDecayClass_Pinned 6
proof
  fix x v
  show "AssociationDecayClass_from_raw (AssociationDecayClass_raw x) = x" by (cases x) (simp_all add: AssociationDecayClass_from_raw_def)
  show "AssociationDecayClass_from_raw v = AssociationDecayClass_Pinned \<or> AssociationDecayClass_raw (AssociationDecayClass_from_raw v) = v" by (simp add: AssociationDecayClass_from_raw_def)
  show "0 \<le> AssociationDecayClass_raw x" "AssociationDecayClass_raw x < 2 ^ 6" by (cases x; simp)+
qed simp_all

interpretation AssociationArity: raw_enum AssociationArity_raw AssociationArity_from_raw AssociationArity_Binary 2
proof
  fix x v
  show "AssociationArity_from_raw (AssociationArity_raw x) = x" by (cases x) (simp_all add: AssociationArity_from_raw_def)
  show "AssociationArity_from_raw v = AssociationArity_Binary \<or> AssociationArity_raw (AssociationArity_from_raw v) = v" by (simp add: AssociationArity_from_raw_def)
  show "0 \<le> AssociationArity_raw x" "AssociationArity_raw x < 2 ^ 2" by (cases x; simp)+
qed simp_all

text \<open>Over the bit fields.\<close>

sublocale bit_field \<subseteq> State_field: field_enum extract_field extract_flag write_field popcnt
    State_raw State_from_raw State_Active 6 ..

sublocale bit_field \<subseteq> Trust_field: field_enum extract_field extract_flag write_field popcnt
    Trust_raw Trust_from_raw Trust_Verbatim 6 ..

sublocale bit_field \<subseteq> AdjectiveSensitivity_field: field_enum extract_field extract_flag write_field popcnt
    AdjectiveSensitivity_raw AdjectiveSensitivity_from_raw AdjectiveSensitivity_Normal 6 ..

sublocale bit_field \<subseteq> AdjectiveExportability_field: field_enum extract_field extract_flag write_field popcnt
    AdjectiveExportability_raw AdjectiveExportability_from_raw AdjectiveExportability_Private 6 ..

sublocale bit_field \<subseteq> CaptureChannel_field: field_enum extract_field extract_flag write_field popcnt
    CaptureChannel_raw CaptureChannel_from_raw CaptureChannel_Typed 6 ..

sublocale bit_field \<subseteq> ContentKind_field: field_enum extract_field extract_flag write_field popcnt
    ContentKind_raw ContentKind_from_raw ContentKind_Prose 6 ..

sublocale bit_field \<subseteq> SourceType_field: field_enum extract_field extract_flag write_field popcnt
    SourceType_raw SourceType_from_raw SourceType_User 6 ..

sublocale bit_field \<subseteq> Channel_field: field_enum extract_field extract_flag write_field popcnt
    Channel_raw Channel_from_raw Channel_UiTyped 6 ..

sublocale bit_field \<subseteq> Confirmation_field: field_enum extract_field extract_flag write_field popcnt
    Confirmation_raw Confirmation_from_raw Confirmation_Unconfirmed 6 ..

sublocale bit_field \<subseteq> Confidence_field: field_enum extract_field extract_flag write_field popcnt
    Confidence_raw Confidence_from_raw Confidence_Null 6 ..

sublocale bit_field \<subseteq> Sensitivity_field: field_enum extract_field extract_flag write_field popcnt
    Sensitivity_raw Sensitivity_from_raw Sensitivity_Normal 6 ..

sublocale bit_field \<subseteq> EnrichmentStatus_field: field_enum extract_field extract_flag write_field popcnt
    EnrichmentStatus_raw EnrichmentStatus_from_raw EnrichmentStatus_None 6 ..

sublocale bit_field \<subseteq> TunnelKind_field: field_enum extract_field extract_flag write_field popcnt
    TunnelKind_raw TunnelKind_from_raw TunnelKind_References 6 ..

sublocale bit_field \<subseteq> TunnelDirection_field: field_enum extract_field extract_flag write_field popcnt
    TunnelDirection_raw TunnelDirection_from_raw TunnelDirection_Directional 3 ..

sublocale bit_field \<subseteq> TunnelLifecycle_field: field_enum extract_field extract_flag write_field popcnt
    TunnelLifecycle_raw TunnelLifecycle_from_raw TunnelLifecycle_Active 3 ..

sublocale bit_field \<subseteq> TunnelOriginClass_field: field_enum extract_field extract_flag write_field popcnt
    TunnelOriginClass_raw TunnelOriginClass_from_raw TunnelOriginClass_UserExplicit 3 ..

sublocale bit_field \<subseteq> TunnelStrength_field: field_enum extract_field extract_flag write_field popcnt
    TunnelStrength_raw TunnelStrength_from_raw TunnelStrength_Weak 3 ..

sublocale bit_field \<subseteq> ProposalKind_field: field_enum extract_field extract_flag write_field popcnt
    ProposalKind_raw ProposalKind_from_raw ProposalKind_NewTunnel 6 ..

sublocale bit_field \<subseteq> ProposalTargetObjectType_field: field_enum extract_field extract_flag write_field popcnt
    ProposalTargetObjectType_raw ProposalTargetObjectType_from_raw ProposalTargetObjectType_Drawer 6 ..

sublocale bit_field \<subseteq> ProposalConfirmationSource_field: field_enum extract_field extract_flag write_field popcnt
    ProposalConfirmationSource_raw ProposalConfirmationSource_from_raw ProposalConfirmationSource_Human 6 ..

sublocale bit_field \<subseteq> ProposalGeneratedByClass_field: field_enum extract_field extract_flag write_field popcnt
    ProposalGeneratedByClass_raw ProposalGeneratedByClass_from_raw ProposalGeneratedByClass_DreamingDaemon 6 ..

sublocale bit_field \<subseteq> ProposalConfidenceBucket_field: field_enum extract_field extract_flag write_field popcnt
    ProposalConfidenceBucket_raw ProposalConfidenceBucket_from_raw ProposalConfidenceBucket_Null 6 ..

sublocale bit_field \<subseteq> KGExtractorClass_field: field_enum extract_field extract_flag write_field popcnt
    KGExtractorClass_raw KGExtractorClass_from_raw KGExtractorClass_Manual 4 ..

sublocale bit_field \<subseteq> KGAssertionKind_field: field_enum extract_field extract_flag write_field popcnt
    KGAssertionKind_raw KGAssertionKind_from_raw KGAssertionKind_Asserted 3 ..

sublocale bit_field \<subseteq> KGSpecificity_field: field_enum extract_field extract_flag write_field popcnt
    KGSpecificity_raw KGSpecificity_from_raw KGSpecificity_General 3 ..

sublocale bit_field \<subseteq> KGConfidenceBand_field: field_enum extract_field extract_flag write_field popcnt
    KGConfidenceBand_raw KGConfidenceBand_from_raw KGConfidenceBand_Unknown 3 ..

sublocale bit_field \<subseteq> DiaryEventClass_field: field_enum extract_field extract_flag write_field popcnt
    DiaryEventClass_raw DiaryEventClass_from_raw DiaryEventClass_Capture 4 ..

sublocale bit_field \<subseteq> DiarySeverity_field: field_enum extract_field extract_flag write_field popcnt
    DiarySeverity_raw DiarySeverity_from_raw DiarySeverity_Trace 3 ..

sublocale bit_field \<subseteq> DiaryActorClass_field: field_enum extract_field extract_flag write_field popcnt
    DiaryActorClass_raw DiaryActorClass_from_raw DiaryActorClass_User 3 ..

sublocale bit_field \<subseteq> DiaryBatchMembership_field: field_enum extract_field extract_flag write_field popcnt
    DiaryBatchMembership_raw DiaryBatchMembership_from_raw DiaryBatchMembership_Standalone 3 ..

sublocale bit_field \<subseteq> AssociationDecayClass_field: field_enum extract_field extract_flag write_field popcnt
    AssociationDecayClass_raw AssociationDecayClass_from_raw AssociationDecayClass_Pinned 6 ..

sublocale bit_field \<subseteq> AssociationArity_field: field_enum extract_field extract_flag write_field popcnt
    AssociationArity_raw AssociationArity_from_raw AssociationArity_Binary 2 ..

end
