(* ===== verification/Locus_Rows.thy ===== *)
theory Locus_Rows
  imports Locus_Enums
begin

text \<open>
  The row types of LocusKit with the accessors that decode their bitmap columns
  (\<open>drawer.rs\<close>, \<open>drawer_operational.rs\<close>, \<open>tunnel.rs\<close>,
  \<open>tunnel_operational.rs\<close>, \<open>proposal.rs\<close>, \<open>proposal_operational.rs\<close>,
  \<open>kg_fact.rs\<close>, \<open>kg_fact_operational.rs\<close>, \<open>association.rs\<close>,
  \<open>association_operational.rs\<close>, \<open>diary_entry.rs\<close>, \<open>diary_operational.rs\<close>).
  A bitmap is a 64-bit word, a timestamp an integer, an \<open>f64\<close> column its bit pattern, a UUID a
  128-bit word. The functions of \<open>bit_field\<close> are arguments; a field that is written reads
  back and the others keep their value.
\<close>

section \<open>Drawers\<close>

record lattice_anchor =
  anchor_udc_code :: string
  anchor_udc_facets :: "string option"
  anchor_wikidata_qid :: "string option"
  anchor_wikidata_qids_secondary :: "string option"

record drawer =
  drawer_id :: string
  lineage_id :: "128 word"
  content :: string
  parent_node_id :: string
  source_file :: "string option"
  chunk_index :: "int option"
  drawer_added_by :: string
  drawer_filed_at :: int
  event_time :: int
  embedding_model_id :: string
  drawer_tombstoned_at :: "int option"
  drawer_removed_by_batch :: "string option"
  provenance :: i64
  adjective_bitmap :: i64
  operational_bitmap :: i64
  udc_code :: string
  udc_facets :: "string option"
  wikidata_qid :: "string option"
  wikidata_qids_secondary :: "string option"

text \<open>The fresh lineage of \<open>Uuid::new_v4\<close> is an argument.\<close>

definition drawer_new :: "128 word \<Rightarrow> string \<Rightarrow> string \<Rightarrow> string \<Rightarrow> string \<Rightarrow> int \<Rightarrow> string \<Rightarrow> drawer" where
  "drawer_new fresh iid text parent by ts model =
     \<lparr>drawer_id = iid, lineage_id = fresh, content = text, parent_node_id = parent,
      source_file = None, chunk_index = None, drawer_added_by = by, drawer_filed_at = ts,
      event_time = ts, embedding_model_id = model, drawer_tombstoned_at = None,
      drawer_removed_by_batch = None, provenance = 0, adjective_bitmap = 0, operational_bitmap = 0,
      udc_code = [], udc_facets = None, wikidata_qid = None, wikidata_qids_secondary = None\<rparr>"

type_synonym extractor = "i64 \<Rightarrow> nat \<Rightarrow> nat \<Rightarrow> i64"

subsection \<open>Adjective bitmap\<close>

definition drawer_state :: "extractor \<Rightarrow> drawer \<Rightarrow> State" where
  "drawer_state ext d = State_from_raw (sint (ext (adjective_bitmap d) 0 6))"

definition adjective_sensitivity :: "extractor \<Rightarrow> drawer \<Rightarrow> AdjectiveSensitivity" where
  "adjective_sensitivity ext d = AdjectiveSensitivity_from_raw (sint (ext (adjective_bitmap d) 6 6))"

definition exportability :: "extractor \<Rightarrow> drawer \<Rightarrow> AdjectiveExportability" where
  "exportability ext d = AdjectiveExportability_from_raw (sint (ext (adjective_bitmap d) 12 6))"

definition trust :: "extractor \<Rightarrow> drawer \<Rightarrow> Trust" where
  "trust ext d = Trust_from_raw (sint (ext (adjective_bitmap d) 18 6))"

definition is_currently_believed :: "extractor \<Rightarrow> drawer \<Rightarrow> bool" where
  "is_currently_believed ext d = is_cluster_a (drawer_state ext d)"

definition is_knew_past :: "extractor \<Rightarrow> drawer \<Rightarrow> bool" where
  "is_knew_past ext d \<longleftrightarrow>
     drawer_state ext d \<in> {State_Superseded, State_Decayed, State_Withdrawn, State_Expired}"

definition is_terminal :: "extractor \<Rightarrow> drawer \<Rightarrow> bool" where
  "is_terminal ext d \<longleftrightarrow> drawer_state ext d \<in> {State_Rejected, State_Tombstoned}"

definition dreaming_recalc_required :: "(i64 \<Rightarrow> nat \<Rightarrow> bool) \<Rightarrow> drawer \<Rightarrow> bool" where
  "dreaming_recalc_required flag d = flag (adjective_bitmap d) 26"

definition sealed :: "(i64 \<Rightarrow> nat \<Rightarrow> bool) \<Rightarrow> drawer \<Rightarrow> bool" where
  "sealed flag d = flag (adjective_bitmap d) 27"

subsection \<open>Operational bitmap\<close>

definition capture_channel :: "extractor \<Rightarrow> drawer \<Rightarrow> CaptureChannel" where
  "capture_channel ext d = CaptureChannel_from_raw (sint (ext (operational_bitmap d) 0 6))"

definition content_kind :: "extractor \<Rightarrow> drawer \<Rightarrow> ContentKind" where
  "content_kind ext d = ContentKind_from_raw (sint (ext (operational_bitmap d) 6 6))"

definition HAS_ATTACHMENTS :: i64 where "HAS_ATTACHMENTS = push_bit 12 1"

definition HAS_VOICE :: i64 where "HAS_VOICE = push_bit 13 1"

definition HAS_IMAGE :: i64 where "HAS_IMAGE = push_bit 14 1"

definition HAS_LINKS :: i64 where "HAS_LINKS = push_bit 15 1"

definition IS_PINNED :: i64 where "IS_PINNED = push_bit 16 1"

definition IS_KEYSTONE :: i64 where "IS_KEYSTONE = push_bit 17 1"

definition IS_LOCKED_ZONE :: i64 where "IS_LOCKED_ZONE = push_bit 18 1"

definition FIELD_MASK :: i64 where "FIELD_MASK = 0xFFF000"

definition feature_flags :: "drawer \<Rightarrow> i64" where
  "feature_flags d = operational_bitmap d AND FIELD_MASK"

definition has_feature_flag :: "drawer \<Rightarrow> i64 \<Rightarrow> bool" where
  "has_feature_flag d flg \<longleftrightarrow> operational_bitmap d AND flg = flg"

definition state_extension_active :: "(i64 \<Rightarrow> nat \<Rightarrow> bool) \<Rightarrow> drawer \<Rightarrow> bool" where
  "state_extension_active flag d = flag (operational_bitmap d) 24"

definition lineage_clustering_active :: "(i64 \<Rightarrow> nat \<Rightarrow> bool) \<Rightarrow> drawer \<Rightarrow> bool" where
  "lineage_clustering_active flag d = flag (operational_bitmap d) 25"

subsection \<open>Provenance bitmap\<close>

definition source_type :: "extractor \<Rightarrow> drawer \<Rightarrow> SourceType" where
  "source_type ext d = SourceType_from_raw (sint (ext (provenance d) 0 6))"

definition channel :: "extractor \<Rightarrow> drawer \<Rightarrow> Channel" where
  "channel ext d = Channel_from_raw (sint (ext (provenance d) 6 6))"

definition provenance_capture_channel :: "extractor \<Rightarrow> drawer \<Rightarrow> CaptureChannel" where
  "provenance_capture_channel ext d = CaptureChannel_from_raw (sint (ext (provenance d) 12 6))"

definition confirmation :: "extractor \<Rightarrow> drawer \<Rightarrow> Confirmation" where
  "confirmation ext d = Confirmation_from_raw (sint (ext (provenance d) 18 6))"

definition confidence :: "extractor \<Rightarrow> drawer \<Rightarrow> Confidence" where
  "confidence ext d = Confidence_from_raw (sint (ext (provenance d) 24 6))"

definition sensitivity :: "extractor \<Rightarrow> drawer \<Rightarrow> Sensitivity" where
  "sensitivity ext d = Sensitivity_from_raw (sint (ext (provenance d) 30 6))"

definition enrichment_status :: "extractor \<Rightarrow> drawer \<Rightarrow> EnrichmentStatus" where
  "enrichment_status ext d = EnrichmentStatus_from_raw (sint (ext (provenance d) 36 6))"

definition is_user_confirmed :: "extractor \<Rightarrow> drawer \<Rightarrow> bool" where
  "is_user_confirmed ext d \<longleftrightarrow> confirmation ext d = Confirmation_UserConfirmed"

section \<open>Tunnels\<close>

record tunnel =
  tunnel_id :: string
  source_wing :: string
  source_room :: string
  source_drawer_id :: "string option"
  target_wing :: string
  target_room :: string
  target_drawer_id :: "string option"
  tunnel_label :: string
  tunnel_kind :: TunnelKind
  tunnel_adjective :: i64
  tunnel_operational :: i64
  tunnel_provenance :: i64
  tunnel_added_by :: string
  tunnel_filed_at :: int
  tunnel_tombstoned_at :: "int option"
  tunnel_removed_by_batch :: "string option"
  order_key :: "u64 option"

definition tunnel_new :: "string \<Rightarrow> string \<Rightarrow> string \<Rightarrow> string \<Rightarrow> string \<Rightarrow> string \<Rightarrow> string \<Rightarrow> int \<Rightarrow> tunnel" where
  "tunnel_new iid sw sr tw tr lbl by ts =
     \<lparr>tunnel_id = iid, source_wing = sw, source_room = sr, source_drawer_id = None,
      target_wing = tw, target_room = tr, target_drawer_id = None, tunnel_label = lbl,
      tunnel_kind = TunnelKind_References, tunnel_adjective = 0, tunnel_operational = 0,
      tunnel_provenance = 0, tunnel_added_by = by, tunnel_filed_at = ts,
      tunnel_tombstoned_at = None, tunnel_removed_by_batch = None, order_key = None\<rparr>"

definition tunnel_adjective_sensitivity :: "extractor \<Rightarrow> tunnel \<Rightarrow> AdjectiveSensitivity" where
  "tunnel_adjective_sensitivity ext t = AdjectiveSensitivity_from_raw (sint (ext (tunnel_adjective t) 6 6))"

definition direction :: "extractor \<Rightarrow> tunnel \<Rightarrow> TunnelDirection" where
  "direction ext t = TunnelDirection_from_raw (sint (ext (tunnel_operational t) 0 3))"

definition lifecycle :: "extractor \<Rightarrow> tunnel \<Rightarrow> TunnelLifecycle" where
  "lifecycle ext t = TunnelLifecycle_from_raw (sint (ext (tunnel_operational t) 3 3))"

definition origin_class :: "extractor \<Rightarrow> tunnel \<Rightarrow> TunnelOriginClass" where
  "origin_class ext t = TunnelOriginClass_from_raw (sint (ext (tunnel_operational t) 6 3))"

definition strength :: "extractor \<Rightarrow> tunnel \<Rightarrow> TunnelStrength" where
  "strength ext t = TunnelStrength_from_raw (sint (ext (tunnel_operational t) 9 3))"

definition has_inverse :: "(i64 \<Rightarrow> nat \<Rightarrow> bool) \<Rightarrow> tunnel \<Rightarrow> bool" where
  "has_inverse flag t = flag (tunnel_operational t) 12"

definition IS_RETIRED_BIT :: i64 where "IS_RETIRED_BIT = push_bit 13 1"

definition is_retired :: "tunnel \<Rightarrow> bool" where
  "is_retired t \<longleftrightarrow> tunnel_operational t AND IS_RETIRED_BIT \<noteq> 0"

definition with_retired :: "tunnel \<Rightarrow> tunnel" where
  "with_retired t = t\<lparr>tunnel_operational := tunnel_operational t OR IS_RETIRED_BIT\<rparr>"

definition with_unretired :: "tunnel \<Rightarrow> tunnel" where
  "with_unretired t = t\<lparr>tunnel_operational := tunnel_operational t AND NOT IS_RETIRED_BIT\<rparr>"

definition with_lifecycle :: "(i64 \<Rightarrow> i64 \<Rightarrow> nat \<Rightarrow> nat \<Rightarrow> i64) \<Rightarrow> tunnel \<Rightarrow> TunnelLifecycle \<Rightarrow> tunnel" where
  "with_lifecycle wr t l =
     t\<lparr>tunnel_operational := wr (word_of_int (TunnelLifecycle_raw l)) (tunnel_operational t) 3 3\<rparr>"

definition IS_DREAMED_BIT :: i64 where "IS_DREAMED_BIT = push_bit 0 1"

definition is_dreamed :: "tunnel \<Rightarrow> bool" where
  "is_dreamed t \<longleftrightarrow> tunnel_provenance t AND IS_DREAMED_BIT \<noteq> 0"

definition with_dreamed_provenance :: "tunnel \<Rightarrow> tunnel" where
  "with_dreamed_provenance t = t\<lparr>tunnel_provenance := tunnel_provenance t OR IS_DREAMED_BIT\<rparr>"

section \<open>Proposals, facts, diary entries and associations\<close>

record proposal =
  proposal_id :: string
  target_row_id :: string
  justification :: "string option"
  candidate_state :: int
  proposal_anchor :: lattice_anchor
  proposal_adjective :: i64
  proposal_operational :: i64
  proposal_provenance :: i64
  proposal_filed_at :: int

definition proposal_new :: "string \<Rightarrow> string \<Rightarrow> lattice_anchor \<Rightarrow> int \<Rightarrow> proposal" where
  "proposal_new iid target anchor ts =
     \<lparr>proposal_id = iid, target_row_id = target, justification = None, candidate_state = 0,
      proposal_anchor = anchor, proposal_adjective = 0, proposal_operational = 0,
      proposal_provenance = 0, proposal_filed_at = ts\<rparr>"

definition proposal_state :: "extractor \<Rightarrow> proposal \<Rightarrow> State" where
  "proposal_state ext p = State_from_raw (sint (ext (proposal_adjective p) 0 6))"

definition proposal_kind :: "extractor \<Rightarrow> proposal \<Rightarrow> ProposalKind" where
  "proposal_kind ext p = ProposalKind_from_raw (sint (ext (proposal_operational p) 0 6))"

definition target_object_type :: "extractor \<Rightarrow> proposal \<Rightarrow> ProposalTargetObjectType" where
  "target_object_type ext p = ProposalTargetObjectType_from_raw (sint (ext (proposal_operational p) 6 6))"

definition confirmation_source :: "extractor \<Rightarrow> proposal \<Rightarrow> ProposalConfirmationSource" where
  "confirmation_source ext p = ProposalConfirmationSource_from_raw (sint (ext (proposal_operational p) 12 6))"

definition generated_by_class :: "extractor \<Rightarrow> proposal \<Rightarrow> ProposalGeneratedByClass" where
  "generated_by_class ext p = ProposalGeneratedByClass_from_raw (sint (ext (proposal_operational p) 18 6))"

definition confidence_bucket :: "extractor \<Rightarrow> proposal \<Rightarrow> ProposalConfidenceBucket" where
  "confidence_bucket ext p = ProposalConfidenceBucket_from_raw (sint (ext (proposal_operational p) 24 6))"

definition compose_operational ::
    "(i64 \<Rightarrow> i64 \<Rightarrow> nat \<Rightarrow> nat \<Rightarrow> i64) \<Rightarrow> ProposalKind \<Rightarrow> ProposalTargetObjectType
      \<Rightarrow> ProposalGeneratedByClass \<Rightarrow> ProposalConfidenceBucket \<Rightarrow> i64" where
  "compose_operational wr kind target generated conf =
     (let bits = 0;
          bits = wr (word_of_int (ProposalKind_raw kind)) bits 0 6;
          bits = wr (word_of_int (ProposalTargetObjectType_raw target)) bits 6 6;
          bits = wr (word_of_int (ProposalGeneratedByClass_raw generated)) bits 18 6;
          bits = wr (word_of_int (ProposalConfidenceBucket_raw conf)) bits 24 6
      in bits)"

record kg_fact =
  fact_id :: string
  fact_subject :: string
  fact_predicate :: string
  fact_object :: string
  fact_source_drawer_id :: string
  fact_adjective :: i64
  fact_operational :: i64
  fact_provenance :: i64
  fact_filed_at :: int

definition kg_fact_new :: "string \<Rightarrow> string \<Rightarrow> string \<Rightarrow> string \<Rightarrow> string \<Rightarrow> int \<Rightarrow> kg_fact" where
  "kg_fact_new iid subj pred obj src ts =
     \<lparr>fact_id = iid, fact_subject = subj, fact_predicate = pred, fact_object = obj,
      fact_source_drawer_id = src, fact_adjective = 0, fact_operational = 0, fact_provenance = 0,
      fact_filed_at = ts\<rparr>"

definition fact_trust :: "extractor \<Rightarrow> kg_fact \<Rightarrow> Trust" where
  "fact_trust ext f = Trust_from_raw (sint (ext (fact_adjective f) 18 6))"

definition fact_state :: "extractor \<Rightarrow> kg_fact \<Rightarrow> State" where
  "fact_state ext f = State_from_raw (sint (ext (fact_adjective f) 0 6))"

definition fact_sensitivity :: "extractor \<Rightarrow> kg_fact \<Rightarrow> AdjectiveSensitivity" where
  "fact_sensitivity ext f = AdjectiveSensitivity_from_raw (sint (ext (fact_adjective f) 6 6))"

definition fact_exportability :: "extractor \<Rightarrow> kg_fact \<Rightarrow> AdjectiveExportability" where
  "fact_exportability ext f = AdjectiveExportability_from_raw (sint (ext (fact_adjective f) 12 6))"

definition extractor_class :: "extractor \<Rightarrow> kg_fact \<Rightarrow> KGExtractorClass" where
  "extractor_class ext f = KGExtractorClass_from_raw (sint (ext (fact_operational f) 0 4))"

definition assertion_kind :: "extractor \<Rightarrow> kg_fact \<Rightarrow> KGAssertionKind" where
  "assertion_kind ext f = KGAssertionKind_from_raw (sint (ext (fact_operational f) 4 3))"

definition specificity :: "extractor \<Rightarrow> kg_fact \<Rightarrow> KGSpecificity" where
  "specificity ext f = KGSpecificity_from_raw (sint (ext (fact_operational f) 7 3))"

definition confidence_band :: "extractor \<Rightarrow> kg_fact \<Rightarrow> KGConfidenceBand" where
  "confidence_band ext f = KGConfidenceBand_from_raw (sint (ext (fact_operational f) 10 3))"

definition is_canonical :: "(i64 \<Rightarrow> nat \<Rightarrow> bool) \<Rightarrow> kg_fact \<Rightarrow> bool" where
  "is_canonical flag f = flag (fact_operational f) 13"

record diary_entry =
  diary_id :: string
  agent_name :: string
  diary_entry_text :: string
  diary_topic :: string
  diary_wing :: string
  diary_room :: string
  diary_filed_at :: int
  diary_embedding_model_id :: string
  diary_tombstoned_at :: "int option"
  diary_removed_by_batch :: "string option"
  diary_operational :: i64
  reward :: "u64 option"
  reward_provenance :: "string option"

definition diary_entry_new ::
    "string \<Rightarrow> string \<Rightarrow> string \<Rightarrow> string \<Rightarrow> string \<Rightarrow> string \<Rightarrow> int \<Rightarrow> string \<Rightarrow> diary_entry" where
  "diary_entry_new iid agent txt topic w r ts model =
     \<lparr>diary_id = iid, agent_name = agent, diary_entry_text = txt, diary_topic = topic, diary_wing = w,
      diary_room = r, diary_filed_at = ts, diary_embedding_model_id = model,
      diary_tombstoned_at = None, diary_removed_by_batch = None, diary_operational = 0,
      reward = None, reward_provenance = None\<rparr>"

definition event_class :: "extractor \<Rightarrow> diary_entry \<Rightarrow> DiaryEventClass" where
  "event_class ext d = DiaryEventClass_from_raw (sint (ext (diary_operational d) 0 4))"

definition severity :: "extractor \<Rightarrow> diary_entry \<Rightarrow> DiarySeverity" where
  "severity ext d = DiarySeverity_from_raw (sint (ext (diary_operational d) 4 3))"

definition actor_class :: "extractor \<Rightarrow> diary_entry \<Rightarrow> DiaryActorClass" where
  "actor_class ext d = DiaryActorClass_from_raw (sint (ext (diary_operational d) 7 3))"

definition batch_membership :: "extractor \<Rightarrow> diary_entry \<Rightarrow> DiaryBatchMembership" where
  "batch_membership ext d = DiaryBatchMembership_from_raw (sint (ext (diary_operational d) 10 3))"

definition requires_followup :: "(i64 \<Rightarrow> nat \<Rightarrow> bool) \<Rightarrow> diary_entry \<Rightarrow> bool" where
  "requires_followup flag d = flag (diary_operational d) 13"

record association =
  association_id :: string
  assoc_source_wing :: string
  assoc_source_room :: string
  assoc_source_drawer_id :: "string option"
  assoc_target_wing :: string
  assoc_target_room :: string
  assoc_target_drawer_id :: "string option"
  assoc_label :: string
  assoc_anchor :: lattice_anchor
  assoc_adjective :: i64
  assoc_operational :: i64
  assoc_provenance :: i64
  assoc_added_by :: string
  assoc_filed_at :: int
  assoc_tombstoned_at :: "int option"
  assoc_removed_by_batch :: "string option"

definition association_new :: "string \<Rightarrow> string \<Rightarrow> string \<Rightarrow> string \<Rightarrow> string \<Rightarrow> string
      \<Rightarrow> lattice_anchor \<Rightarrow> string \<Rightarrow> int \<Rightarrow> association" where
  "association_new iid sw sr tw tr lbl anchor by ts =
     \<lparr>association_id = iid, assoc_source_wing = sw, assoc_source_room = sr,
      assoc_source_drawer_id = None, assoc_target_wing = tw, assoc_target_room = tr,
      assoc_target_drawer_id = None, assoc_label = lbl, assoc_anchor = anchor,
      assoc_adjective = 0, assoc_operational = 0, assoc_provenance = 0, assoc_added_by = by,
      assoc_filed_at = ts, assoc_tombstoned_at = None, assoc_removed_by_batch = None\<rparr>"

datatype association_signal_sources = AssociationSignalSources (sources_raw: i64)

definition SIGNAL_MASK :: i64 where "SIGNAL_MASK = 0xFFF"

text \<open>The ten named sources, bits 0 to 9.\<close>

definition signal_source :: "nat \<Rightarrow> association_signal_sources" where
  "signal_source n = AssociationSignalSources (push_bit n 1)"

definition sources_contains :: "association_signal_sources \<Rightarrow> association_signal_sources \<Rightarrow> bool" where
  "sources_contains a b \<longleftrightarrow> sources_raw a AND sources_raw b = sources_raw b"

definition signal_sources_seen :: "association \<Rightarrow> association_signal_sources" where
  "signal_sources_seen a = AssociationSignalSources (assoc_operational a AND SIGNAL_MASK)"

definition decay_class :: "extractor \<Rightarrow> association \<Rightarrow> AssociationDecayClass" where
  "decay_class ext a = AssociationDecayClass_from_raw (sint (ext (assoc_operational a) 12 6))"

definition arity :: "extractor \<Rightarrow> association \<Rightarrow> AssociationArity" where
  "arity ext a = AssociationArity_from_raw (sint (ext (assoc_operational a) 18 2))"

section \<open>Clusters\<close>

text \<open>
  The documented shift-mask form of the three cluster predicates, on the raw value of the decoded
  state.
\<close>

lemma cluster_shift:
  "is_currently_believed ext d \<longleftrightarrow> drop_bit 4 (State_raw (drawer_state ext d)) AND 3 = 0"
  "is_knew_past ext d \<longleftrightarrow> drop_bit 4 (State_raw (drawer_state ext d)) AND 3 = 1"
  "is_terminal ext d \<longleftrightarrow> drop_bit 4 (State_raw (drawer_state ext d)) AND 3 = 2"
  by (cases "drawer_state ext d";
      simp add: is_currently_believed_def is_cluster_a_def is_knew_past_def is_terminal_def)+

section \<open>Written fields\<close>

lemma retired_bit: "b AND IS_RETIRED_BIT \<noteq> 0 \<longleftrightarrow> bit b 13"
  by (simp add: IS_RETIRED_BIT_def bit_iff_and_push_bit_not_eq_0)

lemma is_retired_bit: "is_retired t \<longleftrightarrow> bit (tunnel_operational t) 13"
  by (simp add: is_retired_def retired_bit)

lemma is_retired_simps:
  "is_retired (with_retired t)" "\<not> is_retired (with_unretired t)"
  by (simp_all add: is_retired_bit with_retired_def with_unretired_def IS_RETIRED_BIT_def bit_simps)

context bit_field
begin

lemma lifecycle_written:
  fixes t l
  defines "t' \<equiv> with_lifecycle write_field t l"
  shows "lifecycle extract_field t' = l"
    and "direction extract_field t' = direction extract_field t"
    and "origin_class extract_field t' = origin_class extract_field t"
    and "strength extract_field t' = strength extract_field t"
    and "has_inverse extract_flag t' = has_inverse extract_flag t"
    and "is_retired t' = is_retired t"
proof -
  note [simp] = t'_def with_lifecycle_def TunnelLifecycle_field.read_written
    TunnelLifecycle_field.keeps_others flag_write_other bit_write_field
  show "lifecycle extract_field t' = l" by (simp add: lifecycle_def)
  show "direction extract_field t' = direction extract_field t" by (simp add: direction_def)
  show "origin_class extract_field t' = origin_class extract_field t" by (simp add: origin_class_def)
  show "strength extract_field t' = strength extract_field t" by (simp add: strength_def)
  show "has_inverse extract_flag t' = has_inverse extract_flag t" by (simp add: has_inverse_def)
  show "is_retired t' = is_retired t" by (simp add: is_retired_bit)
qed

lemma composed_proposal:
  assumes "proposal_operational p = compose_operational write_field kind target generated conf"
  shows "proposal_kind extract_field p = kind"
    and "target_object_type extract_field p = target"
    and "generated_by_class extract_field p = generated"
    and "confidence_bucket extract_field p = conf"
    and "confirmation_source extract_field p = ProposalConfirmationSource_Human"
proof -
  have zero: "extract_field 0 12 6 = 0" by (simp add: extract_field_spec)
  note [simp] = assms compose_operational_def Let_def
    ProposalKind_field.read_written ProposalTargetObjectType_field.read_written
    ProposalGeneratedByClass_field.read_written ProposalConfidenceBucket_field.read_written
    ProposalKind_field.keeps_others ProposalTargetObjectType_field.keeps_others
    ProposalGeneratedByClass_field.keeps_others ProposalConfidenceBucket_field.keeps_others
  show "proposal_kind extract_field p = kind" by (simp add: proposal_kind_def)
  show "target_object_type extract_field p = target" by (simp add: target_object_type_def)
  show "generated_by_class extract_field p = generated" by (simp add: generated_by_class_def)
  show "confidence_bucket extract_field p = conf" by (simp add: confidence_bucket_def)
  show "confirmation_source extract_field p = ProposalConfirmationSource_Human"
    by (simp add: confirmation_source_def zero ProposalConfirmationSource_from_raw_def)
qed

text \<open>Writing the state of a drawer leaves its other adjective axes alone.\<close>

lemma state_written:
  assumes "adjective_bitmap d' = write_field (word_of_int (State_raw s)) (adjective_bitmap d) 0 6"
  shows "drawer_state extract_field d' = s"
    and "adjective_sensitivity extract_field d' = adjective_sensitivity extract_field d"
    and "exportability extract_field d' = exportability extract_field d"
    and "trust extract_field d' = trust extract_field d"
    and "sealed extract_flag d' = sealed extract_flag d"
proof -
  note [simp] = assms State_field.read_written State_field.keeps_others flag_write_other
  show "drawer_state extract_field d' = s" by (simp add: drawer_state_def)
  show "adjective_sensitivity extract_field d' = adjective_sensitivity extract_field d"
    by (simp add: adjective_sensitivity_def)
  show "exportability extract_field d' = exportability extract_field d" by (simp add: exportability_def)
  show "trust extract_field d' = trust extract_field d" by (simp add: trust_def)
  show "sealed extract_flag d' = sealed extract_flag d" by (simp add: sealed_def)
qed

end

end
