(* ===== verification/Row_Discipline.thy ===== *)
theory Row_Discipline
  imports Locus_Rows
begin

text \<open>
  The write discipline of LocusKit rows: the forbidden combination of the adjective bitmap
  (\<open>forbidden_combination_validator.rs\<close>) and the state-transition check
  (\<open>drawer_state_validator.rs\<close>) with the errors of \<open>error.rs\<close>. The row-state automaton
  of \<open>substrate_lib::row_state\<close> (its states, verbs and transition map) is external: a type and
  arguments of the definitions. A reason text is its template with its numeric and verb arguments.
\<close>

section \<open>Errors\<close>

datatype 'v reason = Reason string "int list" "'v list"

datatype 'v locuskit_error =
    DatabaseUnavailable string
  | DrawerNotFound string
  | TunnelNotFound string
  | DiaryEntryNotFound string
  | RecallTraceItemNotFound string
  | SqliteError string
  | SchemaTooNew int int
  | InvalidContent string
  | DisciplineViolation int int "'v reason"
  | CorruptStoredValue string string string
  | NotSupported string
  | WithdrawnDatasetHandle "128 word"

section \<open>The forbidden combination\<close>

definition is_secret_and_exportable :: "extractor \<Rightarrow> i64 \<Rightarrow> bool" where
  "is_secret_and_exportable ext bitmap =
     (let sens = sint (ext bitmap 6 6); expo = sint (ext bitmap 12 6)
      in sens = 48 \<and> expo = 32)"

definition validate_combination :: "extractor \<Rightarrow> i64 \<Rightarrow> 'v locuskit_error + unit" where
  "validate_combination ext bitmap =
     (if is_secret_and_exportable ext bitmap
      then Inl (DisciplineViolation (sint (ext bitmap 6 6)) (sint (ext bitmap 12 6))
             (Reason ''forbidden combination: sensitivity=secret AND exportability=exportable (spec I-3)'' [] []))
      else Inr ())"

section \<open>State transitions\<close>

definition bridge_error :: "State \<Rightarrow> State \<Rightarrow> 'v locuskit_error" where
  "bridge_error frm to =
     DisciplineViolation (State_raw frm) (State_raw to)
       (Reason ''internal: cannot bridge State::{:?} (raw {}) to RowState'' [State_raw frm, State_raw frm] [])"

definition target_error :: "('r \<Rightarrow> u8) \<Rightarrow> State \<Rightarrow> State \<Rightarrow> 'v \<Rightarrow> 'r \<Rightarrow> 'v locuskit_error" where
  "target_error row_raw frm to via nxt =
     DisciplineViolation (State_raw frm) (State_raw to)
       (Reason ''verb {:?} from {:?} produces {:?} (raw {}), not {:?}''
          [State_raw frm, uint (row_raw nxt), uint (row_raw nxt), State_raw to] [via])"

text \<open>
  \<open>validate\<close>: the raw value of the state goes through \<open>RowState::from_raw\<close> and the
  transition map, and the state reached must be the announced one.
\<close>

definition validate_transition ::
    "(u8 \<Rightarrow> 'r option) \<Rightarrow> ('r \<Rightarrow> u8) \<Rightarrow> ('r \<Rightarrow> 'v \<Rightarrow> 'r option) \<Rightarrow> State \<Rightarrow> State \<Rightarrow> 'v
      \<Rightarrow> 'v locuskit_error + unit" where
  "validate_transition row_from_raw row_raw transition frm to via =
     (case row_from_raw (word_of_int (State_raw frm)) of
        None \<Rightarrow> Inl (bridge_error frm to)
      | Some prior \<Rightarrow>
          (case transition prior via of
             None \<Rightarrow> Inl (DisciplineViolation (State_raw frm) (State_raw to)
                       (Reason ''no legal transition {:?} via {:?} in cookbook'' [State_raw frm] [via]))
           | Some nxt \<Rightarrow>
               if uint (row_raw nxt) \<noteq> State_raw to
               then Inl (target_error row_raw frm to via nxt)
               else Inr ()))"

datatype ('r, 'v) row_state_error = IllegalTransition 'r 'v | ViolatesInvariant string

definition validate_with_fields ::
    "(u8 \<Rightarrow> 'r option) \<Rightarrow> ('r \<Rightarrow> u8) \<Rightarrow> ('r \<Rightarrow> 'v \<Rightarrow> 'f \<Rightarrow> ('r, 'v) row_state_error + 'r)
      \<Rightarrow> State \<Rightarrow> State \<Rightarrow> 'v \<Rightarrow> 'f \<Rightarrow> 'v locuskit_error + unit" where
  "validate_with_fields row_from_raw row_raw sl_validate frm to via flds =
     (case row_from_raw (word_of_int (State_raw frm)) of
        None \<Rightarrow> Inl (bridge_error frm to)
      | Some prior \<Rightarrow>
          (case sl_validate prior via flds of
             Inl (IllegalTransition s v) \<Rightarrow>
               Inl (DisciplineViolation (State_raw frm) (State_raw to)
                 (Reason ''no legal transition {:?} via {:?} in cookbook'' [uint (row_raw s)] [v]))
           | Inl (ViolatesInvariant msg) \<Rightarrow>
               Inl (DisciplineViolation (State_raw frm) (State_raw to)
                 (Reason (''invariant violation: '' @ msg) [] []))
           | Inr nxt \<Rightarrow>
               if uint (row_raw nxt) \<noteq> State_raw to
               then Inl (target_error row_raw frm to via nxt)
               else Inr ()))"

section \<open>What the checks accept\<close>

lemma validate_transition_Ok:
  "validate_transition row_from_raw row_raw transition frm to via = Inr () \<longleftrightarrow>
     (\<exists>prior nxt. row_from_raw (word_of_int (State_raw frm)) = Some prior
        \<and> transition prior via = Some nxt \<and> uint (row_raw nxt) = State_raw to)"
  by (auto simp: validate_transition_def split: option.splits)

lemma validate_with_fields_Ok:
  "validate_with_fields row_from_raw row_raw sl_validate frm to via flds = Inr () \<longleftrightarrow>
     (\<exists>prior nxt. row_from_raw (word_of_int (State_raw frm)) = Some prior
        \<and> sl_validate prior via flds = Inr nxt \<and> uint (row_raw nxt) = State_raw to)"
  by (auto simp: validate_with_fields_def split: option.splits sum.splits row_state_error.splits)

lemma secret_exportable_typed:
  "is_secret_and_exportable ext (adjective_bitmap d) \<longleftrightarrow>
     adjective_sensitivity ext d = AdjectiveSensitivity_Secret
     \<and> exportability ext d = AdjectiveExportability_Public"
  by (simp add: is_secret_and_exportable_def adjective_sensitivity_def exportability_def
      AdjectiveSensitivity.from_raw_eq AdjectiveExportability.from_raw_eq)

end
