(* ===== verification/Bitmap_Evaluator.thy ===== *)
theory Bitmap_Evaluator
  imports Row_Discipline
begin

text \<open>
  The recall filter algebra (\<open>filter.rs\<close>), the bitmap primitives (\<open>bitmap_ops.rs\<close>) and
  the evaluator that runs a filter chain over drawer rows in three tiers
  (\<open>bitmap_evaluator.rs\<close>): default insertion, container pruning, bitmap tier, structured tier,
  content tier, ordering. A constructor of \<open>Filter\<close> carries the prefix \<open>F_\<close>. External
  code is an argument: the two bit-field functions, the Unicode lower-casing of the content tier,
  and the audit-log fold of historical recall.
\<close>

section \<open>Filters and frames\<close>

datatype state_cluster = KnowNow | KnewPast | Terminal

datatype hydration_level = Structured | Full | BitmapOnly

datatype recall_ordering = ByCaptureTimeDesc | ByCaptureTimeAsc | ByRoomAsc

datatype filter =
    F_CurrentlyBelieve
  | F_UsedToBelieve
  | F_KnewOnceAndErased
  | F_State State
  | F_StateInCluster state_cluster
  | F_Trustworthy
  | F_RequiresConfirmation
  | F_Trust Trust
  | F_TrustAtMost Trust
  | F_Sensitivity AdjectiveSensitivity
  | F_SensitivityAtMost AdjectiveSensitivity
  | F_Exportable
  | F_Contained
  | F_UserConfirmed
  | F_AutomatedConfirmedOnly
  | F_Unconfirmed
  | F_SourceType SourceType
  | F_Channel Channel
  | F_ConfidenceAtLeast Confidence
  | F_CaptureChannel CaptureChannel
  | F_ContentKind ContentKind
  | F_HasFeatureFlag i64
  | F_InRoom string
  | F_InWing string
  | F_LineageID "128 word"
  | F_CreatedAfter int
  | F_CreatedBefore int
  | F_LatticeAnchor lattice_anchor
  | F_LatticeUnder string
  | F_WikidataConcept string
  | F_ContentMatches string
  | F_All "filter list"
  | F_Any "filter list"
  | F_Not filter

record 'h recall_frame =
  filter_chain :: "filter list"
  frame_hydration :: hydration_level
  frame_limit :: "nat option"
  frame_ordering :: recall_ordering
  frame_as_of :: "'h option"
  trace_limit :: "nat option"

definition recall_frame_new :: "filter list \<Rightarrow> 'h recall_frame" where
  "recall_frame_new chain =
     \<lparr>filter_chain = chain, frame_hydration = Structured, frame_limit = None,
      frame_ordering = ByCaptureTimeDesc, frame_as_of = None, trace_limit = None\<rparr>"

section \<open>Bitmap primitives\<close>

definition and_mask :: "i64 \<Rightarrow> i64 \<Rightarrow> i64 \<Rightarrow> bool" where
  "and_mask bitmap msk expected \<longleftrightarrow> bitmap AND msk = expected"

datatype threshold_op = LessThan | LessThanOrEqual | GreaterThanOrEqual

definition threshold_compare ::
    "extractor \<Rightarrow> (i64 \<Rightarrow> nat) \<Rightarrow> i64 \<Rightarrow> i64 \<Rightarrow> nat \<Rightarrow> threshold_op \<Rightarrow> int \<Rightarrow> bool" where
  "threshold_compare ext pc bitmap msk s op v =
     (let field = sint (if msk = 0 then 0 else ext bitmap s (pc msk))
      in case op of
           LessThan \<Rightarrow> field < v
         | LessThanOrEqual \<Rightarrow> field \<le> v
         | GreaterThanOrEqual \<Rightarrow> v \<le> field)"

definition shift_extract :: "extractor \<Rightarrow> (i64 \<Rightarrow> nat) \<Rightarrow> i64 \<Rightarrow> nat \<Rightarrow> i64 \<Rightarrow> i64" where
  "shift_extract ext pc bitmap s msk = (if msk = 0 then 0 else ext bitmap s (pc msk))"

text \<open>The layout constants of the evaluator.\<close>

definition ADJ_STATE_MASK :: i64 where "ADJ_STATE_MASK = 0x3F"

definition ADJ_SENS_MASK :: i64 where "ADJ_SENS_MASK = push_bit 6 0x3F"

definition ADJ_EXPORT_MASK :: i64 where "ADJ_EXPORT_MASK = push_bit 12 0x3F"

definition ADJ_TRUST_MASK :: i64 where "ADJ_TRUST_MASK = push_bit 18 0x3F"

definition STATE_CLUSTER_MASK :: i64 where "STATE_CLUSTER_MASK = 3"

definition PROV_SOURCE_MASK :: i64 where "PROV_SOURCE_MASK = 0x3F"

definition PROV_CHANNEL_MASK :: i64 where "PROV_CHANNEL_MASK = 0xFC0"

definition PROV_CONFIRM_MASK :: i64 where "PROV_CONFIRM_MASK = 0xFC0000"

definition PROV_CONFIDENCE_MASK :: i64 where "PROV_CONFIDENCE_MASK = 0x3F000000"

definition OP_CHANNEL_MASK :: i64 where "OP_CHANNEL_MASK = 0x3F"

definition OP_CONTENT_KIND_MASK :: i64 where "OP_CONTENT_KIND_MASK = 0xFC0"

section \<open>Default insertion\<close>

fun is_bitmap_state_filter :: "filter \<Rightarrow> bool" where
  "is_bitmap_state_filter F_CurrentlyBelieve = True"
| "is_bitmap_state_filter F_UsedToBelieve = True"
| "is_bitmap_state_filter F_KnewOnceAndErased = True"
| "is_bitmap_state_filter (F_State _) = True"
| "is_bitmap_state_filter (F_StateInCluster _) = True"
| "is_bitmap_state_filter (F_All fs) = list_ex is_bitmap_state_filter fs"
| "is_bitmap_state_filter (F_Any fs) = list_ex is_bitmap_state_filter fs"
| "is_bitmap_state_filter (F_Not f) = is_bitmap_state_filter f"
| "is_bitmap_state_filter _ = False"

fun is_bitmap_trust_filter :: "filter \<Rightarrow> bool" where
  "is_bitmap_trust_filter F_Trustworthy = True"
| "is_bitmap_trust_filter F_RequiresConfirmation = True"
| "is_bitmap_trust_filter (F_Trust _) = True"
| "is_bitmap_trust_filter (F_TrustAtMost _) = True"
| "is_bitmap_trust_filter (F_All fs) = list_ex is_bitmap_trust_filter fs"
| "is_bitmap_trust_filter (F_Any fs) = list_ex is_bitmap_trust_filter fs"
| "is_bitmap_trust_filter (F_Not f) = is_bitmap_trust_filter f"
| "is_bitmap_trust_filter _ = False"

fun is_bitmap_sensitivity_filter :: "filter \<Rightarrow> bool" where
  "is_bitmap_sensitivity_filter (F_Sensitivity _) = True"
| "is_bitmap_sensitivity_filter (F_SensitivityAtMost _) = True"
| "is_bitmap_sensitivity_filter (F_All fs) = list_ex is_bitmap_sensitivity_filter fs"
| "is_bitmap_sensitivity_filter (F_Any fs) = list_ex is_bitmap_sensitivity_filter fs"
| "is_bitmap_sensitivity_filter (F_Not f) = is_bitmap_sensitivity_filter f"
| "is_bitmap_sensitivity_filter _ = False"

definition insert_defaults :: "filter list \<Rightarrow> filter list" where
  "insert_defaults chain =
     (let result = chain;
          result = (if \<not> list_ex is_bitmap_state_filter chain then F_CurrentlyBelieve # result else result);
          result = (if \<not> list_ex is_bitmap_trust_filter chain then F_Trustworthy # result else result);
          result = (if \<not> list_ex is_bitmap_sensitivity_filter chain
                    then F_SensitivityAtMost AdjectiveSensitivity_Elevated # result else result)
      in result)"

section \<open>Container pruning\<close>

record container_fingerprint =
  cf_adjective :: i64
  cf_operational :: i64
  cf_provenance :: i64

fun filter_is_prunable :: "filter \<Rightarrow> bool" where
  "filter_is_prunable (F_HasFeatureFlag _) = True"
| "filter_is_prunable (F_All fs) = list_ex filter_is_prunable fs"
| "filter_is_prunable (F_Any fs) = list_ex filter_is_prunable fs"
| "filter_is_prunable (F_Not f) = filter_is_prunable f"
| "filter_is_prunable _ = False"

definition chain_has_prunable_filter :: "filter list \<Rightarrow> bool" where
  "chain_has_prunable_filter chain = list_ex filter_is_prunable chain"

fun container_provably_excludes :: "container_fingerprint \<Rightarrow> filter \<Rightarrow> bool" where
  "container_provably_excludes fp (F_HasFeatureFlag flg) \<longleftrightarrow> cf_operational fp AND flg = 0"
| "container_provably_excludes fp (F_All fs) \<longleftrightarrow> list_ex (container_provably_excludes fp) fs"
| "container_provably_excludes fp (F_Any fs) \<longleftrightarrow> fs \<noteq> [] \<and> list_all (container_provably_excludes fp) fs"
| "container_provably_excludes fp _ \<longleftrightarrow> False"

definition container_survives :: "filter list \<Rightarrow> container_fingerprint \<Rightarrow> bool" where
  "container_survives chain fp \<longleftrightarrow> \<not> list_ex (container_provably_excludes fp) chain"

section \<open>Bitmap tier\<close>

fun evaluate_one :: "extractor \<Rightarrow> (i64 \<Rightarrow> nat) \<Rightarrow> i64 \<Rightarrow> i64 \<Rightarrow> i64 \<Rightarrow> filter \<Rightarrow> bool" where
  "evaluate_one ext pc adj op prov F_CurrentlyBelieve \<longleftrightarrow> shift_extract ext pc adj 4 STATE_CLUSTER_MASK = 0"
| "evaluate_one ext pc adj op prov F_UsedToBelieve \<longleftrightarrow> shift_extract ext pc adj 4 STATE_CLUSTER_MASK = 1"
| "evaluate_one ext pc adj op prov F_KnewOnceAndErased \<longleftrightarrow> shift_extract ext pc adj 4 STATE_CLUSTER_MASK = 2"
| "evaluate_one ext pc adj op prov (F_State s) \<longleftrightarrow> and_mask adj ADJ_STATE_MASK (word_of_int (State_raw s))"
| "evaluate_one ext pc adj op prov (F_StateInCluster c) \<longleftrightarrow>
     (let v = shift_extract ext pc adj 4 STATE_CLUSTER_MASK
      in case c of KnowNow \<Rightarrow> v = 0 | KnewPast \<Rightarrow> v = 1 | Terminal \<Rightarrow> v = 2)"
| "evaluate_one ext pc adj op prov F_Trustworthy \<longleftrightarrow> threshold_compare ext pc adj ADJ_TRUST_MASK 18 LessThan 4"
| "evaluate_one ext pc adj op prov F_RequiresConfirmation \<longleftrightarrow>
     threshold_compare ext pc adj ADJ_TRUST_MASK 18 GreaterThanOrEqual 4"
| "evaluate_one ext pc adj op prov (F_Trust t) \<longleftrightarrow>
     and_mask adj ADJ_TRUST_MASK (push_bit 18 (word_of_int (Trust_raw t)))"
| "evaluate_one ext pc adj op prov (F_TrustAtMost t) \<longleftrightarrow>
     threshold_compare ext pc adj ADJ_TRUST_MASK 18 LessThanOrEqual (Trust_raw t)"
| "evaluate_one ext pc adj op prov (F_Sensitivity s) \<longleftrightarrow>
     and_mask adj ADJ_SENS_MASK (push_bit 6 (word_of_int (AdjectiveSensitivity_raw s)))"
| "evaluate_one ext pc adj op prov (F_SensitivityAtMost s) \<longleftrightarrow>
     threshold_compare ext pc adj ADJ_SENS_MASK 6 LessThanOrEqual (AdjectiveSensitivity_raw s)"
| "evaluate_one ext pc adj op prov F_Exportable \<longleftrightarrow>
     and_mask adj ADJ_EXPORT_MASK
       (push_bit 12 (word_of_int (AdjectiveExportability_raw AdjectiveExportability_Public)))"
| "evaluate_one ext pc adj op prov F_Contained \<longleftrightarrow>
     and_mask adj ADJ_EXPORT_MASK
       (push_bit 12 (word_of_int (AdjectiveExportability_raw AdjectiveExportability_Private)))"
| "evaluate_one ext pc adj op prov F_UserConfirmed \<longleftrightarrow>
     threshold_compare ext pc prov PROV_CONFIRM_MASK 18 GreaterThanOrEqual 1"
| "evaluate_one ext pc adj op prov F_AutomatedConfirmedOnly \<longleftrightarrow>
     and_mask prov PROV_CONFIRM_MASK
       (push_bit 18 (word_of_int (Confirmation_raw Confirmation_AutomatedConfirmed)))"
| "evaluate_one ext pc adj op prov F_Unconfirmed \<longleftrightarrow> and_mask prov PROV_CONFIRM_MASK 0"
| "evaluate_one ext pc adj op prov (F_SourceType s) \<longleftrightarrow>
     and_mask prov PROV_SOURCE_MASK (push_bit 0 (word_of_int (SourceType_raw s)))"
| "evaluate_one ext pc adj op prov (F_ConfidenceAtLeast c) \<longleftrightarrow>
     threshold_compare ext pc prov PROV_CONFIDENCE_MASK 24 GreaterThanOrEqual (Confidence_raw c)"
| "evaluate_one ext pc adj op prov (F_Channel ch) \<longleftrightarrow>
     and_mask prov PROV_CHANNEL_MASK (push_bit 6 (word_of_int (Channel_raw ch)))"
| "evaluate_one ext pc adj op prov (F_CaptureChannel c) \<longleftrightarrow>
     and_mask op OP_CHANNEL_MASK (push_bit 0 (word_of_int (CaptureChannel_raw c)))"
| "evaluate_one ext pc adj op prov (F_ContentKind k) \<longleftrightarrow>
     and_mask op OP_CONTENT_KIND_MASK (push_bit 6 (word_of_int (ContentKind_raw k)))"
| "evaluate_one ext pc adj op prov (F_HasFeatureFlag flg) \<longleftrightarrow> op AND flg \<noteq> 0"
| "evaluate_one ext pc adj op prov (F_All fs) \<longleftrightarrow> list_all (evaluate_one ext pc adj op prov) fs"
| "evaluate_one ext pc adj op prov (F_Any fs) \<longleftrightarrow> list_ex (evaluate_one ext pc adj op prov) fs"
| "evaluate_one ext pc adj op prov (F_Not f) \<longleftrightarrow> \<not> evaluate_one ext pc adj op prov f"
| "evaluate_one ext pc adj op prov _ \<longleftrightarrow> True"

definition evaluate_bitmap_tier ::
    "extractor \<Rightarrow> (i64 \<Rightarrow> nat) \<Rightarrow> filter list \<Rightarrow> i64 \<Rightarrow> i64 \<Rightarrow> i64 \<Rightarrow> bool" where
  "evaluate_bitmap_tier ext pc chain adj op prov =
     (if shift_extract ext pc adj 0 ADJ_STATE_MASK = 33 then False
      else list_all (evaluate_one ext pc adj op prov) chain)"

section \<open>Structured tier\<close>

fun starts_with :: "string \<Rightarrow> string \<Rightarrow> bool" where
  "starts_with _ [] = True"
| "starts_with [] (_ # _) = False"
| "starts_with (a # as) (b # bs) \<longleftrightarrow> a = b \<and> starts_with as bs"

fun str_contains :: "string \<Rightarrow> string \<Rightarrow> bool" where
  "str_contains [] needle \<longleftrightarrow> needle = []"
| "str_contains (c # cs) needle \<longleftrightarrow> starts_with (c # cs) needle \<or> str_contains cs needle"

fun is_structural_filter :: "filter \<Rightarrow> bool" where
  "is_structural_filter (F_InRoom _) = True"
| "is_structural_filter (F_InWing _) = True"
| "is_structural_filter (F_LineageID _) = True"
| "is_structural_filter (F_CreatedAfter _) = True"
| "is_structural_filter (F_CreatedBefore _) = True"
| "is_structural_filter (F_LatticeAnchor _) = True"
| "is_structural_filter (F_LatticeUnder _) = True"
| "is_structural_filter (F_WikidataConcept _) = True"
| "is_structural_filter (F_All fs) = list_ex is_structural_filter fs"
| "is_structural_filter (F_Any fs) = list_ex is_structural_filter fs"
| "is_structural_filter (F_Not f) = is_structural_filter f"
| "is_structural_filter _ = False"

type_synonym node_names = "string \<rightharpoonup> string \<times> string"

definition wing_room :: "node_names \<Rightarrow> drawer \<Rightarrow> string \<times> string" where
  "wing_room names d = (case names (parent_node_id d) of Some wr \<Rightarrow> wr | None \<Rightarrow> ([], []))"

definition matches_concept :: "drawer \<Rightarrow> string \<Rightarrow> bool" where
  "matches_concept d q =
     (if wikidata_qid d = Some q then True
      else (case wikidata_qids_secondary d of
              Some sec \<Rightarrow> str_contains ('','' @ sec @ '','') ('','' @ q @ '','')
            | None \<Rightarrow> False))"

fun evaluate_structured :: "node_names \<Rightarrow> drawer \<Rightarrow> filter \<Rightarrow> bool" where
  "evaluate_structured names d (F_InRoom r) \<longleftrightarrow> snd (wing_room names d) = r"
| "evaluate_structured names d (F_InWing w) \<longleftrightarrow> fst (wing_room names d) = w"
| "evaluate_structured names d (F_LineageID l) \<longleftrightarrow> lineage_id d = l"
| "evaluate_structured names d (F_CreatedAfter t) \<longleftrightarrow> t < drawer_filed_at d"
| "evaluate_structured names d (F_CreatedBefore t) \<longleftrightarrow> drawer_filed_at d < t"
| "evaluate_structured names d (F_LatticeAnchor a) \<longleftrightarrow> udc_code d = anchor_udc_code a"
| "evaluate_structured names d (F_LatticeUnder p) \<longleftrightarrow> starts_with (udc_code d) p"
| "evaluate_structured names d (F_WikidataConcept q) \<longleftrightarrow> matches_concept d q"
| "evaluate_structured names d (F_All fs) \<longleftrightarrow>
     list_all (\<lambda>f. is_structural_filter f \<longrightarrow> evaluate_structured names d f) fs"
| "evaluate_structured names d (F_Any fs) \<longleftrightarrow>
     \<not> list_ex is_structural_filter fs
     \<or> list_ex (\<lambda>f. is_structural_filter f \<and> evaluate_structured names d f) fs"
| "evaluate_structured names d (F_Not f) \<longleftrightarrow> \<not> is_structural_filter f \<or> \<not> evaluate_structured names d f"
| "evaluate_structured names d _ \<longleftrightarrow> True"

definition evaluate_structured_tier :: "node_names \<Rightarrow> filter list \<Rightarrow> drawer \<Rightarrow> bool" where
  "evaluate_structured_tier names chain d = list_all (evaluate_structured names d) chain"

section \<open>Content tier\<close>

fun is_content_filter :: "filter \<Rightarrow> bool" where
  "is_content_filter (F_ContentMatches _) = True"
| "is_content_filter (F_All fs) = list_ex is_content_filter fs"
| "is_content_filter (F_Any fs) = list_ex is_content_filter fs"
| "is_content_filter (F_Not f) = is_content_filter f"
| "is_content_filter _ = False"

definition chain_has_content_predicate :: "filter list \<Rightarrow> bool" where
  "chain_has_content_predicate chain = list_ex is_content_filter chain"

fun evaluate_content :: "(string \<Rightarrow> string) \<Rightarrow> drawer \<Rightarrow> filter \<Rightarrow> bool" where
  "evaluate_content lower d (F_ContentMatches s) \<longleftrightarrow> str_contains (lower (content d)) (lower s)"
| "evaluate_content lower d (F_All fs) \<longleftrightarrow>
     list_all (\<lambda>f. is_content_filter f \<longrightarrow> evaluate_content lower d f) fs"
| "evaluate_content lower d (F_Any fs) \<longleftrightarrow>
     \<not> list_ex is_content_filter fs
     \<or> list_ex (\<lambda>f. is_content_filter f \<and> evaluate_content lower d f) fs"
| "evaluate_content lower d (F_Not f) \<longleftrightarrow>
     (if is_content_filter f then \<not> evaluate_content lower d f else True)"
| "evaluate_content lower d _ \<longleftrightarrow> True"

definition evaluate_content_tier :: "(string \<Rightarrow> string) \<Rightarrow> filter list \<Rightarrow> drawer \<Rightarrow> bool" where
  "evaluate_content_tier lower chain d = list_all (evaluate_content lower d) chain"

section \<open>Evaluation\<close>

record projected_row_state =
  proj_adjective :: i64
  proj_operational :: i64
  proj_provenance :: i64

definition require_uuid :: "(string \<Rightarrow> 'u option) \<Rightarrow> string \<Rightarrow> string \<Rightarrow> 'v locuskit_error + 'u" where
  "require_uuid parse_str s label =
     (case parse_str s of
        Some u \<Rightarrow> Inr u
      | None \<Rightarrow> Inl (InvalidContent (label @ '' is not a UUID: '' @ s)))"

definition reconstruct_at ::
    "(string \<Rightarrow> 'u option) \<Rightarrow> (string \<Rightarrow> 'v locuskit_error + 'e)
      \<Rightarrow> ('u \<Rightarrow> 'e \<Rightarrow> 'h \<Rightarrow> projected_row_state option) \<Rightarrow> string \<Rightarrow> 'h
      \<Rightarrow> 'v locuskit_error + projected_row_state option" where
  "reconstruct_at parse_str audit_events_for_row project_state_at row_id as_of =
     rbind (require_uuid parse_str row_id ''rowID'') (\<lambda>uuid.
     rbind (audit_events_for_row row_id) (\<lambda>events.
     Inr (project_state_at uuid events as_of)))"

text \<open>The row loop; \<open>rec\<close> is \<open>reconstruct_at\<close> over the store of the call.\<close>

fun bitmap_scan ::
    "extractor \<Rightarrow> (i64 \<Rightarrow> nat) \<Rightarrow> (string \<Rightarrow> 'h \<Rightarrow> 'v locuskit_error + projected_row_state option)
      \<Rightarrow> 'h option \<Rightarrow> filter list \<Rightarrow> drawer list \<Rightarrow> 'v locuskit_error + drawer list" where
  "bitmap_scan ext pc rec as_of chain [] = Inr []"
| "bitmap_scan ext pc rec as_of chain (d # ds) =
     rbind (case as_of of Some h \<Rightarrow> rec (drawer_id d) h | None \<Rightarrow> Inr None) (\<lambda>projected.
     case (case as_of of
             Some _ \<Rightarrow> (case projected of
                          Some p \<Rightarrow> Some (proj_adjective p, proj_operational p, proj_provenance p)
                        | None \<Rightarrow> None)
           | None \<Rightarrow> Some (adjective_bitmap d, operational_bitmap d, provenance d)) of
       None \<Rightarrow> bitmap_scan ext pc rec as_of chain ds
     | Some (adj, op, prov) \<Rightarrow>
         rbind (bitmap_scan ext pc rec as_of chain ds) (\<lambda>rest.
           Inr (if evaluate_bitmap_tier ext pc chain adj op prov then d # rest else rest)))"

definition sort_drawers :: "node_names \<Rightarrow> recall_ordering \<Rightarrow> drawer list \<Rightarrow> drawer list" where
  "sort_drawers names ord ds =
     (case ord of
        ByCaptureTimeDesc \<Rightarrow> sort_key (\<lambda>d. (- drawer_filed_at d, drawer_id d)) ds
      | ByCaptureTimeAsc \<Rightarrow> sort_key (\<lambda>d. (drawer_filed_at d, drawer_id d)) ds
      | ByRoomAsc \<Rightarrow>
          sort_key (\<lambda>d. (case names (parent_node_id d) of Some wr \<Rightarrow> snd wr | None \<Rightarrow> [], drawer_id d)) ds)"

definition evaluate ::
    "extractor \<Rightarrow> (i64 \<Rightarrow> nat) \<Rightarrow> (string \<Rightarrow> 'h \<Rightarrow> 'v locuskit_error + projected_row_state option)
      \<Rightarrow> (string \<Rightarrow> string) \<Rightarrow> 'h recall_frame \<Rightarrow> drawer list \<Rightarrow> node_names
      \<Rightarrow> 'v locuskit_error + drawer list" where
  "evaluate ext pc rec lower frame drawers names =
     (let chain = insert_defaults (filter_chain frame)
      in rbind (bitmap_scan ext pc rec (frame_as_of frame) chain drawers) (\<lambda>candidates.
         let candidates = List.filter (evaluate_structured_tier names chain) candidates;
             result = List.filter (evaluate_content_tier lower chain) candidates
         in Inr (sort_drawers names (frame_ordering frame) result)))"

end
