(* ===== verification/Recall_Laws.thy ===== *)
theory Recall_Laws
  imports Bitmap_Evaluator
begin

text \<open>
  What the recall evaluator guarantees: what the default filters exclude, that container pruning
  loses no row, what the three tiers compute for the filters they can represent, and the order of
  the result. Shown for every implementation of the bit fields that meets \<open>bit_field\<close>.
\<close>

section \<open>Reference semantics\<close>

text \<open>
  The meaning of a filter as \<open>filter.rs\<close> documents it: composition is Boolean, a basic filter
  is decided by the tier it belongs to.
\<close>

fun matches :: "extractor \<Rightarrow> (i64 \<Rightarrow> nat) \<Rightarrow> (string \<Rightarrow> string) \<Rightarrow> node_names \<Rightarrow> drawer \<Rightarrow> filter \<Rightarrow> bool" where
  "matches ext pc lower names d (F_All fs) \<longleftrightarrow> list_all (matches ext pc lower names d) fs"
| "matches ext pc lower names d (F_Any fs) \<longleftrightarrow> list_ex (matches ext pc lower names d) fs"
| "matches ext pc lower names d (F_Not f) \<longleftrightarrow> \<not> matches ext pc lower names d f"
| "matches ext pc lower names d f \<longleftrightarrow>
     evaluate_one ext pc (adjective_bitmap d) (operational_bitmap d) (provenance d) f
     \<and> evaluate_structured names d f \<and> evaluate_content lower d f"

definition bitmap_only :: "filter \<Rightarrow> bool" where
  "bitmap_only f \<longleftrightarrow> \<not> is_structural_filter f \<and> \<not> is_content_filter f"

fun structural_only :: "filter \<Rightarrow> bool" where
  "structural_only (F_All fs) \<longleftrightarrow> fs \<noteq> [] \<and> list_all structural_only fs"
| "structural_only (F_Any fs) \<longleftrightarrow> fs \<noteq> [] \<and> list_all structural_only fs"
| "structural_only (F_Not f) \<longleftrightarrow> False"
| "structural_only f \<longleftrightarrow> is_structural_filter f"

fun content_only :: "filter \<Rightarrow> bool" where
  "content_only (F_All fs) \<longleftrightarrow> fs \<noteq> [] \<and> list_all content_only fs"
| "content_only (F_Any fs) \<longleftrightarrow> fs \<noteq> [] \<and> list_all content_only fs"
| "content_only (F_Not f) \<longleftrightarrow> False"
| "content_only f \<longleftrightarrow> is_content_filter f"

text \<open>
  The filters the tiered evaluation represents: a disjunction stays within one tier, a negation
  within the bitmap tier.
\<close>

fun tierable :: "filter \<Rightarrow> bool" where
  "tierable (F_All fs) \<longleftrightarrow> list_all tierable fs"
| "tierable (F_Any fs) \<longleftrightarrow>
     list_all bitmap_only fs \<or> fs \<noteq> [] \<and> (list_all structural_only fs \<or> list_all content_only fs)"
| "tierable (F_Not f) \<longleftrightarrow> bitmap_only f"
| "tierable f \<longleftrightarrow> True"

definition row_passes :: "extractor \<Rightarrow> (i64 \<Rightarrow> nat) \<Rightarrow> (string \<Rightarrow> string) \<Rightarrow> node_names \<Rightarrow> filter list
      \<Rightarrow> drawer \<Rightarrow> bool" where
  "row_passes ext pc lower names chain d \<longleftrightarrow>
     evaluate_bitmap_tier ext pc chain (adjective_bitmap d) (operational_bitmap d) (provenance d)
     \<and> evaluate_structured_tier names chain d \<and> evaluate_content_tier lower chain d"

section \<open>Tiers\<close>

lemmas list_pred_simps = list_all_iff list_ex_iff

lemma non_structural: "\<not> is_structural_filter f \<Longrightarrow> evaluate_structured names d f"
  by (induction f) (auto simp: list_pred_simps)

lemma non_content: "\<not> is_content_filter f \<Longrightarrow> evaluate_content lower d f"
  by (induction f) (auto simp: list_pred_simps)

lemma bitmap_only_matches:
  "bitmap_only f \<Longrightarrow> matches ext pc lower names d f
    \<longleftrightarrow> evaluate_one ext pc (adjective_bitmap d) (operational_bitmap d) (provenance d) f"
  by (induction f) (auto simp: bitmap_only_def list_pred_simps non_structural non_content)

lemma structural_only_matches:
  "structural_only f \<Longrightarrow>
    is_structural_filter f \<and> \<not> is_content_filter f \<and> evaluate_one ext pc adj op prov f
    \<and> (matches ext pc lower names d f \<longleftrightarrow> evaluate_structured names d f)"
proof (induction f)
  case (F_All fs)
  then show ?case by (cases fs) (auto simp: list_pred_simps)
next
  case (F_Any fs)
  then show ?case by (cases fs) (auto simp: list_pred_simps)
qed simp_all

lemma content_only_matches:
  "content_only f \<Longrightarrow>
    is_content_filter f \<and> \<not> is_structural_filter f \<and> evaluate_one ext pc adj op prov f
    \<and> (matches ext pc lower names d f \<longleftrightarrow> evaluate_content lower d f)"
proof (induction f)
  case (F_All fs)
  then show ?case by (cases fs) (auto simp: list_pred_simps)
next
  case (F_Any fs)
  then show ?case by (cases fs) (auto simp: list_pred_simps)
qed simp_all

definition tiers :: "extractor \<Rightarrow> (i64 \<Rightarrow> nat) \<Rightarrow> (string \<Rightarrow> string) \<Rightarrow> node_names \<Rightarrow> drawer \<Rightarrow> filter \<Rightarrow> bool" where
  "tiers ext pc lower names d f \<longleftrightarrow>
     evaluate_one ext pc (adjective_bitmap d) (operational_bitmap d) (provenance d) f
     \<and> evaluate_structured names d f \<and> evaluate_content lower d f"

lemma tiers_All: "tiers ext pc lower names d (F_All fs) \<longleftrightarrow> list_all (tiers ext pc lower names d) fs"
  using non_structural non_content by (auto simp: tiers_def list_pred_simps)

lemma tiers_Any:
  assumes "tierable (F_Any fs)"
  shows "tiers ext pc lower names d (F_Any fs) \<longleftrightarrow> matches ext pc lower names d (F_Any fs)"
proof -
  from assms consider "list_all bitmap_only fs" | "fs \<noteq> []" "list_all structural_only fs"
    | "fs \<noteq> []" "list_all content_only fs" by auto
  then show ?thesis
  proof cases
    case 1
    then have "bitmap_only (F_Any fs)" by (auto simp: bitmap_only_def list_pred_simps)
    then show ?thesis
      using bitmap_only_matches [of "F_Any fs"] by (simp add: tiers_def bitmap_only_def non_structural non_content)
  next
    case 2
    then have "structural_only (F_Any fs)" by simp
    from structural_only_matches [OF this] show ?thesis
      unfolding tiers_def using non_content by blast
  next
    case 3
    then have "content_only (F_Any fs)" by simp
    from content_only_matches [OF this] show ?thesis
      unfolding tiers_def using non_structural by blast
  qed
qed

lemma tierable_matches: "tierable f \<Longrightarrow> tiers ext pc lower names d f \<longleftrightarrow> matches ext pc lower names d f"
proof (induction f)
  case (F_All fs)
  then show ?case by (auto simp: tiers_All list_pred_simps)
next
  case (F_Any fs)
  then show ?case using tiers_Any by blast
next
  case (F_Not f)
  then have "bitmap_only (F_Not f)" by (simp add: bitmap_only_def)
  then show ?case
    using bitmap_only_matches [of "F_Not f"] by (simp add: tiers_def bitmap_only_def non_structural non_content)
qed (simp_all add: tiers_def)

lemma row_passes_tiers:
  "row_passes ext pc lower names chain d \<longleftrightarrow>
     shift_extract ext pc (adjective_bitmap d) 0 ADJ_STATE_MASK \<noteq> 33
     \<and> list_all (tiers ext pc lower names d) chain"
  by (auto simp: row_passes_def evaluate_bitmap_tier_def evaluate_structured_tier_def
      evaluate_content_tier_def tiers_def list_pred_simps)

section \<open>Evaluation\<close>

lemma bitmap_scan_current:
  "bitmap_scan ext pc rec None chain ds =
     Inr (List.filter (\<lambda>d. evaluate_bitmap_tier ext pc chain (adjective_bitmap d) (operational_bitmap d)
                             (provenance d)) ds)"
  by (induction ds) simp_all

lemma evaluate_current:
  assumes "frame_as_of frame = None"
  shows "evaluate ext pc rec lower frame drawers names =
    Inr (sort_drawers names (frame_ordering frame)
      (List.filter (row_passes ext pc lower names (insert_defaults (filter_chain frame))) drawers))"
  using assms by (simp add: evaluate_def bitmap_scan_current Let_def row_passes_def [abs_def])

lemma mset_sort_drawers: "mset (sort_drawers names ord ds) = mset ds"
  by (cases ord) (simp_all add: sort_drawers_def)

lemma set_sort_drawers [simp]: "set (sort_drawers names ord ds) = set ds"
  by (metis mset_sort_drawers set_mset_mset)

lemma evaluate_current_mem:
  assumes "frame_as_of frame = None" "evaluate ext pc rec lower frame drawers names = Inr result"
  shows "d \<in> set result \<longleftrightarrow>
    d \<in> set drawers \<and> row_passes ext pc lower names (insert_defaults (filter_chain frame)) d"
  using assms evaluate_current [OF assms(1), of ext pc rec lower drawers names] by auto

lemma insert_defaults_set:
  "f \<in> set (insert_defaults chain) \<longleftrightarrow>
     f \<in> set chain
     \<or> f = F_CurrentlyBelieve \<and> \<not> list_ex is_bitmap_state_filter chain
     \<or> f = F_Trustworthy \<and> \<not> list_ex is_bitmap_trust_filter chain
     \<or> f = F_SensitivityAtMost AdjectiveSensitivity_Elevated \<and> \<not> list_ex is_bitmap_sensitivity_filter chain"
  by (auto simp: insert_defaults_def Let_def)

lemma row_passes_one:
  assumes "row_passes ext pc lower names chain d" "f \<in> set chain"
  shows "evaluate_one ext pc (adjective_bitmap d) (operational_bitmap d) (provenance d) f"
  using assms by (auto simp: row_passes_tiers tiers_def list_pred_simps)

section \<open>Container pruning\<close>

text \<open>The fingerprint of a container covers the operational bits of each of its rows.\<close>

definition covers :: "container_fingerprint \<Rightarrow> i64 \<Rightarrow> bool" where
  "covers fp op \<longleftrightarrow> op AND NOT (cf_operational fp) = 0"

lemma covers_bit: "covers fp op \<Longrightarrow> bit op n \<Longrightarrow> bit (cf_operational fp) n"
proof -
  assume "covers fp op" "bit op n"
  then have "\<not> bit (op AND NOT (cf_operational fp)) n" by (simp add: covers_def)
  moreover have "n < 64" using \<open>bit op n\<close> bit_imp_le_length [of op n] by simp
  ultimately show ?thesis using \<open>bit op n\<close> by (simp add: bit_and_iff bit_not_iff)
qed

lemma covers_and: "covers fp op \<Longrightarrow> cf_operational fp AND flg = 0 \<Longrightarrow> op AND flg = 0"
  using covers_bit by (auto simp: bit_eq_iff bit_and_iff)

lemma excluded_fails:
  "covers fp op \<Longrightarrow> container_provably_excludes fp f \<Longrightarrow> \<not> evaluate_one ext pc adj op prov f"
proof (induction f)
  case (F_HasFeatureFlag flg)
  then show ?case using covers_and by simp
next
  case (F_Any fs)
  then show ?case by (auto simp: list_pred_simps)
next
  case (F_All fs)
  then show ?case by (auto simp: list_pred_simps)
qed simp_all

section \<open>What the default filters exclude\<close>

lemma popcount_masks [simp]:
  "popcount ADJ_STATE_MASK = 6" "popcount ADJ_SENS_MASK = 6" "popcount ADJ_TRUST_MASK = 6"
  "popcount STATE_CLUSTER_MASK = 2" "popcount ADJ_EXPORT_MASK = 6"
  by (simp_all add: popcount_unat ADJ_STATE_MASK_def ADJ_SENS_MASK_def ADJ_TRUST_MASK_def
      STATE_CLUSTER_MASK_def ADJ_EXPORT_MASK_def pop.simps)

lemma masks_nonzero [simp]:
  "ADJ_STATE_MASK \<noteq> 0" "ADJ_SENS_MASK \<noteq> 0" "ADJ_TRUST_MASK \<noteq> 0" "STATE_CLUSTER_MASK \<noteq> 0"
  by (simp_all add: ADJ_STATE_MASK_def ADJ_SENS_MASK_def ADJ_TRUST_MASK_def STATE_CLUSTER_MASK_def)

context bit_field
begin

lemma state_field [simp]: "shift_extract extract_field popcnt adj 0 ADJ_STATE_MASK = extract_field adj 0 6"
  by (simp add: shift_extract_def popcnt_spec)

lemma cluster_field [simp]: "shift_extract extract_field popcnt adj 4 STATE_CLUSTER_MASK = extract_field adj 4 2"
  by (simp add: shift_extract_def popcnt_spec)

lemma trust_field:
  "threshold_compare extract_field popcnt adj ADJ_TRUST_MASK 18 LessThan v \<longleftrightarrow> sint (extract_field adj 18 6) < v"
  by (simp add: threshold_compare_def popcnt_spec)

lemma sens_field:
  "threshold_compare extract_field popcnt adj ADJ_SENS_MASK 6 LessThanOrEqual v \<longleftrightarrow>
     sint (extract_field adj 6 6) \<le> v"
  by (simp add: threshold_compare_def popcnt_spec)

lemma not_tombstoned:
  "row_passes extract_field popcnt lower names chain d \<Longrightarrow> drawer_state extract_field d \<noteq> State_Tombstoned"
proof
  assume "row_passes extract_field popcnt lower names chain d" "drawer_state extract_field d = State_Tombstoned"
  then have "extract_field (adjective_bitmap d) 0 6 \<noteq> 33"
    "sint (extract_field (adjective_bitmap d) 0 6) = 33"
    by (simp_all add: row_passes_tiers drawer_state_def State.from_raw_eq)
  then show False using sint_extract_field [of 6 0 "adjective_bitmap d"] by (simp add: word_uint_eq_iff)
qed

lemma default_trust:
  "evaluate_one extract_field popcnt (adjective_bitmap d) op prov F_Trustworthy \<Longrightarrow>
    trust extract_field d \<le> Trust_Canonical"
  by (auto simp: trust_field trust_def Trust_from_raw_def less_eq_Trust_def)

lemma default_sensitivity:
  "evaluate_one extract_field popcnt (adjective_bitmap d) op prov
      (F_SensitivityAtMost AdjectiveSensitivity_Elevated) \<Longrightarrow>
    is_bulk_exportable (adjective_sensitivity extract_field d)"
  by (auto simp: sens_field adjective_sensitivity_def AdjectiveSensitivity_from_raw_def is_bulk_exportable_def)

lemma cluster_of_raw:
  "sint (extract_field b 4 2) = sint (extract_field b 0 6) div 16"
proof -
  have "x div 16 mod 4 = x mod 64 div 16" for x :: int
    using zmod_zmult2_eq [of 4 x 16] by simp
  moreover have "uint (drop_bit 4 b) = uint b div 16"
    using unsigned_less [where ?'a = int, of b] take_bit_int_eq_self [of "uint b" 64]
    by (simp add: unsigned_drop_bit_eq drop_bit_eq_div [of 4 "uint b"])
  ultimately show ?thesis by (simp add: field_value)
qed

lemma cluster_zero: "extract_field b 4 2 = 0 \<longleftrightarrow> sint (extract_field b 0 6) < 16"
proof -
  have "0 \<le> sint (extract_field b 0 6)" by (simp add: field_value)
  then have "sint (extract_field b 0 6) < 16 \<longleftrightarrow> sint (extract_field b 4 2) = 0"
    unfolding cluster_of_raw by presburger
  then show ?thesis by (simp add: sint_extract_field uint_0_iff)
qed

lemma default_state:
  "evaluate_one extract_field popcnt (adjective_bitmap d) op prov F_CurrentlyBelieve \<Longrightarrow>
    is_currently_believed extract_field d"
  by (auto simp: cluster_zero is_currently_believed_def is_cluster_a_def drawer_state_def State_from_raw_def)

lemma evaluate_safe:
  assumes "frame_as_of frame = None" "evaluate extract_field popcnt rec lower frame drawers names = Inr result"
    and "d \<in> set result"
  shows "drawer_state extract_field d \<noteq> State_Tombstoned
    \<and> (list_ex is_bitmap_trust_filter (filter_chain frame) \<or> trust extract_field d \<le> Trust_Canonical)
    \<and> (list_ex is_bitmap_sensitivity_filter (filter_chain frame)
        \<or> adjective_sensitivity extract_field d \<in> {AdjectiveSensitivity_Normal, AdjectiveSensitivity_Elevated})
    \<and> (list_ex is_bitmap_state_filter (filter_chain frame) \<or> is_currently_believed extract_field d)"
proof -
  have pass: "row_passes extract_field popcnt lower names (insert_defaults (filter_chain frame)) d"
    using evaluate_current_mem [OF assms(1,2)] assms(3) by simp
  note one = row_passes_one [OF pass]
  show ?thesis
    using not_tombstoned [OF pass] default_trust [OF one] default_sensitivity [OF one] default_state [OF one]
    by (auto simp: insert_defaults_set is_bulk_exportable_def)
qed

text \<open>A state value outside the enum is decoded as \<open>Active\<close>, but its bits are those of a terminal row.\<close>

lemma unassigned_state:
  assumes "sint (extract_field (adjective_bitmap d) 0 6) = 40"
  shows "is_currently_believed extract_field d"
    and "\<not> evaluate_one extract_field popcnt (adjective_bitmap d) op prov F_CurrentlyBelieve"
  using assms by (simp_all add: cluster_zero is_currently_believed_def is_cluster_a_def drawer_state_def
      State_from_raw_def)

end

section \<open>Historical views\<close>

lemma bitmap_scan_as_of:
  "bitmap_scan ext pc rec (Some h) chain ds =
     (case find (\<lambda>d. isl (rec (drawer_id d) h)) ds of
        Some d \<Rightarrow> Inl (projl (rec (drawer_id d) h))
      | None \<Rightarrow> Inr (List.filter (\<lambda>d. case projr (rec (drawer_id d) h) of
                   None \<Rightarrow> False
                 | Some p \<Rightarrow> evaluate_bitmap_tier ext pc chain (proj_adjective p) (proj_operational p)
                     (proj_provenance p)) ds))"
proof (induction ds)
  case (Cons d ds)
  then show ?case
    by (cases "rec (drawer_id d) h") (auto split: option.splits)
qed simp

lemma find_isl_None: "find (\<lambda>d. isl (f d)) ds = None \<longleftrightarrow> (\<forall>d \<in> set ds. \<not> isl (f d))"
  by (auto simp: find_None_iff)

lemma evaluate_as_of:
  assumes "frame_as_of frame = Some h"
  shows "isl (evaluate ext pc rec lower frame drawers names) \<longleftrightarrow> (\<exists>d \<in> set drawers. isl (rec (drawer_id d) h))"
    and "evaluate ext pc rec lower frame drawers names = Inr result \<Longrightarrow> d \<in> set result \<longleftrightarrow> d \<in> set drawers
      \<and> (\<exists>p. rec (drawer_id d) h = Inr (Some p)
          \<and> evaluate_bitmap_tier ext pc (insert_defaults (filter_chain frame)) (proj_adjective p)
              (proj_operational p) (proj_provenance p))
      \<and> evaluate_structured_tier names (insert_defaults (filter_chain frame)) d
      \<and> evaluate_content_tier lower (insert_defaults (filter_chain frame)) d"
proof -
  let ?bad = "find (\<lambda>d. isl (rec (drawer_id d) h)) drawers"
  show "isl (evaluate ext pc rec lower frame drawers names) \<longleftrightarrow> (\<exists>d \<in> set drawers. isl (rec (drawer_id d) h))"
    using find_isl_None [of "\<lambda>d. rec (drawer_id d) h" drawers] assms
    by (cases ?bad) (auto simp: evaluate_def bitmap_scan_as_of Let_def)
  assume r: "evaluate ext pc rec lower frame drawers names = Inr result"
  then have none: "?bad = None" using assms by (cases ?bad) (simp_all add: evaluate_def bitmap_scan_as_of)
  then have "\<exists>x. rec (drawer_id d) h = Inr x" if "d \<in> set drawers" for d
    using that find_isl_None [of "\<lambda>d. rec (drawer_id d) h" drawers] by (cases "rec (drawer_id d) h") auto
  then show "d \<in> set result \<longleftrightarrow> d \<in> set drawers
      \<and> (\<exists>p. rec (drawer_id d) h = Inr (Some p)
          \<and> evaluate_bitmap_tier ext pc (insert_defaults (filter_chain frame)) (proj_adjective p)
              (proj_operational p) (proj_provenance p))
      \<and> evaluate_structured_tier names (insert_defaults (filter_chain frame)) d
      \<and> evaluate_content_tier lower (insert_defaults (filter_chain frame)) d"
    using r assms none by (fastforce simp: evaluate_def bitmap_scan_as_of Let_def split: option.splits)
qed

section \<open>Consequences for evaluation\<close>

lemma evaluate_pruned:
  assumes "frame_as_of frame = None" "\<not> container_survives (filter_chain frame) fp"
    and "\<forall>d \<in> set drawers. covers fp (operational_bitmap d)"
  shows "evaluate ext pc rec lower frame drawers names = Inr []"
proof -
  obtain f where f: "f \<in> set (filter_chain frame)" "container_provably_excludes fp f"
    using assms(2) by (auto simp: container_survives_def list_pred_simps)
  have "\<not> row_passes ext pc lower names (insert_defaults (filter_chain frame)) d" if "d \<in> set drawers" for d
    using row_passes_one [of ext pc lower names "insert_defaults (filter_chain frame)" d f] f assms(3) that
      excluded_fails by (auto simp: insert_defaults_set)
  then show ?thesis
    using evaluate_current [OF assms(1), of ext pc rec lower drawers names]
    by (cases "frame_ordering frame") (auto simp: sort_drawers_def filter_empty_conv)
qed

lemma evaluate_tierable:
  assumes "frame_as_of frame = None" "list_all tierable (filter_chain frame)"
  shows "evaluate ext pc rec lower frame drawers names =
    Inr (sort_drawers names (frame_ordering frame)
      (List.filter (\<lambda>d. shift_extract ext pc (adjective_bitmap d) 0 ADJ_STATE_MASK \<noteq> 33
         \<and> (\<forall>f \<in> set (insert_defaults (filter_chain frame)). matches ext pc lower names d f)) drawers))"
proof -
  have "tierable f" if "f \<in> set (insert_defaults (filter_chain frame))" for f
    using that assms(2) by (auto simp: insert_defaults_set list_pred_simps)
  then have "row_passes ext pc lower names (insert_defaults (filter_chain frame))
      = (\<lambda>d. shift_extract ext pc (adjective_bitmap d) 0 ADJ_STATE_MASK \<noteq> 33
          \<and> (\<forall>f \<in> set (insert_defaults (filter_chain frame)). matches ext pc lower names d f))"
    by (intro ext) (auto simp: row_passes_tiers list_pred_simps tierable_matches)
  then show ?thesis unfolding evaluate_current [OF assms(1)] by simp
qed

lemma evaluate_not_structural:
  assumes "frame_as_of frame = None" "F_Not f \<in> set (filter_chain frame)" "structural_only f \<or> content_only f"
  shows "evaluate ext pc rec lower frame drawers names = Inr []"
proof -
  have "evaluate_one ext pc adj op prov f" for adj op prov
    using assms(3) structural_only_matches content_only_matches by blast
  then have "\<not> row_passes ext pc lower names (insert_defaults (filter_chain frame)) d" for d
    using row_passes_one [of ext pc lower names "insert_defaults (filter_chain frame)" d "F_Not f"] assms(2)
    by (auto simp: insert_defaults_set)
  then show ?thesis
    using evaluate_current [OF assms(1), of ext pc rec lower drawers names]
    by (cases "frame_ordering frame") (simp_all add: sort_drawers_def)
qed

end
