(* ===== verification/Sparse_Index.thy ===== *)
theory Sparse_Index
  imports Heap_Sift
begin

text \<open>
  The sparse lane of CorpusKit (\<open>engine/inverted_index.rs\<close>): the inverted index with posting
  lists in item order, the posting cursors, the bounded heap of the results, and the two top-\<open>k\<close>
  algorithms, WAND and Block-Max WAND, beside the exhaustive scan they are documented to agree with.

  Impacts, weights and upper bounds are \<open>i32\<close> words; sums of \<open>i64\<close> products are integers, as an
  \<open>i64\<close> cannot overflow below \<open>2 ^ 31\<close> lists whose products fit \<open>i32\<close>, which the theorems ask for. A
  hash map by term is a partial function. An outer option is a panic. The final conversion of
  an integer score to \<open>f32\<close> is the argument \<open>surface\<close>.
\<close>

section \<open>The index\<close>

type_synonym i32 = "32 word"

record impact_posting =
  post_item :: string
  impact :: i32

definition QUANT_SCALE :: i32 where "QUANT_SCALE = 100"

definition BLOCK_SIZE :: nat where "BLOCK_SIZE = 128"

datatype algorithm = Wand | BlockMaxWand

record inverted_index =
  sorted_postings :: "u32 \<rightharpoonup> impact_posting list"
  global_max_impact :: "u32 \<rightharpoonup> i32"
  block_max_impacts :: "u32 \<rightharpoonup> i32 list"
  block_last_ids :: "u32 \<rightharpoonup> string list"
  num_docs :: nat

text \<open>\<open>iter().map(impact).max().unwrap_or(0)\<close>, in the signed order of \<open>i32\<close>.\<close>

fun max_impact :: "impact_posting list \<Rightarrow> i32" where
  "max_impact [] = 0"
| "max_impact [p] = impact p"
| "max_impact (p # ps) = (let m = max_impact ps in if sint m < sint (impact p) then impact p else m)"

function blocks_of :: "'a list \<Rightarrow> 'a list list" where
  "blocks_of xs = (if xs = [] then [] else take BLOCK_SIZE xs # blocks_of (drop BLOCK_SIZE xs))"
  by pat_completeness auto
termination
  by (relation "measure length") (auto simp: BLOCK_SIZE_def)

declare blocks_of.simps [simp del]

definition build_block_max_impacts :: "impact_posting list \<Rightarrow> i32 list" where
  "build_block_max_impacts posts = map max_impact (blocks_of posts)"

definition build_block_last_ids :: "impact_posting list \<Rightarrow> string list" where
  "build_block_last_ids posts = map (\<lambda>b. post_item (last b)) (blocks_of posts)"

definition inverted_index_new :: "(u32 \<rightharpoonup> impact_posting list) \<Rightarrow> nat \<Rightarrow> inverted_index" where
  "inverted_index_new postings n =
     (let srt = (\<lambda>t. map_option (sort_key post_item) (postings t))
      in \<lparr>sorted_postings = srt, global_max_impact = (\<lambda>t. map_option max_impact (srt t)),
          block_max_impacts = (\<lambda>t. map_option build_block_max_impacts (srt t)),
          block_last_ids = (\<lambda>t. map_option build_block_last_ids (srt t)), num_docs = n\<rparr>)"

section \<open>Cursors\<close>

record posting_cursor =
  term_id :: u32
  term_ub :: i32
  query_weight :: i32
  cur_postings :: "impact_posting list"
  block_max :: "i32 list"
  block_last_id :: "string list"
  position :: nat

definition is_exhausted :: "posting_cursor \<Rightarrow> bool" where
  "is_exhausted c \<longleftrightarrow> length (cur_postings c) \<le> position c"

definition current_id :: "posting_cursor \<Rightarrow> string option" where
  "current_id c = (if is_exhausted c then None else Some (post_item (cur_postings c ! position c)))"

definition current_impact :: "posting_cursor \<Rightarrow> i32" where
  "current_impact c = impact (cur_postings c ! position c)"

definition advance :: "posting_cursor \<Rightarrow> posting_cursor" where
  "advance c = c\<lparr>position := position c + 1\<rparr>"

text \<open>The loop of \<open>seek\<close> counts the postings below the target from the current position.\<close>

fun below_target :: "string \<Rightarrow> impact_posting list \<Rightarrow> nat" where
  "below_target target [] = 0"
| "below_target target (p # ps) = (if post_item p < target then Suc (below_target target ps) else 0)"

definition seek :: "string \<Rightarrow> posting_cursor \<Rightarrow> posting_cursor" where
  "seek target c =
     c\<lparr>position := position c + below_target target (drop (position c) (cur_postings c))\<rparr>"

fun first_block :: "string \<Rightarrow> string list \<Rightarrow> i32 list \<Rightarrow> i32 option" where
  "first_block item [] maxs = None"
| "first_block item (l # ls) maxs =
     (if item \<le> l then Some (case maxs of [] \<Rightarrow> 0 | m # _ \<Rightarrow> m) else first_block item ls (tl maxs))"

definition block_max_contribution :: "posting_cursor \<Rightarrow> string \<Rightarrow> int" where
  "block_max_contribution c item =
     (case first_block item (block_last_id c) (block_max c) of
        Some m \<Rightarrow> sint m * sint (query_weight c)
      | None \<Rightarrow> 0)"

text \<open>The upper bound of a term, clamped from above before the cast to \<open>i32\<close>.\<close>

definition upper_bound :: "i32 \<Rightarrow> i32 \<Rightarrow> i32" where
  "upper_bound max_imp qw = word_of_int (min (sint max_imp * sint qw) (2 ^ 31 - 1))"

fun build_cursors :: "inverted_index \<Rightarrow> (u32 \<times> i32) list \<Rightarrow> posting_cursor list" where
  "build_cursors idx [] = []"
| "build_cursors idx ((t, qw) # query) =
     (case sorted_postings idx t of
        None \<Rightarrow> build_cursors idx query
      | Some posts \<Rightarrow>
          if posts = [] then build_cursors idx query
          else
            \<lparr>term_id = t,
             term_ub = upper_bound (case global_max_impact idx t of Some m \<Rightarrow> m | None \<Rightarrow> 0) qw,
             query_weight = qw, cur_postings = posts,
             block_max = (case block_max_impacts idx t of Some b \<Rightarrow> b | None \<Rightarrow> []),
             block_last_id = (case block_last_ids idx t of Some b \<Rightarrow> b | None \<Rightarrow> []),
             position = 0\<rparr> # build_cursors idx query)"

section \<open>The result heap\<close>

type_synonym scored = "string \<times> int"

definition is_weaker :: "scored list \<Rightarrow> nat \<Rightarrow> nat \<Rightarrow> bool" where
  "is_weaker es i j =
     (let (ia, sa) = es ! i; (ib, sb) = es ! j in if sa \<noteq> sb then sa < sb else ib < ia)"

record top_k_heap =
  heap_entries :: "scored list"
  heap_capacity :: nat

definition top_k_heap_new :: "nat \<Rightarrow> top_k_heap" where
  "top_k_heap_new cap = \<lparr>heap_entries = [], heap_capacity = cap\<rparr>"

definition min_score :: "scored list \<Rightarrow> int" where
  "min_score es = (case es of [] \<Rightarrow> 0 | e # _ \<Rightarrow> snd e)"

text \<open>The largest item among the entries of a score; the empty string when there is none.\<close>

definition worst_id :: "int \<Rightarrow> scored list \<Rightarrow> string" where
  "worst_id s es = fold (\<lambda>(i, s') m. if s' = s then max m i else m) es []"

definition would_enter :: "top_k_heap \<Rightarrow> int \<Rightarrow> string \<Rightarrow> int \<Rightarrow> bool" where
  "would_enter h s item threshold =
     (if length (heap_entries h) < heap_capacity h then True
      else if threshold < s then True
      else if s = threshold then item < worst_id s (heap_entries h)
      else False)"

text \<open>
  \<open>offer\<close> with the threshold it updates; \<open>None\<close> is the panic of writing to the root of an empty
  heap of capacity 0.
\<close>

definition heap_offer :: "top_k_heap \<Rightarrow> string \<Rightarrow> int \<Rightarrow> int \<Rightarrow> (top_k_heap \<times> int) option" where
  "heap_offer h item s threshold =
     (if length (heap_entries h) < heap_capacity h
      then let es = sift_up_by is_weaker (heap_entries h @ [(item, s)]) (length (heap_entries h))
           in Some (h\<lparr>heap_entries := es\<rparr>, if length es = heap_capacity h then min_score es else threshold)
      else if would_enter h s item threshold
      then (if heap_entries h = [] then None
            else let es = sift_down_by is_weaker ((heap_entries h)[0 := (item, s)]) 0
                 in Some (h\<lparr>heap_entries := es\<rparr>, min_score es))
      else Some (h, threshold))"

definition heap_sorted :: "top_k_heap \<Rightarrow> scored list" where
  "heap_sorted h = sort_key (\<lambda>(i, s). (- s, i)) (heap_entries h)"

section \<open>The heap keeps the best scores\<close>

text \<open>Results are ranked by falling score and then by rising item.\<close>

abbreviation score_rank :: "scored \<Rightarrow> int \<times> string" where
  "score_rank e \<equiv> (- snd e, fst e)"

lemma is_weaker_rank: "is_weaker es i j \<longleftrightarrow> score_rank (es ! j) < score_rank (es ! i)"
  by (cases "es ! i"; cases "es ! j") (auto simp: is_weaker_def)

interpretation score_heap: ranked_heap is_weaker score_rank
  by unfold_locales (auto simp: is_weaker_rank inj_on_def prod_eq_iff)

text \<open>The threshold is the score of the root of a full heap, and 0 before that.\<close>

definition threshold_of :: "nat \<Rightarrow> scored list \<Rightarrow> int" where
  "threshold_of k es = (if length es = k then min_score es else 0)"

lemma worst_id_fold:
  fixes es :: "scored list"
  shows "(\<forall>(i, s') \<in> set es. s' = s \<longrightarrow> i \<le> b) \<Longrightarrow> m \<le> b \<Longrightarrow> m = b \<or> (b, s) \<in> set es \<Longrightarrow>
    fold (\<lambda>(i, s') m. if s' = s then max m i else m) es m = b"
proof (induction es arbitrary: m)
  case (Cons e es)
  obtain i s' where e: "e = (i, s')" by force
  show ?case
  proof (cases "s' = s")
    case True
    then have "i \<le> b" using Cons.prems(1) e by simp
    then have "max m i \<le> b" "max m i = b \<or> (b, s) \<in> set es"
      using Cons.prems(2,3) e True order_antisym [of i b] by (auto simp: max_def)
    then show ?thesis using Cons.IH [of "max m i"] Cons.prems(1) e True by simp
  next
    case False
    then show ?thesis using Cons e by auto
  qed
qed simp

lemma worst_id_root:
  assumes "score_heap.max_heap (w # ws)"
  shows "worst_id (snd w) (w # ws) = fst w"
  unfolding worst_id_def
proof (rule worst_id_fold)
  show "\<forall>(i, s') \<in> set (w # ws). s' = snd w \<longrightarrow> i \<le> fst w"
    using score_heap.root_worst [OF assms] by (fastforce simp: less_eq_prod_def)
qed (cases w; simp)+

lemma would_enter_root:
  assumes "score_heap.max_heap (w # ws)" "heap_entries h = w # ws" "heap_capacity h \<le> length (w # ws)"
  shows "would_enter h s item (snd w) \<longleftrightarrow> score_rank (item, s) < score_rank w"
  using assms(2,3) worst_id_root [OF assms(1)] by (auto simp: would_enter_def)

lemma heap_offer_best:
  assumes "finite S" "score_heap.holds_best k S (heap_entries h)" "heap_capacity h = k" "0 < k"
    "score_rank (item, s) \<notin> S"
  shows "\<exists>h'. heap_offer h item s (threshold_of k (heap_entries h))
        = Some (h', threshold_of k (heap_entries h'))
      \<and> heap_capacity h' = k \<and> score_heap.holds_best k (insert (score_rank (item, s)) S) (heap_entries h')"
proof (cases "length (heap_entries h) < k")
  case True
  let ?es = "sift_up_by is_weaker (heap_entries h @ [(item, s)]) (length (heap_entries h))"
  have best: "score_heap.holds_best k (insert (score_rank (item, s)) S) ?es"
    using score_heap.best_push [OF assms(1,2) _ True, of "(item, s)"] assms(5) by simp
  then show ?thesis using True assms(3)
    by (simp add: heap_offer_def threshold_of_def Let_def)
next
  case False
  then obtain w ws where es: "heap_entries h = w # ws"
    using assms(4) by (cases "heap_entries h") auto
  have best: "score_heap.holds_best k S (w # ws)" "k \<le> length (w # ws)"
    using assms(2) False es by simp_all
  have len: "length (w # ws) = k"
    using score_heap.best_length [OF best(1)] best(2) assms(1) by (simp add: card_topk)
  have heap: "score_heap.max_heap (w # ws)" using best(1) by (simp add: score_heap.holds_best_def)
  have th: "threshold_of k (heap_entries h) = snd w"
    using len es by (simp add: threshold_of_def min_score_def)
  note enter = would_enter_root [OF heap es, of s item]
  show ?thesis
  proof (cases "score_rank (item, s) < score_rank w")
    case True
    let ?es = "sift_down_by is_weaker ((w # ws)[0 := (item, s)]) 0"
    have "mset ?es = add_mset (item, s) (mset ws)" by (rule score_heap.replace_heap(2) [OF heap])
    then have "length ?es = k" using len by (metis length_Cons mset.simps(2) size_mset)
    then show ?thesis
      using score_heap.best_replace [OF assms(1) best(1) _ best(2) True] enter True es assms(3,5) len th
      by (simp add: heap_offer_def threshold_of_def Let_def)
  next
    case worse: False
    then show ?thesis
      using score_heap.best_keep [OF assms(1) best(1) _ best(2) worse] enter es assms(3,5) len th
      by (auto simp: heap_offer_def)
  qed
qed

text \<open>What \<open>sorted\<close> returns, as a prefix of the sorted list of all that was offered.\<close>

lemma heap_sorted_best:
  assumes "finite S" "score_heap.holds_best k S (heap_entries h)" "distinct es" "score_rank ` set es = S"
  shows "heap_sorted h = take k (sort_key (\<lambda>(i, s). (- s, i)) es)"
proof -
  have key: "(\<lambda>(i, s). (- s, i)) = score_rank" by auto
  have inj: "inj_on score_rank A" for A by (auto simp: inj_on_def prod_eq_iff)
  have sort: "map score_rank (sort_key score_rank xs) = sorted_list_of_set (score_rank ` set xs)"
    if "distinct xs" for xs
    by (rule sorted_distinct_set_unique) (simp_all add: that distinct_map inj)
  have "map score_rank (heap_sorted h) = sorted_list_of_set (topk k S)"
    using sort [of "heap_entries h"] assms(2) by (simp add: heap_sorted_def key score_heap.holds_best_def)
  also have "\<dots> = take k (map score_rank (sort_key score_rank es))"
    using sort [OF assms(3)] assms(1,4) by (simp add: sorted_list_of_topk)
  finally have "map score_rank (heap_sorted h) = map score_rank (take k (sort_key score_rank es))"
    by (simp add: take_map)
  then have "heap_sorted h = take k (sort_key score_rank es)"
    by (rule map_injective) (rule inj)
  then show ?thesis by (simp add: key)
qed

section \<open>Shared steps\<close>

text \<open>Exhausted cursors are dropped and the others sorted by current item and term.\<close>

definition cursor_order :: "posting_cursor \<Rightarrow> string \<times> u32" where
  "cursor_order c = (case current_id c of Some i \<Rightarrow> i | None \<Rightarrow> [], term_id c)"

definition line_up :: "posting_cursor list \<Rightarrow> posting_cursor list" where
  "line_up cursors = sort_key cursor_order (filter (\<lambda>c. \<not> is_exhausted c) cursors)"

fun find_pivot_from :: "nat \<Rightarrow> int \<Rightarrow> posting_cursor list \<Rightarrow> int \<Rightarrow> (nat \<times> string) option" where
  "find_pivot_from i acc [] threshold = None"
| "find_pivot_from i acc (c # cs) threshold =
     (case current_id c of
        None \<Rightarrow> find_pivot_from (Suc i) acc cs threshold
      | Some cid \<Rightarrow>
          let acc' = acc + sint (term_ub c)
          in if threshold < acc' then Some (i, cid) else find_pivot_from (Suc i) acc' cs threshold)"

definition find_pivot :: "posting_cursor list \<Rightarrow> int \<Rightarrow> (nat \<times> string) option" where
  "find_pivot cursors threshold = find_pivot_from 0 0 cursors threshold"

fun score_aligned :: "string \<Rightarrow> posting_cursor list \<Rightarrow> int \<times> posting_cursor list" where
  "score_aligned pivot [] = (0, [])"
| "score_aligned pivot (c # cs) =
     (let (s, cs') = score_aligned pivot cs
      in if current_id c = Some pivot
         then (sint (query_weight c) * sint (current_impact c) + s, advance c # cs')
         else (s, c # cs'))"

text \<open>The loop of \<open>choose_advance\<close> over the cursors before the pivot; the state is the best index.\<close>

definition choose_advance :: "posting_cursor list \<Rightarrow> nat \<Rightarrow> string \<Rightarrow> nat" where
  "choose_advance cursors pivot_idx pivot =
     (case fold (\<lambda>i best.
                   case current_id (cursors ! i) of
                     None \<Rightarrow> best
                   | Some cid \<Rightarrow>
                       if pivot \<le> cid then best
                       else (case best of
                               None \<Rightarrow> Some i
                             | Some b \<Rightarrow> if term_id (cursors ! i) < term_id (cursors ! b) then Some i else best))
             [0..<pivot_idx] None of
        None \<Rightarrow> 0
      | Some b \<Rightarrow> b)"

text \<open>The cursors a block bound is taken over: up to the pivot, and not beyond the pivot's item.\<close>

definition involved :: "posting_cursor list \<Rightarrow> nat \<Rightarrow> string \<Rightarrow> posting_cursor list" where
  "involved cursors pivot_idx pivot =
     filter (\<lambda>c. case current_id c of None \<Rightarrow> False | Some cid \<Rightarrow> \<not> pivot < cid) (take (Suc pivot_idx) cursors)"

definition compute_block_ub :: "posting_cursor list \<Rightarrow> nat \<Rightarrow> string \<Rightarrow> int" where
  "compute_block_ub cursors pivot_idx pivot =
     (\<Sum>c\<leftarrow>involved cursors pivot_idx pivot. block_max_contribution c pivot)"

definition next_block_target :: "posting_cursor list \<Rightarrow> nat \<Rightarrow> string \<Rightarrow> string" where
  "next_block_target cursors pivot_idx pivot =
     (let min_last = fold (\<lambda>c m. case find (\<lambda>l. pivot \<le> l) (block_last_id c) of
                               None \<Rightarrow> m
                             | Some l \<Rightarrow> (case m of None \<Rightarrow> Some l | Some m' \<Rightarrow> if l < m' then Some l else m))
                       (involved cursors pivot_idx pivot) None
      in (case min_last of Some l \<Rightarrow> l | None \<Rightarrow> pivot) @ [CHR 0x01])"

end
