(* ===== verification/Sparse_Search.thy ===== *)
theory Sparse_Search
  imports Sparse_Index
begin

text \<open>
  The query loops of \<open>engine/inverted_index.rs\<close>: \<open>run_wand\<close>, \<open>run_bmw\<close>, \<open>top_k\<close> and
  \<open>exhaustive_scan\<close>. Each turn of a loop moves at least one cursor past a posting, so the number of
  postings left ends both loops; the first section shows it for the two moves of a turn.
\<close>

section \<open>Postings left\<close>

definition remaining :: "posting_cursor \<Rightarrow> nat" where
  "remaining c = length (cur_postings c) - position c"

definition left :: "posting_cursor list \<Rightarrow> nat" where
  "left cs = (\<Sum>c\<leftarrow>cs. remaining c)"

lemma current_id_Some: "current_id c = Some d \<longleftrightarrow>
    position c < length (cur_postings c) \<and> post_item (cur_postings c ! position c) = d"
  by (auto simp: current_id_def is_exhausted_def)

lemma current_id_None: "current_id c = None \<longleftrightarrow> is_exhausted c"
  by (simp add: current_id_def)

lemma line_up_mset: "mset (line_up cs) = filter_mset (\<lambda>c. \<not> is_exhausted c) (mset cs)"
  by (simp add: line_up_def)

lemma line_up_set: "set (line_up cs) = {c \<in> set cs. \<not> is_exhausted c}"
  by (simp add: line_up_def)

lemma line_up_sorted: "sorted (map cursor_order (line_up cs))"
  by (simp add: line_up_def)

lemma left_mset: "left cs = (\<Sum>c\<in>#mset cs. remaining c)"
  by (simp add: left_def sum_mset_sum_list flip: mset_map)

lemma left_line_up: "left (line_up cs) = left cs"
proof -
  have "left (line_up cs) = left (filter (\<lambda>c. \<not> is_exhausted c) cs)"
    by (simp add: left_mset line_up_mset)
  also have "\<dots> = left cs"
    by (induction cs) (auto simp: left_def remaining_def is_exhausted_def)
  finally show ?thesis .
qed

lemma left_update:
  assumes "i < length cs" "remaining c < remaining (cs ! i)"
  shows "left (cs[i := c]) < left cs"
  using assms
proof (induction cs arbitrary: i)
  case (Cons a cs)
  then show ?case by (cases i) (auto simp: left_def)
qed simp

lemma below_target_le: "below_target t ps \<le> length ps"
  by (induction ps) auto

lemma seek_remaining:
  assumes "current_id c = Some d" "d < t"
  shows "remaining (seek t c) < remaining c"
proof -
  have "position c < length (cur_postings c)" "post_item (cur_postings c ! position c) < t"
    using assms by (simp_all add: current_id_Some)
  then have "0 < below_target t (drop (position c) (cur_postings c))"
    by (simp add: Cons_nth_drop_Suc [symmetric])
  then show ?thesis using \<open>position c < _\<close> by (simp add: remaining_def seek_def)
qed

lemma score_aligned_left:
  "left (snd (score_aligned pivot cs)) \<le> left cs"
  "c \<in> set cs \<Longrightarrow> current_id c = Some pivot \<Longrightarrow> left (snd (score_aligned pivot cs)) < left cs"
proof (induction cs)
  case (Cons a cs)
  {
    case 1
    then show ?case using Cons.IH(1)
      by (auto simp: left_def remaining_def advance_def split: prod.splits)
  next
    case 2
    show ?case
    proof (cases "current_id a = Some pivot")
      case True
      then have "remaining (advance a) < remaining a"
        by (simp add: current_id_Some remaining_def advance_def diff_less_mono2)
      then show ?thesis using True Cons.IH(1) by (auto simp: left_def split: prod.splits)
    next
      case False
      then show ?thesis using 2 Cons.IH(2) by (auto simp: left_def split: prod.splits)
    qed
  }
qed simp_all

section \<open>The pivot and the cursor to move\<close>

abbreviation ub_sum :: "posting_cursor list \<Rightarrow> int" where
  "ub_sum cs \<equiv> \<Sum>c\<leftarrow>cs. sint (term_ub c)"

definition all_live :: "posting_cursor list \<Rightarrow> bool" where
  "all_live cs \<longleftrightarrow> (\<forall>c \<in> set cs. \<not> is_exhausted c)"

lemma line_up_live: "all_live (line_up cs)"
  by (simp add: all_live_def line_up_set)

lemma find_pivot_from_Some:
  assumes "find_pivot_from i acc cs th = Some (n, pid)"
  shows "\<exists>m < length cs. n = i + m \<and> current_id (cs ! m) = Some pid
    \<and> (all_live cs \<longrightarrow> th < acc + ub_sum (take (Suc m) cs) \<and> (0 < m \<longrightarrow> acc + ub_sum (take m cs) \<le> th))"
  using assms
proof (induction cs arbitrary: i acc)
  case (Cons c cs)
  show ?case
  proof (cases "current_id c")
    case None
    then obtain m where "m < length cs" "n = Suc i + m" "current_id (cs ! m) = Some pid"
      using Cons by fastforce
    then show ?thesis using None
      by (intro exI [of _ "Suc m"]) (simp add: all_live_def current_id_None)
  next
    case (Some d)
    show ?thesis
    proof (cases "th < acc + sint (term_ub c)")
      case True
      then show ?thesis using Cons.prems Some by (intro exI [of _ 0]) (simp add: Let_def)
    next
      case False
      then obtain m where m: "m < length cs" "n = Suc i + m" "current_id (cs ! m) = Some pid"
        "all_live cs \<Longrightarrow> th < acc + sint (term_ub c) + ub_sum (take (Suc m) cs)"
        "all_live cs \<Longrightarrow> 0 < m \<Longrightarrow> acc + sint (term_ub c) + ub_sum (take m cs) \<le> th"
        using Cons.IH [of "Suc i" "acc + sint (term_ub c)"] Cons.prems Some
        by (auto simp: Let_def)
      have "acc + ub_sum (take (Suc m) (c # cs)) \<le> th" if "all_live (c # cs)"
        using m(5) that False by (cases "m = 0") (simp_all add: all_live_def add.assoc)
      then show ?thesis using m
        by (intro exI [of _ "Suc m"]) (simp add: all_live_def add.assoc)
    qed
  qed
qed simp

lemmas find_pivot_Some = find_pivot_from_Some [of 0 0, folded find_pivot_def, simplified]

lemma find_pivot_from_None:
  "find_pivot_from i acc cs th = None \<Longrightarrow> all_live cs \<Longrightarrow> cs \<noteq> [] \<Longrightarrow> acc + ub_sum cs \<le> th"
proof (induction cs arbitrary: i acc)
  case (Cons c cs)
  then obtain d where d: "current_id c = Some d"
    by (cases "current_id c") (auto simp: all_live_def current_id_None)
  show ?case
  proof (cases "cs = []")
    case True
    then show ?thesis using Cons.prems d by (auto simp: Let_def split: if_splits)
  next
    case False
    then show ?thesis using Cons.prems d Cons.IH [of "Suc i" "acc + sint (term_ub c)"]
      by (auto simp: Let_def all_live_def add.assoc split: if_splits)
  qed
qed simp

lemmas find_pivot_None = find_pivot_from_None [of 0 0, folded find_pivot_def, simplified]

text \<open>The current items of a line-up ascend.\<close>

lemma line_up_items:
  assumes "i \<le> j" "j < length (line_up cs)"
    "current_id (line_up cs ! i) = Some a" "current_id (line_up cs ! j) = Some b"
  shows "a \<le> b"
proof -
  have "cursor_order (line_up cs ! i) \<le> cursor_order (line_up cs ! j)"
    using sorted_nth_mono [OF line_up_sorted, of i j cs] assms(1,2) by simp
  then show ?thesis using assms(3,4) by (auto simp: cursor_order_def less_eq_prod_def)
qed

lemma line_up_current:
  assumes "i < length (line_up cs)"
  obtains a where "current_id (line_up cs ! i) = Some a"
proof -
  have "line_up cs ! i \<in> set (line_up cs)" using assms by (rule nth_mem)
  then have "\<not> is_exhausted (line_up cs ! i)" by (simp add: line_up_set)
  then show thesis using that by (auto simp: current_id_def)
qed

lemma choose_fold:
  fixes cs :: "posting_cursor list" and pivot :: string
  defines "upd \<equiv> \<lambda>i best. case current_id (cs ! i) of None \<Rightarrow> best
     | Some cid \<Rightarrow> if pivot \<le> cid then best
         else (case best of None \<Rightarrow> Some i
               | Some b \<Rightarrow> if term_id (cs ! i) < term_id (cs ! b) then Some i else best)"
  shows "case fold upd [0..<n] None of
       None \<Rightarrow> \<forall>i < n. \<forall>cid. current_id (cs ! i) = Some cid \<longrightarrow> pivot \<le> cid
     | Some b \<Rightarrow> b < n \<and> (\<exists>cid. current_id (cs ! b) = Some cid \<and> cid < pivot)"
proof (induction n)
  case (Suc n)
  have "fold upd [0..<Suc n] None = upd n (fold upd [0..<n] None)" by simp
  with Suc show ?case
    by (cases "fold upd [0..<n] None"; cases "current_id (cs ! n)")
       (auto simp: upd_def less_Suc_eq linorder_not_le)
qed simp

lemma choose_advance_cases:
  assumes "find_pivot (line_up cs) th = Some (n, pid)"
  shows "choose_advance (line_up cs) n pid < length (line_up cs)
    \<and> (if current_id (line_up cs ! 0) = Some pid
       then current_id (line_up cs ! choose_advance (line_up cs) n pid) = Some pid
       else choose_advance (line_up cs) n pid < n
         \<and> (\<exists>d < pid. current_id (line_up cs ! choose_advance (line_up cs) n pid) = Some d))"
proof -
  let ?cs = "line_up cs" and ?b = "choose_advance (line_up cs) n pid"
  have n: "n < length ?cs" "current_id (?cs ! n) = Some pid" using find_pivot_Some [OF assms] by auto
  note fold = choose_fold [of n ?cs pid, folded]
  consider (none) "?b = 0" "\<forall>i < n. \<forall>cid. current_id (?cs ! i) = Some cid \<longrightarrow> pid \<le> cid"
    | (some) "?b < n" "\<exists>d < pid. current_id (?cs ! ?b) = Some d"
    using fold unfolding choose_advance_def by (auto split: option.splits)
  then show ?thesis
  proof cases
    case none
    obtain a where a: "current_id (?cs ! 0) = Some a"
      using n(1) line_up_current [of 0 cs] by (metis gr_zeroI not_less0)
    have "a \<le> pid" using line_up_items [OF _ n(1) a n(2)] by simp
    moreover have "pid \<le> a" using none(2) a n(2) by (cases "n = 0") auto
    ultimately show ?thesis using none(1) a n(1) by auto
  next
    case some
    then obtain d where d: "d < pid" "current_id (?cs ! ?b) = Some d" by blast
    obtain a where a: "current_id (?cs ! 0) = Some a"
      using n(1) line_up_current [of 0 cs] by (metis gr_zeroI not_less0)
    have "a \<le> d" using line_up_items [OF _ _ a d(2)] some(1) n(1) by simp
    then show ?thesis using some n(1) a d(1) by auto
  qed
qed

lemma next_block_target_gt: "pivot < next_block_target cs n pivot"
proof -
  let ?upd = "\<lambda>c m. case find (\<lambda>l. pivot \<le> l) (block_last_id c) of None \<Rightarrow> m
      | Some l \<Rightarrow> (case m of None \<Rightarrow> Some l | Some m' \<Rightarrow> if l < m' then Some l else m)"
  have fold: "pred_option ((\<le>) pivot) (fold ?upd xs m)" if "pred_option ((\<le>) pivot) m" for xs m
    using that by (induction xs arbitrary: m) (auto simp: find_Some_iff split: option.split)
  define m where "m = fold ?upd (involved cs n pivot) None"
  have m: "pred_option ((\<le>) pivot) m" unfolding m_def by (rule fold) simp
  have "next_block_target cs n pivot = (case m of Some l \<Rightarrow> l | None \<Rightarrow> pivot) @ [CHR 0x01]"
    by (simp add: next_block_target_def m_def)
  moreover have "pivot \<le> (case m of Some l \<Rightarrow> l | None \<Rightarrow> pivot)" using m by (cases m) simp_all
  moreover have "l < l @ [c]" for l :: string and c by (induction l) auto
  ultimately show ?thesis by (metis order.strict_trans1)
qed

section \<open>The loops\<close>

text \<open>
  \<open>run_wand\<close> and \<open>run_bmw\<close> from their loop heads; the state is the cursors, the heap and the
  threshold. \<open>None\<close> is the panic of \<open>offer\<close>.
\<close>

function wand_loop :: "posting_cursor list \<Rightarrow> top_k_heap \<Rightarrow> int \<Rightarrow> top_k_heap option" where
  "wand_loop cursors heap threshold =
     (let cs = line_up cursors
      in if cs = [] then Some heap
      else case find_pivot cs threshold of
        None \<Rightarrow> Some heap
      | Some (n, pivot) \<Rightarrow>
          if current_id (cs ! 0) = Some pivot
          then (case heap_offer heap pivot (fst (score_aligned pivot cs)) threshold of
                  None \<Rightarrow> None
                | Some (heap', threshold') \<Rightarrow> wand_loop (snd (score_aligned pivot cs)) heap' threshold')
          else let pick = choose_advance cs n pivot
               in wand_loop (cs[pick := seek pivot (cs ! pick)]) heap threshold)"
  by pat_completeness auto

function bmw_loop :: "posting_cursor list \<Rightarrow> top_k_heap \<Rightarrow> int \<Rightarrow> top_k_heap option" where
  "bmw_loop cursors heap threshold =
     (let cs = line_up cursors
      in if cs = [] then Some heap
      else case find_pivot cs threshold of
        None \<Rightarrow> Some heap
      | Some (n, pivot) \<Rightarrow>
          if compute_block_ub cs n pivot \<le> threshold
          then let next_target = next_block_target cs n pivot; pick = choose_advance cs n pivot
               in bmw_loop (cs[pick := seek next_target (cs ! pick)]) heap threshold
          else if current_id (cs ! 0) = Some pivot
          then (case heap_offer heap pivot (fst (score_aligned pivot cs)) threshold of
                  None \<Rightarrow> None
                | Some (heap', threshold') \<Rightarrow> bmw_loop (snd (score_aligned pivot cs)) heap' threshold')
          else let pick = choose_advance cs n pivot
               in bmw_loop (cs[pick := seek pivot (cs ! pick)]) heap threshold)"
  by pat_completeness auto

lemma seek_pick_left:
  assumes "find_pivot (line_up cs) th = Some (n, pid)" "current_id (line_up cs ! 0) \<noteq> Some pid"
  shows "left ((line_up cs)[choose_advance (line_up cs) n pid :=
           seek pid (line_up cs ! choose_advance (line_up cs) n pid)]) < left cs"
proof -
  obtain d where "choose_advance (line_up cs) n pid < length (line_up cs)" "d < pid"
      "current_id (line_up cs ! choose_advance (line_up cs) n pid) = Some d"
    using choose_advance_cases [OF assms(1)] assms(2) by auto
  then show ?thesis using left_update seek_remaining left_line_up by metis
qed

lemma seek_block_left:
  assumes "find_pivot (line_up cs) th = Some (n, pid)"
  shows "left ((line_up cs)[choose_advance (line_up cs) n pid :=
           seek (next_block_target (line_up cs) n pid) (line_up cs ! choose_advance (line_up cs) n pid)])
         < left cs"
proof -
  obtain d where d: "choose_advance (line_up cs) n pid < length (line_up cs)" "d \<le> pid"
      "current_id (line_up cs ! choose_advance (line_up cs) n pid) = Some d"
    using choose_advance_cases [OF assms] by (fastforce split: if_splits)
  have "d < next_block_target (line_up cs) n pid"
    using d(2) next_block_target_gt by (rule order.strict_trans1)
  then show ?thesis using d left_update seek_remaining left_line_up by metis
qed

lemma aligned_left:
  assumes "line_up cs \<noteq> []" "current_id (line_up cs ! 0) = Some pid"
  shows "left (snd (score_aligned pid (line_up cs))) < left cs"
proof -
  have "line_up cs ! 0 \<in> set (line_up cs)" using assms(1) by simp
  then show ?thesis using score_aligned_left(2) [OF _ assms(2)] left_line_up by metis
qed

termination wand_loop
  by (relation "measure (\<lambda>(cs, _, _). left cs)")
     (auto simp: seek_pick_left aligned_left)

termination bmw_loop
  by (relation "measure (\<lambda>(cs, _, _). left cs)")
     (auto simp: seek_pick_left seek_block_left aligned_left)

declare wand_loop.simps [simp del] bmw_loop.simps [simp del]

definition run_wand :: "posting_cursor list \<Rightarrow> nat \<Rightarrow> scored list option" where
  "run_wand cursors k = map_option heap_sorted (wand_loop cursors (top_k_heap_new k) 0)"

definition run_bmw :: "posting_cursor list \<Rightarrow> nat \<Rightarrow> scored list option" where
  "run_bmw cursors k = map_option heap_sorted (bmw_loop cursors (top_k_heap_new k) 0)"

text \<open>The surface is the conversion of an integer score to the \<open>f32\<close> of the hit.\<close>

definition top_k :: "(int \<Rightarrow> 'f) \<Rightarrow> inverted_index \<Rightarrow> (u32 \<times> i32) list \<Rightarrow> nat \<Rightarrow> algorithm
    \<Rightarrow> (string \<times> 'f) list option" where
  "top_k surface idx query k alg =
     (if k = 0 \<or> query = [] then Some []
      else let cursors = build_cursors idx query
           in if cursors = [] then Some []
              else map_option (map (\<lambda>(i, s). (i, surface s)))
                     (case alg of Wand \<Rightarrow> run_wand cursors k | BlockMaxWand \<Rightarrow> run_bmw cursors k))"

text \<open>The score table of the exhaustive scan, an association list: \<open>entry(item).or_insert(0) += s\<close>.\<close>

fun add_score :: "string \<Rightarrow> int \<Rightarrow> scored list \<Rightarrow> scored list" where
  "add_score item s [] = [(item, 0 + s)]"
| "add_score item s ((i, s') # es) = (if i = item then (i, s' + s) # es else (i, s') # add_score item s es)"

definition scan_scores :: "inverted_index \<Rightarrow> (u32 \<times> i32) list \<Rightarrow> scored list" where
  "scan_scores idx query =
     fold (\<lambda>(t, qw) scores.
             case sorted_postings idx t of
               None \<Rightarrow> scores
             | Some posts \<Rightarrow>
                 fold (\<lambda>p. add_score (post_item p) (sint qw * sint (impact p))) posts scores)
          query []"

definition exhaustive_scan :: "(int \<Rightarrow> 'f) \<Rightarrow> inverted_index \<Rightarrow> (u32 \<times> i32) list \<Rightarrow> nat
    \<Rightarrow> (string \<times> 'f) list" where
  "exhaustive_scan surface idx query k =
     (if k = 0 \<or> query = [] then []
      else map (\<lambda>(i, s). (i, surface s)) (take k (sort_key (\<lambda>(i, s). (- s, i)) (scan_scores idx query))))"

end
