(* ===== verification/Wand_Exact.thy ===== *)
theory Wand_Exact
  imports Sparse_Search
begin

text \<open>
  Why \<open>run_wand\<close> of \<open>engine/inverted_index.rs\<close> finds the exact best \<open>k\<close>. A cursor is read through
  the postings it has left. Every item is in one of three states while the loop runs: offered with its
  full score; untouched, with all its postings still ahead; or ruled out, when \<open>k\<close> offered items
  rank before it and the lists that could still reach it cannot lift it over the threshold.
\<close>

section \<open>The postings ahead of a cursor\<close>

definition ahead :: "posting_cursor \<Rightarrow> impact_posting list" where
  "ahead c = drop (position c) (cur_postings c)"

lemma current_id_ahead: "current_id c = (case ahead c of [] \<Rightarrow> None | p # _ \<Rightarrow> Some (post_item p))"
  by (auto simp: current_id_def is_exhausted_def ahead_def Cons_nth_drop_Suc [symmetric] split: list.split)

lemma exhausted_ahead: "is_exhausted c \<longleftrightarrow> ahead c = []"
  by (simp add: is_exhausted_def ahead_def)

lemma current_impact_ahead: "ahead c = p # ps \<Longrightarrow> current_impact c = impact p"
  unfolding ahead_def current_impact_def by (metis drop_eq_Nil hd_drop_conv_nth list.sel(1) list.simps(3) not_le)

lemma ahead_advance: "ahead (advance c) = tl (ahead c)"
  by (simp add: ahead_def advance_def tl_drop drop_Suc)

lemma below_target_takeWhile: "below_target t ps = length (takeWhile (\<lambda>p. post_item p < t) ps)"
  by (induction ps) simp_all

lemma ahead_seek: "ahead (seek t c) = dropWhile (\<lambda>p. post_item p < t) (ahead c)"
  by (simp add: ahead_def seek_def below_target_takeWhile add.commute dropWhile_eq_drop)

lemma cursor_fields [simp]:
  "term_ub (advance c) = term_ub c" "query_weight (advance c) = query_weight c"
  "term_ub (seek t c) = term_ub c" "query_weight (seek t c) = query_weight c"
  by (simp_all add: advance_def seek_def)

text \<open>What the loop relies on: ascending items, positive contributions, and the upper bound.\<close>

definition cursor_ok :: "posting_cursor \<Rightarrow> bool" where
  "cursor_ok c \<longleftrightarrow> sorted_wrt (<) (map post_item (ahead c)) \<and> 0 \<le> sint (term_ub c)
     \<and> (\<forall>p \<in> set (ahead c). 0 < sint (query_weight c) * sint (impact p)
          \<and> sint (query_weight c) * sint (impact p) \<le> sint (term_ub c))"

lemma cursor_ok_advance: "cursor_ok c \<Longrightarrow> cursor_ok (advance c)"
  by (cases "ahead c") (auto simp: cursor_ok_def ahead_advance)

lemma dropWhile_below:
  "sorted_wrt (<) (map post_item ps) \<Longrightarrow>
    dropWhile (\<lambda>p. post_item p < t) ps = filter (\<lambda>p. t \<le> post_item p) ps"
proof (induction ps)
  case (Cons p ps)
  show ?case
  proof (cases "post_item p < t")
    case False
    then have "filter (\<lambda>p. t \<le> post_item p) ps = ps"
      using Cons.prems by (intro filter_True) (auto intro: order.trans less_imp_le)
    then show ?thesis using False by simp
  qed (use Cons in simp)
qed simp

lemma ahead_seek_filter: "cursor_ok c \<Longrightarrow> ahead (seek t c) = filter (\<lambda>p. t \<le> post_item p) (ahead c)"
  by (simp add: ahead_seek dropWhile_below cursor_ok_def)

lemma sorted_wrt_map_filter: "sorted_wrt P (map f xs) \<Longrightarrow> sorted_wrt P (map f (filter Q xs))"
  by (induction xs) auto

lemma cursor_ok_seek: "cursor_ok c \<Longrightarrow> cursor_ok (seek t c)"
  using ahead_seek_filter [of c t] by (auto simp: cursor_ok_def sorted_wrt_map_filter)

section \<open>What a cursor still owes an item\<close>

definition contribution :: "i32 \<Rightarrow> string \<Rightarrow> impact_posting list \<Rightarrow> int" where
  "contribution w d ps = (\<Sum>p\<leftarrow>ps. if post_item p = d then sint w * sint (impact p) else 0)"

definition owed :: "posting_cursor \<Rightarrow> string \<Rightarrow> int" where
  "owed c d = contribution (query_weight c) d (ahead c)"

lemma contribution_simps [simp]:
  "contribution w d [] = 0"
  "contribution w d (p # ps) = (if post_item p = d then sint w * sint (impact p) else 0) + contribution w d ps"
  by (simp_all add: contribution_def)

lemma contribution_absent: "d \<notin> post_item ` set ps \<Longrightarrow> contribution w d ps = 0"
  by (induction ps) auto

lemma contribution_filter:
  "contribution w d (filter (\<lambda>p. t \<le> post_item p) ps) = (if t \<le> d then contribution w d ps else 0)"
  by (induction ps) auto

lemma contribution_bounds:
  assumes "distinct (map post_item ps)" "0 \<le> u"
    "\<forall>p \<in> set ps. 0 < sint w * sint (impact p) \<and> sint w * sint (impact p) \<le> u"
  shows "0 \<le> contribution w d ps \<and> contribution w d ps \<le> u"
  using assms
proof (induction ps)
  case (Cons p ps)
  show ?case
  proof (cases "post_item p = d")
    case True
    then have "contribution w d ps = 0" using Cons.prems(1) by (intro contribution_absent) auto
    then show ?thesis using True Cons.prems(3) by auto
  qed (use Cons in auto)
qed simp

lemma strict_sorted_distinct: "sorted_wrt (<) xs \<Longrightarrow> distinct (xs :: 'a::linorder list)"
  by (induction xs) auto

lemma owed_bounds: "cursor_ok c \<Longrightarrow> 0 \<le> owed c d \<and> owed c d \<le> sint (term_ub c)"
  unfolding owed_def cursor_ok_def by (intro contribution_bounds strict_sorted_distinct) auto

lemma owed_exhausted: "is_exhausted c \<Longrightarrow> owed c d = 0"
  by (simp add: owed_def exhausted_ahead)

lemma owed_absent: "d \<notin> post_item ` set (ahead c) \<Longrightarrow> owed c d = 0"
  by (simp add: owed_def contribution_absent)

lemma ahead_from_current:
  "cursor_ok c \<Longrightarrow> current_id c = Some a \<Longrightarrow> p \<in> set (ahead c) \<Longrightarrow> a \<le> post_item p"
  by (cases "ahead c") (auto simp: current_id_ahead cursor_ok_def intro: less_imp_le)

lemma owed_before: "cursor_ok c \<Longrightarrow> current_id c = Some a \<Longrightarrow> d < a \<Longrightarrow> owed c d = 0"
  using ahead_from_current [of c a] by (intro owed_absent) fastforce

lemma owed_current:
  assumes "cursor_ok c" "current_id c = Some d"
  shows "owed c d = sint (query_weight c) * sint (current_impact c)"
proof -
  obtain p ps where a: "ahead c = p # ps" "post_item p = d"
    using assms(2) by (auto simp: current_id_ahead split: list.splits)
  then have "contribution (query_weight c) d ps = 0"
    using assms(1) by (intro contribution_absent) (auto simp: cursor_ok_def)
  then show ?thesis using a by (simp add: owed_def current_impact_ahead)
qed

lemma owed_advance:
  "current_id c = Some a \<Longrightarrow> e \<noteq> a \<Longrightarrow> owed (advance c) e = owed c e"
  by (auto simp: owed_def ahead_advance current_id_ahead split: list.splits)

lemma owed_seek: "cursor_ok c \<Longrightarrow> owed (seek t c) e = (if t \<le> e then owed c e else 0)"
  by (simp add: owed_def ahead_seek_filter contribution_filter)

section \<open>Sums over the cursors\<close>

definition score_left :: "posting_cursor list \<Rightarrow> string \<Rightarrow> int" where
  "score_left cs d = (\<Sum>c\<leftarrow>cs. owed c d)"

text \<open>The bound of the lists whose current item is at most \<open>d\<close>.\<close>

definition reaches :: "posting_cursor \<Rightarrow> string \<Rightarrow> bool" where
  "reaches c d \<longleftrightarrow> (case current_id c of None \<Rightarrow> False | Some a \<Rightarrow> a \<le> d)"

definition reach_ub :: "posting_cursor list \<Rightarrow> string \<Rightarrow> int" where
  "reach_ub cs d = (\<Sum>c\<leftarrow>cs. if reaches c d then sint (term_ub c) else 0)"

definition items_ahead :: "posting_cursor list \<Rightarrow> string set" where
  "items_ahead cs = (\<Union>c \<in> set cs. post_item ` set (ahead c))"

abbreviation cursors_ok :: "posting_cursor list \<Rightarrow> bool" where
  "cursors_ok cs \<equiv> \<forall>c \<in> set cs. cursor_ok c"

lemma line_up_sum:
  assumes "\<And>c. is_exhausted c \<Longrightarrow> f c = (0::int)"
  shows "(\<Sum>c\<leftarrow>line_up cs. f c) = (\<Sum>c\<leftarrow>cs. f c)"
proof -
  have "mset (map f (line_up cs)) = mset (map f (filter (\<lambda>c. \<not> is_exhausted c) cs))"
    by (simp add: line_up_mset)
  then have "(\<Sum>c\<leftarrow>line_up cs. f c) = (\<Sum>c\<leftarrow>filter (\<lambda>c. \<not> is_exhausted c) cs. f c)"
    by (metis sum_mset_sum_list)
  also have "\<dots> = (\<Sum>c\<leftarrow>cs. f c)" using assms by (induction cs) auto
  finally show ?thesis .
qed

lemma score_left_line_up: "score_left (line_up cs) d = score_left cs d"
  unfolding score_left_def by (rule line_up_sum) (rule owed_exhausted)

lemma reach_ub_line_up: "reach_ub (line_up cs) d = reach_ub cs d"
  unfolding reach_ub_def by (rule line_up_sum) (simp add: reaches_def current_id_def)

lemma items_ahead_line_up: "items_ahead (line_up cs) = items_ahead cs"
  by (auto simp: items_ahead_def line_up_set exhausted_ahead)

lemma cursors_ok_line_up: "cursors_ok cs \<Longrightarrow> cursors_ok (line_up cs)"
  by (simp add: line_up_set)

lemma owed_reach:
  "cursor_ok c \<Longrightarrow> owed c d \<le> (if reaches c d then sint (term_ub c) else 0)"
  using owed_bounds [of c d] owed_before [of c _ d] owed_exhausted [of c d]
  by (auto simp: reaches_def current_id_None [symmetric] not_le split: option.splits)

lemma score_left_reach: "cursors_ok cs \<Longrightarrow> score_left cs d \<le> reach_ub cs d"
  unfolding score_left_def reach_ub_def by (intro sum_list_mono owed_reach) simp

lemma reach_ub_total: "cursors_ok cs \<Longrightarrow> reach_ub cs d \<le> ub_sum cs"
  unfolding reach_ub_def by (intro sum_list_mono) (auto simp: cursor_ok_def)

lemma score_left_pos: "0 < score_left cs d \<Longrightarrow> d \<in> items_ahead cs"
proof (rule ccontr)
  assume "d \<notin> items_ahead cs" and pos: "0 < score_left cs d"
  then have "\<forall>c \<in> set cs. owed c d = 0" by (auto simp: items_ahead_def intro: owed_absent)
  then have "score_left cs d = 0" unfolding score_left_def by (induction cs) auto
  with pos show False by simp
qed

end
