(* ===== verification/Wand_Loop.thy ===== *)
theory Wand_Loop
  imports Wand_Exact
begin

text \<open>
  The invariant of \<open>run_wand\<close>: each item has been offered with its full score, still has all its
  postings ahead, or is beaten by \<open>k\<close> offered items and out of reach of the threshold. The two moves
  of a turn keep it, and when the loop ends no item is left that could enter the result.
\<close>

section \<open>The invariant of the loop\<close>

text \<open>The rank of an item by its full score, and the items that cannot enter the result any more.\<close>

definition full_rank :: "(string \<Rightarrow> int) \<Rightarrow> string \<Rightarrow> int \<times> string" where
  "full_rank full d = (- full d, d)"

definition beaten :: "(string \<Rightarrow> int) \<Rightarrow> nat \<Rightarrow> string set \<Rightarrow> string \<Rightarrow> bool" where
  "beaten full k seen d \<longleftrightarrow> k \<le> card {a \<in> seen. full_rank full a < full_rank full d}"

definition catalog :: "(string \<Rightarrow> int) \<Rightarrow> string set \<Rightarrow> nat \<Rightarrow> bool" where
  "catalog full U k \<longleftrightarrow> finite U \<and> 0 < k \<and> (\<forall>d \<in> U. 0 < full d)"

definition wand_inv :: "(string \<Rightarrow> int) \<Rightarrow> string set \<Rightarrow> nat \<Rightarrow> string set
    \<Rightarrow> posting_cursor list \<Rightarrow> top_k_heap \<Rightarrow> bool" where
  "wand_inv full U k seen cs h \<longleftrightarrow>
     cursors_ok cs \<and> items_ahead cs \<subseteq> U \<and> seen \<subseteq> U \<and> heap_capacity h = k
     \<and> score_heap.holds_best k (full_rank full ` seen) (heap_entries h)
     \<and> (\<forall>a \<in> seen. \<forall>b \<in> items_ahead cs. a < b)
     \<and> (\<forall>d \<in> U - seen. score_left cs d = full d
          \<or> beaten full k seen d \<and> reach_ub cs d \<le> threshold_of k (heap_entries h))"

lemma full_rank_inj: "inj (full_rank full)"
  by (simp add: inj_on_def full_rank_def)

lemma beaten_mono: "finite seen' \<Longrightarrow> seen \<subseteq> seen' \<Longrightarrow> beaten full k seen d \<Longrightarrow> beaten full k seen' d"
  unfolding beaten_def by (erule order.trans) (intro card_mono; auto)

lemma wand_inv_line_up: "wand_inv full U k seen cs h \<Longrightarrow> wand_inv full U k seen (line_up cs) h"
  unfolding wand_inv_def items_ahead_line_up score_left_line_up reach_ub_line_up
  using cursors_ok_line_up by blast

text \<open>An untouched item that the threshold excludes is beaten by the full heap.\<close>

lemma low_beaten:
  assumes "catalog full U k" "wand_inv full U k seen cs h" "d \<in> U" "score_left cs d = full d"
    "full d \<le> threshold_of k (heap_entries h)"
  shows "beaten full k seen d"
proof -
  let ?S = "full_rank full ` seen"
  have pos: "0 < full d" and S: "finite seen" "finite ?S"
    using assms(1-3) unfolding catalog_def wand_inv_def by (auto dest: finite_subset)
  then have len: "length (heap_entries h) = k" and "0 < min_score (heap_entries h)"
    using assms(5) by (auto simp: threshold_of_def split: if_splits)
  then obtain w ws where es: "heap_entries h = w # ws"
    by (cases "heap_entries h") (auto simp: min_score_def)
  have th: "full d \<le> snd w" using assms(5) len es by (simp add: threshold_of_def min_score_def)
  have best: "score_heap.holds_best k ?S (w # ws)" using assms(2) es by (simp add: wand_inv_def)
  note full = score_heap.best_full [OF S(2) best]
  have d: "d \<in> items_ahead cs" using score_left_pos pos assms(4) by simp
  have "topk k ?S \<subseteq> full_rank full ` {a \<in> seen. full_rank full a < full_rank full d}"
  proof
    fix t assume t: "t \<in> topk k ?S"
    then obtain a where a: "a \<in> seen" "t = full_rank full a"
      using topk_subset [OF S(2)] by blast
    have "t \<le> (- snd w, fst w)" using full(3) t len es by simp
    then have "full d \<le> full a" using a(2) th by (auto simp: full_rank_def less_eq_prod_def)
    moreover have "a < d" using assms(2) a(1) d by (simp add: wand_inv_def)
    ultimately show "t \<in> full_rank full ` {a \<in> seen. full_rank full a < full_rank full d}"
      using a by (auto simp: full_rank_def)
  qed
  then have "card (topk k ?S) \<le> card {a \<in> seen. full_rank full a < full_rank full d}"
    using S(1) by (metis (no_types, lifting) card_image_le card_mono finite_Collect_conjI finite_imageI
        finite_subset mem_Collect_eq order.trans subsetI)
  then show ?thesis using full(1) len es by (simp add: beaten_def)
qed

text \<open>Fewer postings ahead never raise the bound that reaches an item.\<close>

lemma reaches_mono:
  assumes "cursor_ok c" "set (ahead c') \<subseteq> set (ahead c)" "reaches c' d"
  shows "reaches c d"
proof -
  obtain p where p: "p \<in> set (ahead c')" "post_item p \<le> d"
    using assms(3) by (auto simp: reaches_def current_id_ahead split: list.splits)
  then obtain a where a: "current_id c = Some a"
    using assms(2) by (cases "ahead c") (auto simp: current_id_ahead)
  then have "a \<le> d" using ahead_from_current [OF assms(1) a, of p] assms(2) p by auto
  then show ?thesis using a by (simp add: reaches_def)
qed

lemma reach_ub_mono:
  assumes "list_all2 (\<lambda>c' c. cursor_ok c \<and> set (ahead c') \<subseteq> set (ahead c) \<and> term_ub c' = term_ub c) cs' cs"
  shows "reach_ub cs' d \<le> reach_ub cs d"
  using assms
proof (induction rule: list_all2_induct)
  case (Cons c' cs' c cs)
  then have "(if reaches c' d then sint (term_ub c') else 0) \<le> (if reaches c d then sint (term_ub c) else 0)"
    using reaches_mono [of c c' d] by (auto simp: cursor_ok_def)
  then show ?case using Cons.IH by (simp add: reach_ub_def)
qed (simp add: reach_ub_def)

lemma items_ahead_mono:
  "list_all2 (\<lambda>c' c. cursor_ok c \<and> set (ahead c') \<subseteq> set (ahead c) \<and> term_ub c' = term_ub c) cs' cs
    \<Longrightarrow> items_ahead cs' \<subseteq> items_ahead cs"
  by (induction rule: list_all2_induct) (auto simp: items_ahead_def)

section \<open>A seek keeps the invariant\<close>

lemma seek_list:
  assumes "cursors_ok cs" "p < length cs"
  shows "list_all2 (\<lambda>c' c. cursor_ok c \<and> set (ahead c') \<subseteq> set (ahead c) \<and> term_ub c' = term_ub c)
    (cs[p := seek t (cs ! p)]) cs"
  using assms ahead_seek_filter [of "cs ! p" t]
  by (auto simp: list_all2_conv_all_nth nth_list_update)

lemma sum_list_replace:
  "p < length cs \<Longrightarrow> (\<Sum>c\<leftarrow>cs[p := c']. f c) = (\<Sum>c\<leftarrow>cs. f c) - f (cs ! p) + (f c' :: int)"
proof (induction cs arbitrary: p)
  case (Cons c cs)
  then show ?case by (cases p) simp_all
qed simp

lemma score_left_seek:
  assumes "cursors_ok cs" "p < length cs"
  shows "score_left (cs[p := seek t (cs ! p)]) d
    = score_left cs d - (if d < t then owed (cs ! p) d else 0)"
  using assms owed_seek [of "cs ! p" t d]
  by (auto simp: score_left_def sum_list_replace)

lemma wand_inv_seek:
  assumes "catalog full U k" "wand_inv full U k seen cs h" "p < length cs"
    and low: "\<And>d. d < t \<Longrightarrow> reach_ub cs d \<le> threshold_of k (heap_entries h)"
  shows "wand_inv full U k seen (cs[p := seek t (cs ! p)]) h"
proof -
  let ?cs = "cs[p := seek t (cs ! p)]"
  have ok: "cursors_ok cs" using assms(2) by (simp add: wand_inv_def)
  note list = seek_list [OF ok assms(3), of t]
  have "cursors_ok ?cs"
    using ok cursor_ok_seek [of "cs ! p" t] nth_mem [OF assms(3)] set_update_subset_insert [of cs p] by blast
  moreover have "items_ahead ?cs \<subseteq> items_ahead cs" by (rule items_ahead_mono [OF list])
  moreover have "score_left ?cs d = full d
      \<or> beaten full k seen d \<and> reach_ub ?cs d \<le> threshold_of k (heap_entries h)" if d: "d \<in> U - seen" for d
  proof (cases "score_left cs d = full d")
    case True
    show ?thesis
    proof (cases "d < t")
      case False
      then show ?thesis using True score_left_seek [OF ok assms(3), of t d] by simp
    next
      case d_lt: True
      have "full d \<le> threshold_of k (heap_entries h)"
        using True score_left_reach [OF ok, of d] low [OF d_lt] by simp
      then have "beaten full k seen d" using low_beaten [OF assms(1,2)] d True by simp
      then show ?thesis using reach_ub_mono [OF list, of d] low [OF d_lt] by simp
    qed
  next
    case False
    then show ?thesis using assms(2) d reach_ub_mono [OF list, of d] by (force simp: wand_inv_def)
  qed
  ultimately show ?thesis using assms(2) unfolding wand_inv_def by blast
qed

section \<open>Scoring the pivot keeps the invariant\<close>

lemma score_aligned_map:
  "score_aligned pivot cs =
     (\<Sum>c\<leftarrow>cs. if current_id c = Some pivot then sint (query_weight c) * sint (current_impact c) else 0,
      map (\<lambda>c. if current_id c = Some pivot then advance c else c) cs)"
  by (induction cs) (simp_all split: prod.splits)

text \<open>Every current item is at or after the pivot when the first one is.\<close>

lemma aligned_current:
  assumes "line_up cs \<noteq> []" "current_id (line_up cs ! 0) = Some pid" "c \<in> set (line_up cs)"
  obtains a where "current_id c = Some a" "pid \<le> a"
proof -
  obtain i where i: "i < length (line_up cs)" "c = line_up cs ! i" using assms(3) by (metis in_set_conv_nth)
  obtain a where a: "current_id c = Some a" using line_up_current [OF i(1)] i(2) by metis
  then have "pid \<le> a" using line_up_items [of 0 i cs pid a] i assms(2) by simp
  then show thesis using that a by blast
qed

definition aligned :: "string \<Rightarrow> posting_cursor list \<Rightarrow> bool" where
  "aligned pid cs \<longleftrightarrow> (\<forall>c \<in> set cs. \<exists>a. current_id c = Some a \<and> pid \<le> a)"

lemma aligned_line_up:
  "line_up cs \<noteq> [] \<Longrightarrow> current_id (line_up cs ! 0) = Some pid \<Longrightarrow> aligned pid (line_up cs)"
  unfolding aligned_def using aligned_current by metis

lemma aligned_score:
  assumes "cursors_ok cs" "aligned pid cs"
  shows "fst (score_aligned pid cs) = score_left cs pid"
proof -
  have "(if current_id c = Some pid then sint (query_weight c) * sint (current_impact c) else 0) = owed c pid"
    if "c \<in> set cs" for c
    using assms that owed_current [of c pid] owed_before [of c _ pid]
    by (fastforce simp: aligned_def order.order_iff_strict)
  then show ?thesis by (simp add: score_aligned_map score_left_def cong: map_cong)
qed

lemma aligned_score_left:
  "d \<noteq> pid \<Longrightarrow> score_left (snd (score_aligned pid cs)) d = score_left cs d"
  unfolding score_left_def score_aligned_map
  by (induction cs) (auto simp: owed_advance)

lemma set_tl_subset: "set (tl xs) \<subseteq> set xs"
  by (cases xs) auto

lemma advance_list:
  "cursors_ok cs \<Longrightarrow> list_all2 (\<lambda>c' c. cursor_ok c \<and> set (ahead c') \<subseteq> set (ahead c) \<and> term_ub c' = term_ub c)
    (snd (score_aligned pid cs)) cs"
  using set_tl_subset by (fastforce simp: score_aligned_map list_all2_conv_all_nth ahead_advance)

lemma advance_beyond:
  assumes "cursors_ok cs" "aligned pid cs" "b \<in> items_ahead (snd (score_aligned pid cs))"
  shows "pid < b"
proof -
  obtain c where c: "c \<in> set cs" and b: "b \<in> post_item ` set (ahead (if current_id c = Some pid then advance c else c))"
    using assms(3) by (auto simp: items_ahead_def score_aligned_map)
  obtain a where a: "current_id c = Some a" "pid \<le> a" using assms(2) c by (auto simp: aligned_def)
  have ok: "cursor_ok c" using assms(1) c by blast
  show ?thesis
  proof (cases "a = pid")
    case True
    then obtain p ps where "ahead c = p # ps" "post_item p = pid"
      using a(1) by (auto simp: current_id_ahead split: list.splits)
    then show ?thesis using b ok True a(1) by (auto simp: cursor_ok_def ahead_advance)
  next
    case False
    then have "b \<in> post_item ` set (ahead c)" "pid < a" using a b by auto
    then show ?thesis using ahead_from_current [OF ok a(1)] by (auto intro: order.strict_trans2)
  qed
qed

lemma threshold_mono:
  assumes "finite S" "finite S'" "S \<subseteq> S'" "0 < k"
    "score_heap.holds_best k S es" "score_heap.holds_best k S' es'"
    "\<And>e. e \<in> set es' \<Longrightarrow> 0 \<le> snd e"
  shows "threshold_of k es \<le> threshold_of k es'"
proof (cases "length es = k")
  case False
  then show ?thesis using assms(7) by (cases es') (auto simp: threshold_of_def min_score_def)
next
  case True
  then obtain w ws where es: "es = w # ws" using assms(4) by (cases es) auto
  note full = score_heap.best_full [OF assms(1) assms(5) [unfolded es]]
  have "k \<le> card S" using full(1) True es assms(1) by (simp add: card_topk)
  also have "\<dots> \<le> card S'" using assms(2,3) by (rule card_mono)
  finally have "length es' = k" using score_heap.best_length [OF assms(6)] assms(2) by (simp add: card_topk)
  then obtain v vs where es': "es' = v # vs" using assms(4) by (cases es') auto
  have v: "score_rank v \<in> topk k S'" using assms(6) es' by (auto simp: score_heap.holds_best_def)
  have "score_rank v \<le> score_rank w"
  proof (rule ccontr)
    assume "\<not> ?thesis"
    then have "score_rank w < score_rank v" by (rule linorder_not_le [THEN iffD1])
    then have before: "t < score_rank v" if "t \<in> topk k S" for t
      using full(3) [OF _ that] True es by (intro le_less_trans [of t "score_rank w"]) simp_all
    have "topk k S \<subseteq> topk k S' - {score_rank v}"
    proof
      fix t assume t: "t \<in> topk k S"
      then have "t \<in> S'" using topk_subset [OF assms(1)] assms(3) by blast
      then have "t \<in> topk k S'" using topk_less [OF assms(2) v] before [OF t] by fastforce
      then show "t \<in> topk k S' - {score_rank v}" using before [OF t] by blast
    qed
    then have "card (topk k S) < card (topk k S')"
      using v by (intro psubset_card_mono) auto
    then show False using full(1) True es assms(2) by (simp add: card_topk)
  qed
  then show ?thesis using True \<open>length es' = k\<close> es es'
    by (auto simp: threshold_of_def min_score_def less_eq_prod_def)
qed

lemma reach_ub_prefix:
  assumes "cursors_ok cs" "\<And>i. i \<le> n \<Longrightarrow> i < length cs \<Longrightarrow> reaches (cs ! i) d"
  shows "ub_sum (take (Suc n) cs) \<le> reach_ub cs d"
  using assms
proof (induction cs arbitrary: n)
  case (Cons c cs)
  have c: "reaches c d" "cursor_ok c" using Cons.prems(1) Cons.prems(2) [of 0] by auto
  show ?case
  proof (cases n)
    case 0
    have "0 \<le> reach_ub cs d"
      unfolding reach_ub_def using Cons.prems(1) by (intro sum_list_nonneg) (auto simp: cursor_ok_def)
    then show ?thesis using c 0 by (simp add: reach_ub_def)
  next
    case (Suc m)
    have "ub_sum (take (Suc m) cs) \<le> reach_ub cs d"
      using Cons.prems(1) Cons.prems(2) [of "Suc i" for i] Suc by (intro Cons.IH) auto
    then show ?thesis using c Suc by (simp add: reach_ub_def)
  qed
qed (simp add: reach_ub_def)

lemma held_full:
  assumes "catalog full U k" "seen \<subseteq> U" "score_heap.holds_best k (full_rank full ` seen) es" "e \<in> set es"
  shows "fst e \<in> seen" "snd e = full (fst e)" "0 < snd e"
proof -
  have "finite (full_rank full ` seen)" using assms(1,2) by (auto simp: catalog_def dest: finite_subset)
  then have "score_rank e \<in> full_rank full ` seen"
    using topk_subset assms(3,4) by (fastforce simp: score_heap.holds_best_def)
  then show "fst e \<in> seen" "snd e = full (fst e)" "0 < snd e"
    using assms(1,2) by (auto simp: full_rank_def catalog_def)
qed

lemma wand_inv_aligned:
  assumes "catalog full U k" "wand_inv full U k seen cs h" "aligned pid cs" "pid \<in> items_ahead cs"
    and high: "threshold_of k (heap_entries h) < reach_ub cs pid"
  shows "\<exists>h'. heap_offer h pid (fst (score_aligned pid cs)) (threshold_of k (heap_entries h))
        = Some (h', threshold_of k (heap_entries h'))
      \<and> wand_inv full U k (insert pid seen) (snd (score_aligned pid cs)) h'"
proof -
  let ?cs = "snd (score_aligned pid cs)" and ?seen = "insert pid seen"
  let ?S = "full_rank full ` seen" and ?S' = "full_rank full ` insert pid seen"
  have inv: "cursors_ok cs" "items_ahead cs \<subseteq> U" "seen \<subseteq> U" "heap_capacity h = k"
      "score_heap.holds_best k ?S (heap_entries h)" "\<And>a b. a \<in> seen \<Longrightarrow> b \<in> items_ahead cs \<Longrightarrow> a < b"
      "\<And>d. d \<in> U - seen \<Longrightarrow> score_left cs d = full d
          \<or> beaten full k seen d \<and> reach_ub cs d \<le> threshold_of k (heap_entries h)"
    using assms(2) unfolding wand_inv_def by blast+
  have fin: "finite seen" "finite ?S" and k: "0 < k"
    using assms(1) inv(3) by (auto simp: catalog_def dest: finite_subset)
  have pid: "pid \<in> U - seen" using assms(4) inv(2) inv(6) [of pid pid] by auto
  then have full: "score_left cs pid = full pid" using inv(7) [of pid] high by auto
  have score: "fst (score_aligned pid cs) = full pid" using aligned_score [OF inv(1) assms(3)] full by simp
  have new: "full_rank full pid \<notin> ?S" using pid full_rank_inj by (simp add: inj_image_mem_iff)
  obtain h' where h': "heap_offer h pid (full pid) (threshold_of k (heap_entries h))
        = Some (h', threshold_of k (heap_entries h'))" "heap_capacity h' = k"
      "score_heap.holds_best k ?S' (heap_entries h')"
    using heap_offer_best [OF fin(2) inv(5,4) k, of pid "full pid"] new by (auto simp: full_rank_def)
  note list = advance_list [OF inv(1), of pid]
  have th: "threshold_of k (heap_entries h) \<le> threshold_of k (heap_entries h')"
    using threshold_mono [OF fin(2) _ _ k inv(5) h'(3)] held_full(3) [OF assms(1) _ h'(3)] fin(1) pid inv(3)
    by (auto simp: less_imp_le)
  have "wand_inv full U k ?seen ?cs h'"
    unfolding wand_inv_def
  proof (intro conjI ballI)
    show "cursor_ok c" if "c \<in> set ?cs" for c
      using that inv(1) cursor_ok_advance by (auto simp: score_aligned_map)
    show "items_ahead ?cs \<subseteq> U" using items_ahead_mono [OF list] inv(2) by blast
    show "insert pid seen \<subseteq> U" using pid inv(3) by blast
    show "a < b" if "a \<in> ?seen" "b \<in> items_ahead ?cs" for a b
      using that advance_beyond [OF inv(1) assms(3)] inv(6) items_ahead_mono [OF list] by blast
    show "score_left ?cs d = full d
        \<or> beaten full k ?seen d \<and> reach_ub ?cs d \<le> threshold_of k (heap_entries h')" if "d \<in> U - ?seen" for d
      using inv(7) [of d] that aligned_score_left [of d pid cs] reach_ub_mono [OF list, of d] th
        beaten_mono [of ?seen seen full k d] fin(1) by auto
  qed (rule h')+
  then show ?thesis using h'(1) score by auto
qed

section \<open>The loop\<close>

lemma reach_ub_none: "(\<And>c. c \<in> set cs \<Longrightarrow> \<not> reaches c d) \<Longrightarrow> reach_ub cs d = 0"
  unfolding reach_ub_def by (induction cs) auto

lemma reach_ub_append: "reach_ub (xs @ ys) d = reach_ub xs d + reach_ub ys d"
  by (simp add: reach_ub_def)

lemma find_pivot_reach:
  assumes "cursors_ok (line_up cs)" "find_pivot (line_up cs) th = Some (n, pid)"
  shows "th < reach_ub (line_up cs) pid" "pid \<in> items_ahead (line_up cs)"
    "0 < n \<Longrightarrow> d < pid \<Longrightarrow> reach_ub (line_up cs) d \<le> th"
proof -
  let ?cs = "line_up cs"
  have n: "n < length ?cs" "current_id (?cs ! n) = Some pid" "th < ub_sum (take (Suc n) ?cs)"
    "0 < n \<Longrightarrow> ub_sum (take n ?cs) \<le> th"
    using find_pivot_Some [OF assms(2)] line_up_live by auto
  have "reaches (?cs ! i) pid" if i: "i \<le> n" "i < length ?cs" for i
  proof -
    obtain a where a: "current_id (?cs ! i) = Some a" using line_up_current [OF i(2)] .
    then show ?thesis using line_up_items [OF i(1) n(1) a n(2)] by (simp add: reaches_def)
  qed
  then show "th < reach_ub ?cs pid" using reach_ub_prefix [OF assms(1), of n pid] n(3) by simp
  show "pid \<in> items_ahead ?cs"
  proof -
    obtain p ps where "ahead (?cs ! n) = p # ps" "post_item p = pid"
      using n(2) by (auto simp: current_id_ahead split: list.splits)
    then have "pid \<in> post_item ` set (ahead (?cs ! n))" by simp
    then show ?thesis using nth_mem [OF n(1)] unfolding items_ahead_def by blast
  qed
  assume d: "0 < n" "d < pid"
  have "\<not> reaches c d" if c: "c \<in> set (drop n ?cs)" for c
  proof -
    obtain j where "j < length ?cs - n" "c = ?cs ! (n + j)"
      using c n(1) by (auto simp: in_set_conv_nth)
    moreover from this have "n + j < length ?cs" by linarith
    ultimately obtain i where i: "n \<le> i" "i < length ?cs" "c = ?cs ! i" using le_add1 by blast
    obtain a where a: "current_id c = Some a" using line_up_current [OF i(2)] i(3) by metis
    then have "pid \<le> a" using line_up_items [OF i(1,2) n(2)] i(3) by simp
    then show ?thesis using a d(2) by (simp add: reaches_def)
  qed
  then have zero: "reach_ub (drop n ?cs) d = 0" by (simp add: reach_ub_none)
  have "reach_ub ?cs d = reach_ub (take n ?cs) d + reach_ub (drop n ?cs) d"
    using reach_ub_append [of "take n ?cs" "drop n ?cs" d] by simp
  moreover have "reach_ub (take n ?cs) d \<le> ub_sum (take n ?cs)"
    using assms(1) by (intro reach_ub_total) (auto dest: in_set_takeD)
  ultimately show "reach_ub ?cs d \<le> th" using zero n(4) [OF d(1)] by simp
qed

lemma wand_loop_inv:
  assumes "catalog full U k" "wand_inv full U k seen cs h"
  shows "\<exists>h' seen'. wand_loop cs h (threshold_of k (heap_entries h)) = Some h' \<and> seen' \<subseteq> U
    \<and> score_heap.holds_best k (full_rank full ` seen') (heap_entries h')
    \<and> (\<forall>d \<in> U - seen'. beaten full k seen' d)"
  using assms
proof (induction "left cs" arbitrary: cs h seen rule: less_induct)
  case less
  let ?cs = "line_up cs" and ?th = "threshold_of k (heap_entries h)"
  have inv: "wand_inv full U k seen ?cs h" using less.prems(2) by (rule wand_inv_line_up)
  then have ok: "cursors_ok ?cs" and sub: "seen \<subseteq> U"
    and best: "score_heap.holds_best k (full_rank full ` seen) (heap_entries h)" by (simp_all add: wand_inv_def)
  show ?case
  proof (cases "?cs = [] \<or> find_pivot ?cs ?th = None")
    case True
    then have ret: "wand_loop cs h ?th = Some h" by (subst wand_loop.simps) (auto simp: Let_def)
    have low: "score_left ?cs d \<le> ?th" if "d \<in> U" "score_left ?cs d = full d" for d
    proof (cases "?cs = []")
      case True
      then show ?thesis using less.prems(1) that by (auto simp: score_left_def catalog_def)
    next
      case False
      then have "ub_sum ?cs \<le> ?th" using True find_pivot_None line_up_live by blast
      then show ?thesis using score_left_reach [OF ok, of d] reach_ub_total [OF ok, of d] by simp
    qed
    have "beaten full k seen d" if d: "d \<in> U - seen" for d
    proof (cases "score_left ?cs d = full d")
      case True
      then show ?thesis using low_beaten [OF less.prems(1) inv, of d] low [of d] d by simp
    next
      case False
      then show ?thesis using inv d unfolding wand_inv_def by blast
    qed
    then show ?thesis using ret sub best by blast
  next
    case False
    then obtain n pid where pivot: "?cs \<noteq> []" "find_pivot ?cs ?th = Some (n, pid)" by auto
    note reach = find_pivot_reach [OF ok pivot(2)]
    show ?thesis
    proof (cases "current_id (?cs ! 0) = Some pid")
      case True
      obtain h' where h': "heap_offer h pid (fst (score_aligned pid ?cs)) ?th
            = Some (h', threshold_of k (heap_entries h'))"
          "wand_inv full U k (insert pid seen) (snd (score_aligned pid ?cs)) h'"
        using wand_inv_aligned [OF less.prems(1) inv aligned_line_up [OF pivot(1) True] reach(2,1)] by blast
      have "wand_loop cs h ?th = wand_loop (snd (score_aligned pid ?cs)) h' (threshold_of k (heap_entries h'))"
        using pivot True h'(1) by (subst wand_loop.simps) (simp add: Let_def)
      then show ?thesis using less.hyps [OF aligned_left [OF pivot(1) True] less.prems(1) h'(2)] by simp
    next
      case notfirst: False
      let ?p = "choose_advance ?cs n pid"
      let ?cs' = "?cs[?p := seek pid (?cs ! ?p)]"
      have p: "?p < length ?cs" "?p < n" using choose_advance_cases [OF pivot(2)] notfirst by auto
      have "wand_inv full U k seen ?cs' h"
        using wand_inv_seek [OF less.prems(1) inv p(1), of pid] reach(3) p(2) by auto
      moreover have "wand_loop cs h ?th = wand_loop ?cs' h ?th"
        using pivot notfirst by (subst wand_loop.simps) (simp add: Let_def)
      ultimately show ?thesis
        using less.hyps [OF seek_pick_left [OF pivot(2) notfirst] less.prems(1)] by simp
    qed
  qed
qed

end
