(* ===== verification/Sparse_Exact.thy ===== *)
theory Sparse_Exact
  imports Wand_Loop
begin

text \<open>
  The exactness of the sparse lane: what the exhaustive scan computes, what the cursors of a query
  owe each item, and the equality of the WAND result with the scan. The last section holds for both
  algorithms on any index: they return, and with at most \<open>k\<close> entries.
\<close>

section \<open>The exhaustive scan\<close>

definition score_of :: "scored list \<Rightarrow> string \<Rightarrow> int" where
  "score_of es d = (case map_of es d of Some s \<Rightarrow> s | None \<Rightarrow> 0)"

text \<open>The posting lists a query reads, with their weights.\<close>

fun query_lists :: "inverted_index \<Rightarrow> (u32 \<times> i32) list \<Rightarrow> (i32 \<times> impact_posting list) list" where
  "query_lists idx [] = []"
| "query_lists idx ((t, qw) # query) =
     (case sorted_postings idx t of None \<Rightarrow> query_lists idx query
      | Some posts \<Rightarrow> (qw, posts) # query_lists idx query)"

definition query_score :: "inverted_index \<Rightarrow> (u32 \<times> i32) list \<Rightarrow> string \<Rightarrow> int" where
  "query_score idx query d = (\<Sum>(w, posts)\<leftarrow>query_lists idx query. contribution w d posts)"

definition query_items :: "inverted_index \<Rightarrow> (u32 \<times> i32) list \<Rightarrow> string set" where
  "query_items idx query = (\<Union>(w, posts) \<in> set (query_lists idx query). post_item ` set posts)"

lemma add_score_keys: "fst ` set (add_score i s es) = insert i (fst ` set es)"
  by (induction i s es rule: add_score.induct) auto

lemma add_score_distinct: "distinct (map fst es) \<Longrightarrow> distinct (map fst (add_score i s es))"
proof (induction i s es rule: add_score.induct)
  case (2 item s i s' es)
  then show ?case using add_score_keys [of item s es] by (auto simp flip: set_map)
qed simp

lemma add_score_of: "score_of (add_score i s es) d = score_of es d + (if d = i then s else 0)"
  by (induction i s es rule: add_score.induct) (auto simp: score_of_def)

lemma scan_posts:
  fixes w :: i32 and posts :: "impact_posting list"
  defines "scan \<equiv> fold (\<lambda>p. add_score (post_item p) (sint w * sint (impact p)))"
  shows "fst ` set (scan posts es) = fst ` set es \<union> post_item ` set posts"
    and "distinct (map fst es) \<Longrightarrow> distinct (map fst (scan posts es))"
    and "score_of (scan posts es) d = score_of es d + contribution w d posts"
  unfolding scan_def
  by (induction posts arbitrary: es) (auto simp: add_score_keys add_score_distinct add_score_of)

lemma scan_fold:
  fixes idx :: inverted_index and query :: "(u32 \<times> i32) list"
  defines "scan \<equiv> fold (\<lambda>(t, qw) scores. case sorted_postings idx t of None \<Rightarrow> scores
     | Some posts \<Rightarrow> fold (\<lambda>p. add_score (post_item p) (sint qw * sint (impact p))) posts scores)"
  shows "fst ` set (scan query es) = fst ` set es \<union> query_items idx query"
    and "distinct (map fst es) \<Longrightarrow> distinct (map fst (scan query es))"
    and "score_of (scan query es) d = score_of es d + query_score idx query d"
proof -
  have "fst ` set (scan query es) = fst ` set es \<union> query_items idx query
    \<and> (distinct (map fst es) \<longrightarrow> distinct (map fst (scan query es)))
    \<and> score_of (scan query es) d = score_of es d + query_score idx query d"
  proof (induction query arbitrary: es)
    case (Cons q query)
    obtain t w where q: "q = (t, w)" by force
    show ?case
    proof (cases "sorted_postings idx t")
      case None
      then show ?thesis using Cons [of es] q by (simp add: scan_def query_items_def query_score_def)
    next
      case (Some posts)
      let ?es = "fold (\<lambda>p. add_score (post_item p) (sint w * sint (impact p))) posts es"
      have "scan (q # query) es = scan query ?es" using Some q by (simp add: scan_def)
      then show ?thesis using Cons [of ?es] Some q
        by (auto simp: query_items_def query_score_def scan_posts simp del: fold_simps)
    qed
  qed (simp add: scan_def query_items_def query_score_def)
  then show "fst ` set (scan query es) = fst ` set es \<union> query_items idx query"
    "distinct (map fst es) \<Longrightarrow> distinct (map fst (scan query es))"
    "score_of (scan query es) d = score_of es d + query_score idx query d" by blast+
qed

lemma scan_scores_facts:
  "fst ` set (scan_scores idx query) = query_items idx query"
  "distinct (map fst (scan_scores idx query))"
  "score_of (scan_scores idx query) d = query_score idx query d"
  using scan_fold [where es = "[]" and idx = idx and query = query]
  by (simp_all add: scan_scores_def score_of_def)

lemma scan_scores_rank:
  "score_rank ` set (scan_scores idx query) = full_rank (query_score idx query) ` query_items idx query"
proof -
  let ?es = "scan_scores idx query"
  have "score_rank e = full_rank (query_score idx query) (fst e)" if "e \<in> set ?es" for e
  proof -
    have "map_of ?es (fst e) = Some (snd e)" using that scan_scores_facts(2) by simp
    then have "snd e = query_score idx query (fst e)"
      using scan_scores_facts(3) [of idx query "fst e"] by (simp add: score_of_def)
    then show ?thesis by (simp add: full_rank_def)
  qed
  then have "score_rank ` set ?es = full_rank (query_score idx query) ` fst ` set ?es"
    by (simp add: image_image)
  then show ?thesis by (simp add: scan_scores_facts(1))
qed

section \<open>The cursors of a query\<close>

text \<open>What the exactness of WAND needs of a posting list and its weight.\<close>

definition list_ok :: "i32 \<Rightarrow> impact_posting list \<Rightarrow> bool" where
  "list_ok w posts \<longleftrightarrow> distinct (map post_item posts) \<and> 0 < sint w
     \<and> (\<forall>p \<in> set posts. 0 < sint (impact p) \<and> sint w * sint (impact p) \<le> 2 ^ 31 - 1)"

lemma max_impact_bound: "p \<in> set ps \<Longrightarrow> sint (impact p) \<le> sint (max_impact ps)"
  by (induction ps rule: max_impact.induct) (auto simp: Let_def)

lemma max_impact_in: "ps \<noteq> [] \<Longrightarrow> max_impact ps \<in> impact ` set ps"
  by (induction ps rule: max_impact.induct) (auto simp: Let_def)

lemma sint_word_of_nonneg:
  assumes "0 \<le> x" "x \<le> 2 ^ 31 - 1"
  shows "sint (word_of_int x :: i32) = x"
proof -
  have "signed_take_bit 31 x = x" using assms by (intro signed_take_bit_int_eq_self) simp_all
  then show ?thesis by (simp add: sint_sbintrunc')
qed

lemma sint_upper_bound:
  assumes "0 \<le> sint m * sint w" "sint m * sint w \<le> 2 ^ 31 - 1"
  shows "sint (upper_bound m w) = sint m * sint w"
  using sint_word_of_nonneg [OF assms] min.absorb1 [OF assms(2)] unfolding upper_bound_def by simp

lemma cursor_ok_new:
  assumes "list_ok w posts" "sorted (map post_item posts)" "posts \<noteq> []" "cur_postings c = posts"
    "position c = 0" "query_weight c = w" "term_ub c = upper_bound (max_impact posts) w"
  shows "cursor_ok c"
proof -
  obtain p where "p \<in> set posts" "max_impact posts = impact p" using max_impact_in assms(3) by blast
  then have "0 \<le> sint (max_impact posts) * sint w" "sint (max_impact posts) * sint w \<le> 2 ^ 31 - 1"
    using assms(1) by (auto simp: list_ok_def mult.commute)
  then have ub: "sint (term_ub c) = sint w * sint (max_impact posts)"
    using assms(7) by (simp add: sint_upper_bound mult.commute)
  have "sorted_wrt (<) (map post_item posts)"
    using assms(1,2) by (simp add: list_ok_def strict_sorted_iff)
  moreover have "0 < sint w * sint (impact p) \<and> sint w * sint (impact p) \<le> sint (term_ub c)"
    if "p \<in> set posts" for p
    using that assms(1) max_impact_bound [OF that] ub by (auto simp: list_ok_def)
  ultimately show ?thesis
    using ub \<open>0 \<le> sint (max_impact posts) * sint w\<close> assms(4-6)
    by (simp add: cursor_ok_def ahead_def mult.commute)
qed

text \<open>An index as \<open>new\<close> builds it.\<close>

definition index_ok :: "inverted_index \<Rightarrow> bool" where
  "index_ok idx \<longleftrightarrow> (\<forall>t posts. sorted_postings idx t = Some posts \<longrightarrow>
     sorted (map post_item posts) \<and> global_max_impact idx t = Some (max_impact posts))"

lemma index_ok_new: "index_ok (inverted_index_new postings n)"
  by (auto simp: index_ok_def inverted_index_new_def Let_def)

definition query_ok :: "inverted_index \<Rightarrow> (u32 \<times> i32) list \<Rightarrow> bool" where
  "query_ok idx query \<longleftrightarrow> (\<forall>(w, posts) \<in> set (query_lists idx query). list_ok w posts)"

lemma build_cursors_facts:
  assumes "index_ok idx" "query_ok idx query"
  shows "cursors_ok (build_cursors idx query)"
    and "items_ahead (build_cursors idx query) = query_items idx query"
    and "score_left (build_cursors idx query) d = query_score idx query d"
proof -
  have "cursors_ok (build_cursors idx query)
    \<and> items_ahead (build_cursors idx query) = query_items idx query
    \<and> score_left (build_cursors idx query) d = query_score idx query d"
    using assms(2,1)
  proof (induction idx query rule: build_cursors.induct)
    case (1 idx)
    then show ?case by (simp add: items_ahead_def query_items_def score_left_def query_score_def)
  next
    case (2 idx t qw query)
    show ?case
    proof (cases "sorted_postings idx t")
      case None
      then show ?thesis using "2.IH"(1) "2.prems" None by (simp add: query_ok_def query_items_def query_score_def)
    next
      case (Some posts)
      have rest: "query_ok idx query" and ok: "list_ok qw posts"
        using "2.prems" Some by (simp_all add: query_ok_def)
      show ?thesis
      proof (cases "posts = []")
        case True
        then show ?thesis using "2.IH"(2) [OF Some True rest "2.prems"(2)] Some True by (simp add: query_items_def query_score_def)
      next
        case False
        obtain c where c: "build_cursors idx ((t, qw) # query) = c # build_cursors idx query"
            "cur_postings c = posts" "position c = 0" "query_weight c = qw"
            "term_ub c = upper_bound (max_impact posts) qw"
          using Some False "2.prems"(2) by (auto simp: index_ok_def)
        have "cursor_ok c"
          using cursor_ok_new [OF ok _ False c(2-5)] "2.prems"(2) Some by (simp add: index_ok_def)
        moreover have "ahead c = posts" using c(2,3) by (simp add: ahead_def)
        ultimately show ?thesis
          using "2.IH"(3) [OF Some False rest "2.prems"(2)] Some c(1,4)
          by (simp add: items_ahead_def query_items_def score_left_def query_score_def owed_def)
      qed
    qed
  qed
  then show "cursors_ok (build_cursors idx query)"
    "items_ahead (build_cursors idx query) = query_items idx query"
    "score_left (build_cursors idx query) d = query_score idx query d" by blast+
qed

section \<open>WAND is exact\<close>

lemma sum_list_pos:
  "(\<And>y. y \<in> set xs \<Longrightarrow> 0 \<le> f y) \<Longrightarrow> x \<in> set xs \<Longrightarrow> 0 < f x \<Longrightarrow> 0 < (\<Sum>x\<leftarrow>xs. f x :: int)"
proof (induction xs)
  case (Cons y xs)
  have "0 \<le> (\<Sum>x\<leftarrow>xs. f x)" using Cons.prems(1) by (intro sum_list_nonneg) auto
  moreover have "0 \<le> f y" using Cons.prems(1) by simp
  ultimately show ?case using Cons by fastforce
qed simp

lemma owed_pos: "cursor_ok c \<Longrightarrow> p \<in> set (ahead c) \<Longrightarrow> post_item p = d \<Longrightarrow> 0 < owed c d"
  unfolding owed_def contribution_def by (rule sum_list_pos) (auto simp: cursor_ok_def less_imp_le)

lemma topk_beaten:
  assumes "finite U" "seen \<subseteq> U" "\<forall>d \<in> U - seen. beaten full k seen d"
  shows "topk k (full_rank full ` U) = topk k (full_rank full ` seen)"
proof (cases "U = seen")
  case False
  let ?A = "full_rank full ` seen"
  have fin: "finite seen" "finite ?A" using assms(1,2) finite_subset by auto
  have before: "k \<le> card {t \<in> ?A. t < full_rank full d}" if "d \<in> U - seen" for d
  proof -
    have "{t \<in> ?A. t < full_rank full d} = full_rank full ` {a \<in> seen. full_rank full a < full_rank full d}"
      by auto
    then have "card {t \<in> ?A. t < full_rank full d} = card {a \<in> seen. full_rank full a < full_rank full d}"
      using inj_on_subset [OF full_rank_inj] by (simp add: card_image)
    then show ?thesis using assms(3) that by (simp add: beaten_def)
  qed
  have less: "t < full_rank full d" if t: "t \<in> topk k ?A" and d: "d \<in> U - seen" for t d
  proof (rule ccontr)
    assume "\<not> t < full_rank full d"
    then have "a \<in> topk k ?A - {t}" if "a \<in> ?A" "a < full_rank full d" for a
      using topk_less [OF fin(2) t that(1)] that(2) by force
    then have "card {a \<in> ?A. a < full_rank full d} \<le> card (topk k ?A - {t})"
      by (intro card_mono) auto
    also have "\<dots> < card (topk k ?A)" using t by (intro card_Diff1_less) auto
    also have "\<dots> \<le> k" using fin by (simp add: card_topk)
    finally show False using before [OF d] by simp
  qed
  obtain d where "d \<in> U - seen" using False assms(2) by blast
  then have "k \<le> card ?A" using before [of d] fin(2) card_mono [of ?A "{t \<in> ?A. t < full_rank full d}"] by force
  then have card: "card (topk k ?A) = k" using fin by (simp add: card_topk)
  show ?thesis
  proof (rule topk_decided)
    fix t s assume "t \<in> topk k ?A" "s \<in> full_rank full ` U" "s \<notin> ?A"
    then show "t < s" using less by blast
  qed (use assms(1,2) card in auto)
qed simp

lemma run_wand_exact:
  assumes "index_ok idx" "query_ok idx query" "0 < k"
  shows "run_wand (build_cursors idx query) k
    = Some (take k (sort_key (\<lambda>(i, s). (- s, i)) (scan_scores idx query)))"
proof -
  let ?cs = "build_cursors idx query" and ?full = "query_score idx query" and ?U = "query_items idx query"
  note cs = build_cursors_facts [OF assms(1,2)]
  have fin: "finite ?U" using scan_scores_facts(1) [of idx query] by (metis finite_imageI List.finite_set)
  have pos: "0 < ?full d" if d: "d \<in> ?U" for d
  proof -
    obtain c p where c: "c \<in> set ?cs" "p \<in> set (ahead c)" "post_item p = d"
      using d [folded cs(2)] by (auto simp: items_ahead_def)
    then have "0 < owed c d" using cs(1) owed_pos by blast
    then have "0 < score_left ?cs d"
      unfolding score_left_def using c(1) cs(1) owed_bounds by (intro sum_list_pos) auto
    then show ?thesis by (simp add: cs(3))
  qed
  have cat: "catalog ?full ?U k" using fin pos assms(3) by (simp add: catalog_def)
  have inv: "wand_inv ?full ?U k {} ?cs (top_k_heap_new k)"
    using cs score_heap.best_new [of k] by (simp add: wand_inv_def top_k_heap_new_def)
  have th: "threshold_of k (heap_entries (top_k_heap_new k)) = 0"
    by (simp add: threshold_of_def top_k_heap_new_def min_score_def)
  obtain h seen where h: "wand_loop ?cs (top_k_heap_new k) 0 = Some h" "seen \<subseteq> ?U"
      "score_heap.holds_best k (full_rank ?full ` seen) (heap_entries h)"
      "\<forall>d \<in> ?U - seen. beaten ?full k seen d"
    using wand_loop_inv [OF cat inv] th by auto
  have "score_heap.holds_best k (full_rank ?full ` ?U) (heap_entries h)"
    using h(3) topk_beaten [OF fin h(2,4)] by (simp add: score_heap.holds_best_def)
  then have "heap_sorted h = take k (sort_key (\<lambda>(i, s). (- s, i)) (scan_scores idx query))"
    using fin scan_scores_facts(2) scan_scores_rank
    by (intro heap_sorted_best [where S = "full_rank ?full ` ?U"]) (auto simp: distinct_map)
  then show ?thesis using h(1) by (simp add: run_wand_def)
qed

lemma distinct_map_sort: "distinct (map f (sort_key g xs)) = distinct (map f xs)"
  by (rule mset_eq_imp_distinct_iff) simp

text \<open>The same condition on the posting lists before \<open>new\<close> sorts them.\<close>

lemma query_ok_new:
  assumes "\<forall>(t, w) \<in> set query. \<forall>posts. postings t = Some posts \<longrightarrow> list_ok w posts"
  shows "query_ok (inverted_index_new postings n) query"
  using assms
proof (induction query)
  case (Cons q query)
  have "list_ok w (sort_key post_item posts) = list_ok w posts" for w posts
    by (simp add: list_ok_def distinct_map_sort)
  then show ?case using Cons
    by (cases q) (auto simp: query_ok_def inverted_index_new_def Let_def split: option.split)
qed (simp add: query_ok_def)

lemma build_cursors_none: "index_ok idx \<Longrightarrow> query_ok idx query \<Longrightarrow> build_cursors idx query = [] \<Longrightarrow>
    scan_scores idx query = []"
  using build_cursors_facts(2) [of idx query] scan_scores_facts(1) [of idx query]
  by (simp add: items_ahead_def)

lemma top_k_wand_exact:
  assumes "index_ok idx" "query_ok idx query"
  shows "top_k surface idx query k Wand = Some (exhaustive_scan surface idx query k)"
  using run_wand_exact [OF assms, of k] build_cursors_none [OF assms]
  by (auto simp: top_k_def exhaustive_scan_def Let_def)

section \<open>Both algorithms return items of the query\<close>

text \<open>The heap has room or an entry to replace, and holds items of \<open>U\<close> only.\<close>

definition heap_fits :: "string set \<Rightarrow> top_k_heap \<Rightarrow> bool" where
  "heap_fits U h \<longleftrightarrow> 0 < heap_capacity h \<and> length (heap_entries h) \<le> heap_capacity h
     \<and> fst ` set (heap_entries h) \<subseteq> U"

lemma mset_sift_up_by [simp]: "i < length es \<Longrightarrow> mset (sift_up_by w es i) = mset es"
proof (induction w es i rule: sift_up_by.induct)
  case (1 w es i)
  then show ?case by (subst sift_up_by.simps) (auto simp: Let_def)
qed

lemma mset_sift_down_by [simp]: "i < length es \<Longrightarrow> mset (sift_down_by w es i) = mset es"
proof (induction w es i rule: sift_down_by.induct)
  case (1 w es i)
  have "sift_top_by w es i < length es"
    using "1.prems" by (auto simp: sift_top_by_def Let_def)
  then show ?case using "1" by (subst sift_down_by.simps) (auto simp: Let_def)
qed

lemma heap_offer_fits:
  assumes "heap_fits U h" "item \<in> U"
  shows "\<exists>h' th'. heap_offer h item s th = Some (h', th') \<and> heap_fits U h' \<and> heap_capacity h' = heap_capacity h"
proof (cases "length (heap_entries h) < heap_capacity h")
  case True
  let ?es = "sift_up_by is_weaker (heap_entries h @ [(item, s)]) (length (heap_entries h))"
  have "mset ?es = mset (heap_entries h @ [(item, s)])" by simp
  then have "set ?es = set (heap_entries h @ [(item, s)])" "length ?es = Suc (length (heap_entries h))"
    by (metis set_mset_mset, metis length_append_singleton size_mset)
  then show ?thesis using True assms by (auto simp: heap_offer_def heap_fits_def Let_def)
next
  case False
  then obtain w ws where es: "heap_entries h = w # ws"
    using assms(1) by (cases "heap_entries h") (auto simp: heap_fits_def)
  let ?es = "sift_down_by is_weaker ((item, s) # ws) 0"
  have "mset ?es = mset ((item, s) # ws)" by simp
  then have "set ?es = set ((item, s) # ws)" "length ?es = Suc (length ws)"
    by (metis set_mset_mset, metis length_Cons size_mset)
  then show ?thesis using False assms es by (auto simp: heap_offer_def heap_fits_def Let_def)
qed

lemma items_ahead_aligned: "items_ahead (snd (score_aligned pid cs)) \<subseteq> items_ahead cs"
  using set_tl_subset by (fastforce simp: items_ahead_def score_aligned_map ahead_advance split: if_splits)

lemma items_ahead_seek: "p < length cs \<Longrightarrow> items_ahead (cs[p := seek t (cs ! p)]) \<subseteq> items_ahead cs"
  using set_update_subset_insert [of cs p "seek t (cs ! p)"]
  by (fastforce simp: items_ahead_def ahead_seek dest: set_dropWhileD)

lemma pivot_ahead: "find_pivot (line_up cs) th = Some (n, pid) \<Longrightarrow> pid \<in> items_ahead cs"
proof -
  assume "find_pivot (line_up cs) th = Some (n, pid)"
  then have n: "n < length (line_up cs)" "current_id (line_up cs ! n) = Some pid"
    using find_pivot_Some by auto
  then obtain p ps where "ahead (line_up cs ! n) = p # ps" "post_item p = pid"
    by (auto simp: current_id_ahead split: list.splits)
  then have "pid \<in> post_item ` set (ahead (line_up cs ! n))" by simp
  then have "pid \<in> items_ahead (line_up cs)" using nth_mem [OF n(1)] unfolding items_ahead_def by blast
  then show ?thesis by (simp add: items_ahead_line_up)
qed

lemma wand_loop_fits:
  "heap_fits U h \<Longrightarrow> items_ahead cs \<subseteq> U \<Longrightarrow> \<exists>h'. wand_loop cs h th = Some h' \<and> heap_fits U h' \<and> heap_capacity h' = heap_capacity h"
proof (induction "left cs" arbitrary: cs h th rule: less_induct)
  case less
  let ?cs = "line_up cs"
  have U: "items_ahead ?cs \<subseteq> U" using less.prems(2) by (simp add: items_ahead_line_up)
  consider (stop) "?cs = [] \<or> find_pivot ?cs th = None"
    | (score) n pid where "?cs \<noteq> []" "find_pivot ?cs th = Some (n, pid)" "current_id (?cs ! 0) = Some pid"
    | (move) n pid where "?cs \<noteq> []" "find_pivot ?cs th = Some (n, pid)" "current_id (?cs ! 0) \<noteq> Some pid"
    by (cases "find_pivot ?cs th") auto
  then show ?case
  proof cases
    case stop
    then show ?thesis using less.prems by (subst wand_loop.simps) (auto simp: Let_def)
  next
    case score
    obtain h' th' where h': "heap_offer h pid (fst (score_aligned pid ?cs)) th = Some (h', th')"
        "heap_fits U h'" "heap_capacity h' = heap_capacity h" using heap_offer_fits [OF less.prems(1)] less.prems(2) pivot_ahead [OF score(2)] by blast
    have "items_ahead (snd (score_aligned pid ?cs)) \<subseteq> U" using items_ahead_aligned U by blast
    note next_turn = less.hyps [OF aligned_left [OF score(1,3)] h'(2) this, of th']
    have "wand_loop cs h th = wand_loop (snd (score_aligned pid ?cs)) h' th'"
      using score h'(1) by (subst wand_loop.simps) (simp add: Let_def)
    then show ?thesis using next_turn h'(3) by simp
  next
    case move
    let ?p = "choose_advance ?cs n pid"
    have "wand_loop cs h th = wand_loop (?cs[?p := seek pid (?cs ! ?p)]) h th"
      using move by (subst wand_loop.simps) (simp add: Let_def)
    moreover have "items_ahead (?cs[?p := seek pid (?cs ! ?p)]) \<subseteq> U"
      using items_ahead_seek choose_advance_cases [OF move(2)] U by blast
    ultimately show ?thesis using less.hyps [OF seek_pick_left [OF move(2,3)] less.prems(1), of th] by simp
  qed
qed

lemma bmw_loop_fits:
  "heap_fits U h \<Longrightarrow> items_ahead cs \<subseteq> U \<Longrightarrow> \<exists>h'. bmw_loop cs h th = Some h' \<and> heap_fits U h' \<and> heap_capacity h' = heap_capacity h"
proof (induction "left cs" arbitrary: cs h th rule: less_induct)
  case less
  let ?cs = "line_up cs"
  have U: "items_ahead ?cs \<subseteq> U" using less.prems(2) by (simp add: items_ahead_line_up)
  consider (stop) "?cs = [] \<or> find_pivot ?cs th = None"
    | (prune) n pid where "?cs \<noteq> []" "find_pivot ?cs th = Some (n, pid)" "compute_block_ub ?cs n pid \<le> th"
    | (score) n pid where "?cs \<noteq> []" "find_pivot ?cs th = Some (n, pid)" "current_id (?cs ! 0) = Some pid"
        "\<not> compute_block_ub ?cs n pid \<le> th"
    | (move) n pid where "?cs \<noteq> []" "find_pivot ?cs th = Some (n, pid)" "current_id (?cs ! 0) \<noteq> Some pid"
        "\<not> compute_block_ub ?cs n pid \<le> th"
    by (metis not_None_eq prod.exhaust)
  then show ?case
  proof cases
    case stop
    then show ?thesis using less.prems by (subst bmw_loop.simps) (auto simp: Let_def)
  next
    case prune
    let ?p = "choose_advance ?cs n pid"
    have "bmw_loop cs h th = bmw_loop (?cs[?p := seek (next_block_target ?cs n pid) (?cs ! ?p)]) h th"
      using prune by (subst bmw_loop.simps) (simp add: Let_def)
    moreover have "items_ahead (?cs[?p := seek (next_block_target ?cs n pid) (?cs ! ?p)]) \<subseteq> U"
      using items_ahead_seek choose_advance_cases [OF prune(2)] U by blast
    ultimately show ?thesis using less.hyps [OF seek_block_left [OF prune(2)] less.prems(1), of th] by simp
  next
    case score
    obtain h' th' where h': "heap_offer h pid (fst (score_aligned pid ?cs)) th = Some (h', th')"
        "heap_fits U h'" "heap_capacity h' = heap_capacity h" using heap_offer_fits [OF less.prems(1)] less.prems(2) pivot_ahead [OF score(2)] by blast
    have "items_ahead (snd (score_aligned pid ?cs)) \<subseteq> U" using items_ahead_aligned U by blast
    note next_turn = less.hyps [OF aligned_left [OF score(1,3)] h'(2) this, of th']
    have "bmw_loop cs h th = bmw_loop (snd (score_aligned pid ?cs)) h' th'"
      using score h'(1) by (subst bmw_loop.simps) (simp add: Let_def)
    then show ?thesis using next_turn h'(3) by simp
  next
    case move
    let ?p = "choose_advance ?cs n pid"
    have "bmw_loop cs h th = bmw_loop (?cs[?p := seek pid (?cs ! ?p)]) h th"
      using move by (subst bmw_loop.simps) (simp add: Let_def)
    moreover have "items_ahead (?cs[?p := seek pid (?cs ! ?p)]) \<subseteq> U"
      using items_ahead_seek choose_advance_cases [OF move(2)] U by blast
    ultimately show ?thesis using less.hyps [OF seek_pick_left [OF move(2,3)] less.prems(1), of th] by simp
  qed
qed

lemma items_ahead_cursors: "items_ahead (build_cursors idx query) = query_items idx query"
  by (induction idx query rule: build_cursors.induct)
     (auto simp: items_ahead_def query_items_def ahead_def split: option.splits)

lemma top_k_returns:
  "\<exists>hits. top_k surface idx query k alg = Some hits \<and> length hits \<le> k \<and> fst ` set hits \<subseteq> query_items idx query"
proof (cases "k = 0 \<or> query = [] \<or> build_cursors idx query = []")
  case True
  then show ?thesis by (auto simp: top_k_def Let_def)
next
  case False
  let ?cs = "build_cursors idx query" and ?U = "query_items idx query"
  have start: "heap_fits ?U (top_k_heap_new k)" "items_ahead ?cs \<subseteq> ?U"
    using False by (simp_all add: heap_fits_def top_k_heap_new_def items_ahead_cursors)
  have sorted: "length (heap_sorted h) \<le> k \<and> fst ` set (heap_sorted h) \<subseteq> ?U"
    if "heap_fits ?U h" "heap_capacity h = k" for h
    using that by (simp add: heap_sorted_def heap_fits_def)
  have "\<exists>hs. run_wand ?cs k = Some hs \<and> length hs \<le> k \<and> fst ` set hs \<subseteq> ?U"
    using wand_loop_fits [OF start, of 0] sorted by (auto simp: run_wand_def top_k_heap_new_def)
  moreover have "\<exists>hs. run_bmw ?cs k = Some hs \<and> length hs \<le> k \<and> fst ` set hs \<subseteq> ?U"
    using bmw_loop_fits [OF start, of 0] sorted by (auto simp: run_bmw_def top_k_heap_new_def)
  ultimately have "\<exists>hs. (case alg of Wand \<Rightarrow> run_wand ?cs k | BlockMaxWand \<Rightarrow> run_bmw ?cs k) = Some hs
      \<and> length hs \<le> k \<and> fst ` set hs \<subseteq> ?U"
    by (cases alg) simp_all
  then obtain hs where hs: "(case alg of Wand \<Rightarrow> run_wand ?cs k | BlockMaxWand \<Rightarrow> run_bmw ?cs k) = Some hs"
      "length hs \<le> k" "fst ` set hs \<subseteq> ?U" by blast
  have "fst ` set (map (\<lambda>(i, s). (i, surface s)) hs) = fst ` set hs" by force
  then show ?thesis using False hs by (simp add: top_k_def Let_def)
qed

end
