(* ===== verification/Bm25_Index.thy ===== *)
theory Bm25_Index
  imports Sparse_Exact "HOL-Library.AList"
begin

text \<open>
  BM25 over the sparse lane: the weighting of \<open>engine/bm25_weighting.rs\<close> and the in-memory index of
  \<open>bm25_index.rs\<close> with its lazily built, cached inverted index. Hash maps are association lists, so
  any iteration order is covered. The \<open>f64\<close> formula with its quantisation is the argument
  \<open>bm25\<close>, a function of the number of documents, their total length, the document frequency, the
  term frequency and the document length; the tokenizer and the text form of an identifier are
  arguments too.
\<close>

section \<open>Weighting\<close>

type_synonym doc_freqs = "(string \<times> nat) list"
type_synonym term_freq_table = "(string \<times> doc_freqs) list"
type_synonym bm25_weight = "nat \<Rightarrow> nat \<Rightarrow> nat \<Rightarrow> nat \<Rightarrow> nat \<Rightarrow> i32"

text \<open>\<open>idx as u32\<close> wraps around.\<close>

definition build_term_id_map :: "term_freq_table \<Rightarrow> string \<rightharpoonup> u32" where
  "build_term_id_map tfs =
     (let terms = sort (map fst tfs) in map_of (zip terms (map word_of_nat [0..<length terms])))"

definition term_postings :: "bm25_weight \<Rightarrow> (string \<times> nat) list \<Rightarrow> doc_freqs \<Rightarrow> impact_posting list" where
  "term_postings bm25 doc_lengths doc_tfs =
     map (\<lambda>(item, tf).
            \<lparr>post_item = item,
             impact = bm25 (length doc_lengths) (\<Sum>(_, l)\<leftarrow>doc_lengths. l) (length doc_tfs) tf
               (case map_of doc_lengths item of Some dl \<Rightarrow> dl | None \<Rightarrow> 0)\<rparr>) doc_tfs"

definition bm25_build :: "bm25_weight \<Rightarrow> term_freq_table \<Rightarrow> (string \<times> nat) list
    \<Rightarrow> inverted_index \<times> (string \<rightharpoonup> u32)" where
  "bm25_build bm25 term_freqs doc_lengths =
     (if doc_lengths = [] then (inverted_index_new Map.empty 0, Map.empty)
      else
        let mapping = build_term_id_map term_freqs;
            postings = fold (\<lambda>(term, doc_tfs) m.
                case mapping term of
                  None \<Rightarrow> m
                | Some t \<Rightarrow> m(t \<mapsto> term_postings bm25 doc_lengths doc_tfs)) term_freqs Map.empty
        in (inverted_index_new postings (length doc_lengths), mapping))"

fun query_pairs_from :: "u32 list \<Rightarrow> (string \<rightharpoonup> u32) \<Rightarrow> string list \<Rightarrow> (u32 \<times> i32) list" where
  "query_pairs_from seen mapping [] = []"
| "query_pairs_from seen mapping (term # terms) =
     (case mapping term of
        None \<Rightarrow> query_pairs_from seen mapping terms
      | Some t \<Rightarrow>
          if t \<in> set seen then query_pairs_from seen mapping terms
          else (t, QUANT_SCALE) # query_pairs_from (t # seen) mapping terms)"

definition query_pairs :: "string list \<Rightarrow> (string \<rightharpoonup> u32) \<Rightarrow> (u32 \<times> i32) list" where
  "query_pairs query_terms mapping = query_pairs_from [] mapping query_terms"

section \<open>The in-memory index\<close>

record bm25_index =
  term_freqs :: term_freq_table
  doc_lengths :: "(string \<times> nat) list"
  cached :: "(inverted_index \<times> (string \<rightharpoonup> u32)) option"

definition bm25_new :: bm25_index where
  "bm25_new = \<lparr>term_freqs = [], doc_lengths = [], cached = None\<rparr>"

text \<open>\<open>entry(t).or_insert(0) += 1\<close> for every token.\<close>

definition count_tokens :: "string list \<Rightarrow> doc_freqs" where
  "count_tokens tokens = fold (\<lambda>t tf. AList.map_default t 1 Suc tf) tokens []"

definition remove_term_item :: "string \<Rightarrow> string \<Rightarrow> term_freq_table \<Rightarrow> term_freq_table" where
  "remove_term_item item term tfs =
     (case map_of tfs term of
        None \<Rightarrow> tfs
      | Some docs \<Rightarrow>
          let docs' = AList.delete item docs
          in if docs' = [] then AList.delete term tfs else AList.update term docs' tfs)"

definition remove_mem :: "string \<Rightarrow> bm25_index \<Rightarrow> bm25_index" where
  "remove_mem item ix =
     ix\<lparr>doc_lengths := AList.delete item (doc_lengths ix),
        term_freqs := fold (remove_term_item item) (map fst (term_freqs ix)) (term_freqs ix)\<rparr>"

definition insert_freqs :: "string \<Rightarrow> doc_freqs \<Rightarrow> term_freq_table \<Rightarrow> term_freq_table" where
  "insert_freqs item tf tfs =
     fold (\<lambda>(term, freq). AList.map_default term [(item, freq)] (AList.update item freq)) tf tfs"

definition index_document :: "(string \<Rightarrow> string list) \<Rightarrow> string \<times> string \<Rightarrow> bm25_index \<Rightarrow> bm25_index" where
  "index_document keyword_tokens = (\<lambda>(item, text) ix.
     let ix = remove_mem item ix;
         tokens = keyword_tokens text;
         ix = ix\<lparr>doc_lengths := AList.update item (length tokens) (doc_lengths ix)\<rparr>
     in ix\<lparr>term_freqs := insert_freqs item (count_tokens tokens) (term_freqs ix)\<rparr>)"

definition index_documents :: "(string \<Rightarrow> string list) \<Rightarrow> (string \<times> string) list \<Rightarrow> bm25_index \<Rightarrow> bm25_index" where
  "index_documents keyword_tokens documents ix =
     (fold (index_document keyword_tokens) documents ix)\<lparr>cached := None\<rparr>"

definition bm25_remove :: "string \<Rightarrow> bm25_index \<Rightarrow> bm25_index" where
  "bm25_remove item ix = (remove_mem item ix)\<lparr>cached := None\<rparr>"

definition document_count :: "bm25_index \<Rightarrow> nat" where
  "document_count ix = length (doc_lengths ix)"

text \<open>
  \<open>top_k\<close> with the state it leaves, which differs in the cache only. \<open>parse\<close> is
  \<open>Uuid::parse_str(..).ok()\<close>.
\<close>

definition bm25_top_k :: "bm25_weight \<Rightarrow> (int \<Rightarrow> 'f) \<Rightarrow> (string \<Rightarrow> 'u option) \<Rightarrow> nat \<Rightarrow> string list
    \<Rightarrow> bm25_index \<Rightarrow> (('u \<times> 'f) list \<times> bm25_index) option" where
  "bm25_top_k bm25 surface parse k tokens ix =
     (if k = 0 \<or> tokens = [] \<or> doc_lengths ix = [] then Some ([], ix)
      else
        let ix = (if cached ix = None then ix\<lparr>cached := Some (bm25_build bm25 (term_freqs ix) (doc_lengths ix))\<rparr>
                  else ix)
        in case cached ix of
             None \<Rightarrow> None
           | Some (index, mapping) \<Rightarrow>
               let query = query_pairs tokens mapping
               in if query = [] then Some ([], ix)
                  else (case top_k surface index query k BlockMaxWand of
                          None \<Rightarrow> None
                        | Some hits \<Rightarrow>
                            Some (List.map_filter (\<lambda>(item, s). map_option (\<lambda>u. (u, s)) (parse item)) hits, ix)))"

section \<open>The tables\<close>

definition drop_item :: "string \<Rightarrow> doc_freqs \<Rightarrow> doc_freqs option" where
  "drop_item item docs = (let docs' = AList.delete item docs in if docs' = [] then None else Some docs')"

lemma drop_item_idem: "Option.bind (drop_item item docs) (drop_item item) = drop_item item docs"
  by (auto simp: drop_item_def Let_def AList.delete_idem)

lemma remove_term_item_of:
  "map_of (remove_term_item item term tfs)
    = (map_of tfs)(term := Option.bind (map_of tfs term) (drop_item item))"
  by (auto simp: remove_term_item_def drop_item_def Let_def AList.delete_conv' AList.update_conv' split: option.split)

lemma remove_term_item_distinct:
  "distinct (map fst tfs) \<Longrightarrow> distinct (map fst (remove_term_item item term tfs))"
  by (auto simp: remove_term_item_def Let_def AList.distinct_delete AList.distinct_update split: option.split)

lemma remove_terms_of:
  "map_of (fold (remove_term_item item) ts tfs) t
    = (if t \<in> set ts then Option.bind (map_of tfs t) (drop_item item) else map_of tfs t)"
  by (induction ts arbitrary: tfs) (auto simp: remove_term_item_of drop_item_idem)

lemma remove_terms_distinct:
  "distinct (map fst tfs) \<Longrightarrow> distinct (map fst (fold (remove_term_item item) ts tfs))"
  by (induction ts arbitrary: tfs) (simp_all add: remove_term_item_distinct)

text \<open>Keys are unique, and a document of a posting list has a length.\<close>

definition freqs_ok :: "term_freq_table \<Rightarrow> bool" where
  "freqs_ok tfs \<longleftrightarrow> distinct (map fst tfs) \<and> (\<forall>t docs. map_of tfs t = Some docs \<longrightarrow> distinct (map fst docs))"

definition tables_ok :: "term_freq_table \<Rightarrow> (string \<times> nat) list \<Rightarrow> bool" where
  "tables_ok tfs lens \<longleftrightarrow> distinct (map fst tfs) \<and> distinct (map fst lens)
     \<and> (\<forall>t docs. map_of tfs t = Some docs \<longrightarrow> distinct (map fst docs) \<and> fst ` set docs \<subseteq> fst ` set lens)"

lemma tables_ok_freqs: "tables_ok tfs lens \<Longrightarrow> freqs_ok tfs"
  by (simp add: tables_ok_def freqs_ok_def)

lemma tables_ok_remove:
  assumes "tables_ok (term_freqs ix) (doc_lengths ix)"
  shows "tables_ok (term_freqs (remove_mem item ix)) (doc_lengths (remove_mem item ix))"
    and "doc_lengths (remove_mem item ix) = AList.delete item (doc_lengths ix)"
proof -
  have keys: "fst ` set (AList.delete item al) = fst ` set al - {item}" for al :: "(string \<times> nat) list"
    by (metis AList.delete_keys list.set_map set_removeAll)
  have "distinct (map fst docs') \<and> fst ` set docs' \<subseteq> fst ` set (AList.delete item (doc_lengths ix))"
    if removed: "map_of (term_freqs (remove_mem item ix)) t = Some docs'" for t docs'
  proof -
    have r: "map_of (term_freqs (remove_mem item ix)) t
        = (if t \<in> fst ` set (term_freqs ix) then Option.bind (map_of (term_freqs ix) t) (drop_item item)
           else map_of (term_freqs ix) t)"
      by (simp add: remove_mem_def remove_terms_of)
    obtain docs where docs: "map_of (term_freqs ix) t = Some docs" "docs' = AList.delete item docs"
    proof (cases "map_of (term_freqs ix) t")
      case None
      then show thesis using r removed by (auto split: if_splits)
    next
      case (Some docs)
      then have "t \<in> fst ` set (term_freqs ix)" by (metis domI dom_map_of_conv_image_fst)
      then have "drop_item item docs = Some docs'" using r removed Some by simp
      then show thesis using that Some by (simp add: drop_item_def Let_def split: if_splits)
    qed
    then have "distinct (map fst docs)" "fst ` set docs \<subseteq> fst ` set (doc_lengths ix)"
      using assms by (auto simp: tables_ok_def)
    then show ?thesis using docs(2) keys by (auto simp: AList.distinct_delete)
  qed
  then show "tables_ok (term_freqs (remove_mem item ix)) (doc_lengths (remove_mem item ix))"
    using assms by (simp add: tables_ok_def remove_mem_def remove_terms_distinct AList.distinct_delete)
qed (simp add: remove_mem_def)

lemma tables_ok_insert:
  assumes "tables_ok tfs lens" "item \<in> fst ` set lens"
  shows "tables_ok (insert_freqs item tf tfs) lens"
  using assms(1) unfolding insert_freqs_def
proof (induction tf arbitrary: tfs)
  case (Cons e tf)
  obtain t freq where e: "e = (t, freq)" by force
  let ?tfs = "AList.map_default t [(item, freq)] (AList.update item freq) tfs"
  have "distinct (map fst docs') \<and> fst ` set docs' \<subseteq> fst ` set lens" if inserted: "map_of ?tfs t' = Some docs'" for t' docs'
  proof (cases "t' = t \<and> map_of tfs t \<noteq> None")
    case True
    then obtain docs where "map_of tfs t = Some docs" "docs' = AList.update item freq docs"
      using inserted by (auto simp: AList.map_of_map_default)
    moreover from this have "distinct (map fst docs)" "fst ` set docs \<subseteq> fst ` set lens"
      using Cons.prems unfolding tables_ok_def by blast+
    ultimately show ?thesis using assms(2) by (simp add: AList.distinct_update AList.dom_update)
  next
    case False
    then have "docs' = [(item, freq)] \<or> map_of tfs t' = Some docs'"
      using inserted by (auto simp: AList.map_of_map_default split: if_splits)
    then show ?thesis
    proof
      assume "docs' = [(item, freq)]"
      then show ?thesis using assms(2) by simp
    qed (use Cons.prems in \<open>unfold tables_ok_def, blast\<close>)
  qed
  then have "tables_ok ?tfs lens"
    using Cons.prems unfolding tables_ok_def by (blast intro: AList.distinct_map_default)
  then show ?case using Cons.IH e by simp
qed simp

lemma tables_ok_index:
  assumes "tables_ok (term_freqs ix) (doc_lengths ix)"
  shows "tables_ok (term_freqs (index_document toks d ix)) (doc_lengths (index_document toks d ix))"
proof -
  obtain item body where d: "d = (item, body)" by force
  let ?ix = "remove_mem item ix"
  have "tables_ok (term_freqs ?ix) (doc_lengths ?ix)" by (rule tables_ok_remove(1) [OF assms])
  then have "tables_ok (term_freqs ?ix) (AList.update item n (doc_lengths ?ix))" for n
    unfolding tables_ok_def AList.dom_update by (blast intro: AList.distinct_update)
  moreover have "item \<in> fst ` set (AList.update item n lens)" for n and lens :: "(string \<times> nat) list"
    by (simp add: AList.dom_update)
  ultimately show ?thesis
    using d by (simp add: index_document_def Let_def tables_ok_insert)
qed

lemma tables_ok_index_all:
  assumes "tables_ok (term_freqs ix) (doc_lengths ix)"
  shows "tables_ok (term_freqs (index_documents toks ds ix)) (doc_lengths (index_documents toks ds ix))"
  using assms unfolding index_documents_def
  by (induction ds arbitrary: ix) (simp_all add: tables_ok_index)

section \<open>The built index\<close>

lemma query_lists_in:
  "(w, posts) \<in> set (query_lists idx query) \<Longrightarrow> \<exists>t. (t, w) \<in> set query \<and> sorted_postings idx t = Some posts"
  by (induction idx query rule: query_lists.induct) (auto split: option.splits)

lemma build_postings:
  assumes "fold (\<lambda>(term, doc_tfs) m. case mapping term of None \<Rightarrow> m
      | Some t \<Rightarrow> m(t \<mapsto> term_postings bm25 lens doc_tfs)) tfs m t = Some posts"
  shows "m t = Some posts \<or> (\<exists>(term, docs) \<in> set tfs. posts = term_postings bm25 lens docs)"
  using assms
proof (induction tfs arbitrary: m)
  case (Cons e tfs)
  obtain trm docs where e: "e = (trm, docs)" by force
  show ?case using Cons.IH Cons.prems e by (fastforce split: option.splits if_splits)
qed simp

lemma build_sorted_postings:
  assumes "sorted_postings (fst (bm25_build bm25 tfs lens)) t = Some posts"
  shows "\<exists>(term, docs) \<in> set tfs. posts = sort_key post_item (term_postings bm25 lens docs)"
proof (cases "lens = []")
  case True
  then show ?thesis using assms by (simp add: bm25_build_def inverted_index_new_def)
next
  case False
  then obtain ps where "posts = sort_key post_item ps"
      "fold (\<lambda>(term, doc_tfs) m. case build_term_id_map tfs term of None \<Rightarrow> m
        | Some t \<Rightarrow> m(t \<mapsto> term_postings bm25 lens doc_tfs)) tfs Map.empty t = Some ps"
    using assms by (auto simp: bm25_build_def inverted_index_new_def Let_def)
  then show ?thesis using build_postings by fastforce
qed

lemma term_postings_items: "map post_item (term_postings bm25 lens docs) = map fst docs"
  by (simp add: term_postings_def split_def)

lemma build_query_items:
  assumes "d \<in> query_items (fst (bm25_build bm25 tfs lens)) query"
  shows "\<exists>(trm, docs) \<in> set tfs. d \<in> fst ` set docs"
proof -
  obtain w posts where wp: "(w, posts) \<in> set (query_lists (fst (bm25_build bm25 tfs lens)) query)"
      "d \<in> post_item ` set posts" using assms by (auto simp: query_items_def)
  then obtain t where "sorted_postings (fst (bm25_build bm25 tfs lens)) t = Some posts"
    using query_lists_in by blast
  then obtain trm docs where td: "(trm, docs) \<in> set tfs" "posts = sort_key post_item (term_postings bm25 lens docs)"
    using build_sorted_postings by blast
  moreover have "d \<in> fst ` set docs" using wp(2) td(2) term_postings_items by (metis list.set_map set_sort)
  ultimately show ?thesis by blast
qed

lemma tables_ok_items:
  assumes "tables_ok tfs lens"
  shows "query_items (fst (bm25_build bm25 tfs lens)) query \<subseteq> fst ` set lens"
proof
  fix d assume "d \<in> query_items (fst (bm25_build bm25 tfs lens)) query"
  then obtain trm docs where td: "(trm, docs) \<in> set tfs" "d \<in> fst ` set docs" using build_query_items by blast
  then have "map_of tfs trm = Some docs" using assms by (simp add: tables_ok_def)
  then show "d \<in> fst ` set lens" using assms td(2) unfolding tables_ok_def by blast
qed

lemma build_index_ok: "index_ok (fst (bm25_build bm25 tfs lens))"
  by (simp add: bm25_build_def Let_def index_ok_new)

lemma query_pairs_weight: "(t, w) \<in> set (query_pairs_from seen mapping terms) \<Longrightarrow> w = QUANT_SCALE"
  by (induction seen mapping terms rule: query_pairs_from.induct) (auto split: option.splits if_splits)

text \<open>Impacts that are positive and fit \<open>i32\<close> after the query weight.\<close>

definition impacts_ok :: "inverted_index \<Rightarrow> bool" where
  "impacts_ok idx \<longleftrightarrow> (\<forall>t posts. sorted_postings idx t = Some posts \<longrightarrow>
     (\<forall>p \<in> set posts. 0 < sint (impact p) \<and> sint (impact p) \<le> 21474836))"

lemma build_query_ok:
  assumes "freqs_ok tfs" "impacts_ok (fst (bm25_build bm25 tfs lens))"
  shows "query_ok (fst (bm25_build bm25 tfs lens)) (query_pairs terms mapping)"
  unfolding query_ok_def
proof (clarify)
  fix w posts assume "(w, posts) \<in> set (query_lists (fst (bm25_build bm25 tfs lens)) (query_pairs terms mapping))"
  then obtain t where t: "(t, w) \<in> set (query_pairs terms mapping)"
      "sorted_postings (fst (bm25_build bm25 tfs lens)) t = Some posts"
    using query_lists_in by blast
  have w: "w = QUANT_SCALE" using t(1) query_pairs_weight by (simp add: query_pairs_def)
  obtain trm docs where td: "(trm, docs) \<in> set tfs" "posts = sort_key post_item (term_postings bm25 lens docs)"
    using build_sorted_postings [OF t(2)] by blast
  have "distinct (map fst docs)" using assms(1) td(1) by (auto simp: freqs_ok_def)
  then have "distinct (map post_item posts)"
    by (simp add: td(2) distinct_map_sort term_postings_items)
  moreover have "0 < sint (impact p) \<and> sint (impact p) \<le> 21474836" if "p \<in> set posts" for p
    using that t(2) assms(2) by (simp add: impacts_ok_def)
  ultimately show "list_ok w posts" by (fastforce simp: list_ok_def w QUANT_SCALE_def)
qed

section \<open>The cache\<close>

definition bm25_index_ok :: "bm25_weight \<Rightarrow> bm25_index \<Rightarrow> bool" where
  "bm25_index_ok bm25 ix \<longleftrightarrow> tables_ok (term_freqs ix) (doc_lengths ix)
     \<and> cached ix \<in> {None, Some (bm25_build bm25 (term_freqs ix) (doc_lengths ix))}"

lemma bm25_new_ok: "bm25_index_ok bm25 bm25_new"
  by (simp add: bm25_index_ok_def bm25_new_def tables_ok_def)

lemma index_documents_ok: "bm25_index_ok bm25 ix \<Longrightarrow> bm25_index_ok bm25 (index_documents toks ds ix)"
  using tables_ok_index_all by (simp add: bm25_index_ok_def) (simp add: index_documents_def)

lemma bm25_remove_ok: "bm25_index_ok bm25 ix \<Longrightarrow> bm25_index_ok bm25 (bm25_remove item ix)"
  using tables_ok_remove(1) [of ix item] by (simp add: bm25_index_ok_def bm25_remove_def)

lemma length_map_filter: "length (List.map_filter f xs) \<le> length xs"
  by (induction xs) (auto simp: List.map_filter_simps split: option.split)

lemma parsed_hits_in:
  "(u, s) \<in> set (List.map_filter (\<lambda>(item, s). map_option (\<lambda>u. (u, s)) (parse item)) hits) \<Longrightarrow>
    \<exists>item \<in> fst ` set hits. parse item = Some u"
  by (induction hits) (auto simp: List.map_filter_simps split: option.splits)

lemma bm25_top_k_result:
  assumes "bm25_index_ok bm25 ix"
  shows "\<exists>hits ix'. bm25_top_k bm25 surface parse k tokens ix = Some (hits, ix')
    \<and> bm25_index_ok bm25 ix' \<and> term_freqs ix' = term_freqs ix \<and> doc_lengths ix' = doc_lengths ix
    \<and> map_option fst (bm25_top_k bm25 surface parse k tokens (ix\<lparr>cached := None\<rparr>)) = Some hits
    \<and> length hits \<le> k \<and> (\<forall>(u, s) \<in> set hits. \<exists>item \<in> fst ` set (doc_lengths ix). parse item = Some u)"
proof (cases "k = 0 \<or> tokens = [] \<or> doc_lengths ix = []")
  case True
  then show ?thesis using assms by (auto simp: bm25_top_k_def)
next
  case False
  let ?b = "bm25_build bm25 (term_freqs ix) (doc_lengths ix)"
  let ?ix = "ix\<lparr>cached := Some ?b\<rparr>" and ?q = "query_pairs tokens (snd ?b)"
  have ok: "bm25_index_ok bm25 ?ix" using assms by (simp add: bm25_index_ok_def)
  obtain hits where hits: "top_k surface (fst ?b) ?q k BlockMaxWand = Some hits" "length hits \<le> k"
      "fst ` set hits \<subseteq> query_items (fst ?b) ?q" using top_k_returns by blast
  define out where "out = (if ?q = [] then [] else
      List.map_filter (\<lambda>(item, s). map_option (\<lambda>u. (u, s)) (parse item)) hits)"
  have full: "bm25_top_k bm25 surface parse k tokens ?ix = Some (out, ?ix)"
    using False hits(1) by (cases ?b) (simp add: bm25_top_k_def out_def)
  have empty: "bm25_top_k bm25 surface parse k tokens (ix\<lparr>cached := None\<rparr>) = Some (out, ?ix)"
    using False hits(1) by (cases ?b) (simp add: bm25_top_k_def out_def)
  have "ix = ix\<lparr>cached := None\<rparr> \<or> ix = ?ix" using assms by (cases ix) (auto simp: bm25_index_ok_def)
  then have eval: "bm25_top_k bm25 surface parse k tokens ix = Some (out, ?ix)" using full empty by metis
  have items: "fst ` set hits \<subseteq> fst ` set (doc_lengths ix)"
    using hits(3) tables_ok_items assms unfolding bm25_index_ok_def by blast
  have parsed: "\<exists>item \<in> fst ` set (doc_lengths ix). parse item = Some u" if us: "(u, s) \<in> set out" for u s
  proof -
    obtain item where "item \<in> fst ` set hits" "parse item = Some u"
      using us parsed_hits_in [of u s parse hits] unfolding out_def by (auto split: if_splits)
    then show ?thesis using items by blast
  qed
  have "\<forall>(u, s) \<in> set out. \<exists>item \<in> fst ` set (doc_lengths ix). parse item = Some u"
    using parsed by (intro ballI) (simp only: split_paired_all prod.case)
  moreover have "length out \<le> k"
    using hits(2) by (auto simp: out_def intro: order.trans [OF length_map_filter])
  ultimately show ?thesis using ok eval empty by (intro exI [of _ out] exI [of _ ?ix]) simp
qed

section \<open>Histories\<close>

datatype bm25_op = IndexDocuments "(string \<times> string) list" | RemoveDocument string | Query nat "string list"

text \<open>A query changes the cache at most, whatever the conversions of its results.\<close>

definition bm25_step :: "bm25_weight \<Rightarrow> (string \<Rightarrow> string list) \<Rightarrow> bm25_op \<Rightarrow> bm25_index \<Rightarrow> bm25_index" where
  "bm25_step bm25 toks op ix =
     (case op of
        IndexDocuments ds \<Rightarrow> index_documents toks ds ix
      | RemoveDocument item \<Rightarrow> bm25_remove item ix
      | Query k tokens \<Rightarrow> (case bm25_top_k bm25 id Some k tokens ix of Some (_, ix') \<Rightarrow> ix' | None \<Rightarrow> ix))"

lemma bm25_step_ok: "bm25_index_ok bm25 ix \<Longrightarrow> bm25_index_ok bm25 (bm25_step bm25 toks op ix)"
proof (cases op)
  case (Query k tokens)
  assume "bm25_index_ok bm25 ix"
  from bm25_top_k_result [OF this, of id Some k tokens]
  obtain hits ix' where "bm25_top_k bm25 id Some k tokens ix = Some (hits, ix')" "bm25_index_ok bm25 ix'"
    by (elim exE conjE)
  then show ?thesis using Query by (simp add: bm25_step_def)
qed (simp_all add: bm25_step_def index_documents_ok bm25_remove_ok)

lemma bm25_history_ok: "bm25_index_ok bm25 (fold (bm25_step bm25 toks) ops bm25_new)"
proof -
  have "bm25_index_ok bm25 ix \<Longrightarrow> bm25_index_ok bm25 (fold (bm25_step bm25 toks) ops ix)" for ix
    by (induction ops arbitrary: ix) (simp_all add: bm25_step_ok)
  then show ?thesis using bm25_new_ok by blast
qed

lemma bm25_remove_lengths:
  "fst ` set (doc_lengths (bm25_remove item ix)) = fst ` set (doc_lengths ix) - {item}"
proof -
  have "map fst (doc_lengths (bm25_remove item ix)) = removeAll item (map fst (doc_lengths ix))"
    by (simp add: bm25_remove_def remove_mem_def AList.delete_keys)
  then show ?thesis by (metis list.set_map set_removeAll)
qed

end
