(* ===== verification/Index_Store.thy ===== *)
theory Index_Store
  imports Bm25_Index
begin

text \<open>
  The persistent sparse index of \<open>engine/inverted_index_store.rs\<close>: two tables in an SQLite file, a
  transaction bracket, the parameter-keyed cache of the built index, and the postings shards of a
  bulk import. The SQL text of the source is read as operations on the rows, lists with one row per
  primary key. Each statement consumes one outcome of the connection; with none left it
  succeeds. A failing query delivers some rows before it stops.
\<close>

section \<open>The connection\<close>

datatype sql_outcome = Sql_ok | Sql_fails nat

datatype sql_error = Sql_error

record sql_tables =
  tf_rows :: "((string \<times> string) \<times> nat) list"
  len_rows :: "(string \<times> nat) list"

record sql_conn =
  conn_db :: sql_tables
  conn_saved :: "sql_tables option"
  conn_outcomes :: "sql_outcome list"

type_synonym sql_result = "(sql_error + unit) \<times> sql_conn"

definition sql_next :: "sql_conn \<Rightarrow> sql_outcome \<times> sql_conn" where
  "sql_next c = (case conn_outcomes c of [] \<Rightarrow> (Sql_ok, c) | r # rs \<Rightarrow> (r, c\<lparr>conn_outcomes := rs\<rparr>))"

definition sql_then :: "sql_result \<Rightarrow> (sql_conn \<Rightarrow> sql_result) \<Rightarrow> sql_result" where
  "sql_then r g = (case r of (Inl e, c) \<Rightarrow> (Inl e, c) | (Inr _, c) \<Rightarrow> g c)"

definition execute :: "(sql_tables \<Rightarrow> sql_tables) \<Rightarrow> sql_conn \<Rightarrow> sql_result" where
  "execute f c = (case sql_next c of (Sql_fails _, c) \<Rightarrow> (Inl Sql_error, c)
     | (Sql_ok, c) \<Rightarrow> (Inr (), c\<lparr>conn_db := f (conn_db c)\<rparr>))"

text \<open>
  \<open>BEGIN IMMEDIATE\<close>, \<open>COMMIT\<close> and \<open>ROLLBACK\<close>; a transaction does not nest, and without one there is
  nothing to end.
\<close>

definition sql_begin :: "sql_conn \<Rightarrow> sql_result" where
  "sql_begin c = (case sql_next c of (Sql_fails _, c) \<Rightarrow> (Inl Sql_error, c)
     | (Sql_ok, c) \<Rightarrow> if conn_saved c \<noteq> None then (Inl Sql_error, c)
                      else (Inr (), c\<lparr>conn_saved := Some (conn_db c)\<rparr>))"

definition sql_commit :: "sql_conn \<Rightarrow> sql_result" where
  "sql_commit c = (case sql_next c of (Sql_fails _, c) \<Rightarrow> (Inl Sql_error, c)
     | (Sql_ok, c) \<Rightarrow> if conn_saved c = None then (Inl Sql_error, c)
                      else (Inr (), c\<lparr>conn_saved := None\<rparr>))"

definition sql_rollback :: "sql_conn \<Rightarrow> sql_result" where
  "sql_rollback c = (case sql_next c of (Sql_fails _, c) \<Rightarrow> (Inl Sql_error, c)
     | (Sql_ok, c) \<Rightarrow> case conn_saved c of None \<Rightarrow> (Inl Sql_error, c)
                      | Some d \<Rightarrow> (Inr (), c\<lparr>conn_db := d, conn_saved := None\<rparr>))"

section \<open>Statements\<close>

definition delete_from_db :: "string \<Rightarrow> sql_conn \<Rightarrow> sql_result" where
  "delete_from_db item c =
     sql_then (execute (\<lambda>d. d\<lparr>tf_rows := filter (\<lambda>((_, i), _). i \<noteq> item) (tf_rows d)\<rparr>) c)
       (execute (\<lambda>d. d\<lparr>len_rows := filter (\<lambda>(i, _). i \<noteq> item) (len_rows d)\<rparr>))"

text \<open>\<open>INSERT OR REPLACE\<close> replaces the row of the primary key.\<close>

definition insert_tf :: "string \<Rightarrow> string \<Rightarrow> nat \<Rightarrow> sql_conn \<Rightarrow> sql_result" where
  "insert_tf trm item freq = execute (\<lambda>d. d\<lparr>tf_rows := AList.update (trm, item) freq (tf_rows d)\<rparr>)"

definition insert_len :: "string \<Rightarrow> nat \<Rightarrow> sql_conn \<Rightarrow> sql_result" where
  "insert_len item len = execute (\<lambda>d. d\<lparr>len_rows := AList.update item len (len_rows d)\<rparr>)"

fun insert_tfs :: "string \<Rightarrow> doc_freqs \<Rightarrow> sql_conn \<Rightarrow> sql_result" where
  "insert_tfs item [] c = (Inr (), c)"
| "insert_tfs item ((trm, freq) # tf) c = sql_then (insert_tf trm item freq c) (insert_tfs item tf)"

definition write_document :: "string \<Rightarrow> string list \<Rightarrow> sql_conn \<Rightarrow> sql_result" where
  "write_document item tokens c =
     sql_then (delete_from_db item c) (\<lambda>c.
       if tokens = [] then (Inr (), c)
       else sql_then (insert_tfs item (count_tokens tokens) c) (insert_len item (length tokens)))"

section \<open>The store\<close>

record 'p iix_store =
  conn :: sql_conn
  iix_cached :: "('p \<times> inverted_index \<times> (string \<rightharpoonup> u32)) option"

definition iix_open :: "sql_conn \<Rightarrow> 'p iix_store" where
  "iix_open c = \<lparr>conn = c, iix_cached = None\<rparr>"

text \<open>A write through the connection that clears the cache when all of it succeeded.\<close>

definition writing :: "(sql_conn \<Rightarrow> sql_result) \<Rightarrow> 'p iix_store \<Rightarrow> (sql_error + unit) \<times> 'p iix_store" where
  "writing f s = (case f (conn s) of (Inl e, c) \<Rightarrow> (Inl e, s\<lparr>conn := c\<rparr>)
     | (Inr _, c) \<Rightarrow> (Inr (), s\<lparr>conn := c, iix_cached := None\<rparr>))"

text \<open>A statement that leaves the cache alone.\<close>

definition keeping :: "(sql_conn \<Rightarrow> sql_result) \<Rightarrow> 'p iix_store \<Rightarrow> (sql_error + unit) \<times> 'p iix_store" where
  "keeping f s = (case f (conn s) of (r, c) \<Rightarrow> (r, s\<lparr>conn := c\<rparr>))"

definition iix_index :: "string \<Rightarrow> string list \<Rightarrow> 'p iix_store \<Rightarrow> (sql_error + unit) \<times> 'p iix_store" where
  "iix_index item tokens = writing (write_document item tokens)"

definition iix_remove :: "string \<Rightarrow> 'p iix_store \<Rightarrow> (sql_error + unit) \<times> 'p iix_store" where
  "iix_remove item = writing (delete_from_db item)"

definition clear_all :: "'p iix_store \<Rightarrow> (sql_error + unit) \<times> 'p iix_store" where
  "clear_all = writing (\<lambda>c. sql_then (execute (\<lambda>d. d\<lparr>tf_rows := []\<rparr>) c) (execute (\<lambda>d. d\<lparr>len_rows := []\<rparr>)))"

definition begin_batch :: "'p iix_store \<Rightarrow> (sql_error + unit) \<times> 'p iix_store" where
  "begin_batch = keeping sql_begin"

definition commit_batch :: "'p iix_store \<Rightarrow> (sql_error + unit) \<times> 'p iix_store" where
  "commit_batch = keeping sql_commit"

definition rollback_batch :: "'p iix_store \<Rightarrow> (sql_error + unit) \<times> 'p iix_store" where
  "rollback_batch = keeping (\<lambda>c. (Inr (), snd (sql_rollback c)))"

text \<open>
  \<open>ATTACH\<close>, the copy of both tables in one transaction in key order, and \<open>DETACH\<close>, whose result is
  ignored. \<open>ATTACH\<close> cannot run inside a transaction.
\<close>

definition copy_shard :: "sql_tables \<Rightarrow> sql_conn \<Rightarrow> sql_result" where
  "copy_shard shard c =
     sql_then
       (execute (\<lambda>d. d\<lparr>tf_rows := fold (\<lambda>(k, v). AList.update k v) (sort_key fst (tf_rows shard)) (tf_rows d)\<rparr>) c)
       (execute (\<lambda>d. d\<lparr>len_rows := fold (\<lambda>(k, v). AList.update k v) (sort_key fst (len_rows shard)) (len_rows d)\<rparr>))"

definition in_transaction :: "(sql_conn \<Rightarrow> sql_result) \<Rightarrow> sql_conn \<Rightarrow> sql_result" where
  "in_transaction body c = sql_then (sql_begin c) (\<lambda>c.
     case body c of (Inr _, c) \<Rightarrow> sql_commit c | (Inl e, c) \<Rightarrow> (Inl e, snd (sql_rollback c)))"

definition merge_rows :: "sql_tables \<Rightarrow> sql_conn \<Rightarrow> sql_result" where
  "merge_rows shard c =
     (case sql_next c of
        (Sql_fails _, c) \<Rightarrow> (Inl Sql_error, c)
      | (Sql_ok, c) \<Rightarrow>
          if conn_saved c \<noteq> None then (Inl Sql_error, c)
          else let (r, c) = in_transaction (copy_shard shard) c in (r, snd (sql_next c)))"

definition merge_shard :: "sql_tables \<Rightarrow> 'p iix_store \<Rightarrow> (sql_error + unit) \<times> 'p iix_store" where
  "merge_shard shard = keeping (merge_rows shard)"

definition fold_postings :: "'p iix_store \<Rightarrow> (sql_error + unit) \<times> 'p iix_store" where
  "fold_postings s = (Inr (), s\<lparr>iix_cached := None\<rparr>)"

text \<open>
  \<open>load_state\<close> fills the tables it is given row by row, so that an error leaves what was read before
  it; both callers ignore the error.
\<close>

definition load_tf :: "((string \<times> string) \<times> nat) list \<Rightarrow> term_freq_table" where
  "load_tf rows = fold (\<lambda>((trm, item), freq). AList.map_default trm [(item, freq)] (AList.update item freq)) rows []"

definition load_lens :: "(string \<times> nat) list \<Rightarrow> (string \<times> nat) list" where
  "load_lens rows = fold (\<lambda>(item, len). AList.update item len) rows []"

definition load_state :: "sql_conn \<Rightarrow> (term_freq_table \<times> (string \<times> nat) list) \<times> sql_conn" where
  "load_state c =
     (case sql_next c of
        (Sql_fails n, c) \<Rightarrow> ((load_tf (take n (tf_rows (conn_db c))), []), c)
      | (Sql_ok, c) \<Rightarrow>
          (case sql_next c of
             (Sql_fails n, c) \<Rightarrow> ((load_tf (tf_rows (conn_db c)), load_lens (take n (len_rows (conn_db c)))), c)
           | (Sql_ok, c) \<Rightarrow> ((load_tf (tf_rows (conn_db c)), load_lens (len_rows (conn_db c))), c)))"

definition build_index :: "('p \<Rightarrow> bm25_weight) \<Rightarrow> 'p \<Rightarrow> 'p iix_store
    \<Rightarrow> (inverted_index \<times> (string \<rightharpoonup> u32)) \<times> 'p iix_store" where
  "build_index bm25 params s =
     (let ((tfs, lens), c) = load_state (conn s) in (bm25_build (bm25 params) tfs lens, s\<lparr>conn := c\<rparr>))"

definition refresh :: "('p \<Rightarrow> bm25_weight) \<Rightarrow> 'p \<Rightarrow> 'p iix_store \<Rightarrow> 'p iix_store" where
  "refresh bm25 params s =
     (if (case iix_cached s of Some (p, _) \<Rightarrow> p \<noteq> params | None \<Rightarrow> True)
      then let (built, s) = build_index bm25 params s in s\<lparr>iix_cached := Some (params, built)\<rparr>
      else s)"

definition iix_top_k :: "('p \<Rightarrow> bm25_weight) \<Rightarrow> (int \<Rightarrow> 'f) \<Rightarrow> string list \<Rightarrow> nat \<Rightarrow> 'p \<Rightarrow> algorithm
    \<Rightarrow> 'p iix_store \<Rightarrow> ((string \<times> 'f) list \<times> 'p iix_store) option" where
  "iix_top_k bm25 surface query_terms k params alg s =
     (let s = refresh bm25 params s
      in case iix_cached s of
           None \<Rightarrow> None
         | Some (_, index, mapping) \<Rightarrow>
             let query = query_pairs query_terms mapping
             in if query = [] then Some ([], s)
                else map_option (\<lambda>hits. (hits, s)) (top_k surface index query k alg))"

definition iix_document_count :: "'p iix_store \<Rightarrow> nat \<times> 'p iix_store" where
  "iix_document_count s =
     (case sql_next (conn s) of (Sql_fails _, c) \<Rightarrow> (0, s\<lparr>conn := c\<rparr>)
      | (Sql_ok, c) \<Rightarrow> (length (len_rows (conn_db c)), s\<lparr>conn := c\<rparr>))"

section \<open>Import shards\<close>

record ingest_shard =
  shard_rows :: "((string \<times> string) \<times> nat) list"
  shard_doclens :: "(string \<times> nat) list"

definition shard_new :: ingest_shard where
  "shard_new = \<lparr>shard_rows = [], shard_doclens = []\<rparr>"

definition shard_add :: "string \<Rightarrow> doc_freqs \<Rightarrow> nat \<Rightarrow> ingest_shard \<Rightarrow> ingest_shard" where
  "shard_add item tf doc_len sh =
     sh\<lparr>shard_rows := shard_rows sh @ map (\<lambda>(trm, freq). ((trm, item), freq)) tf,
        shard_doclens := shard_doclens sh @ [(item, doc_len)]\<rparr>"

fun insert_rows :: "((string \<times> string) \<times> nat) list \<Rightarrow> sql_conn \<Rightarrow> sql_result" where
  "insert_rows [] c = (Inr (), c)"
| "insert_rows (((trm, item), freq) # rows) c = sql_then (insert_tf trm item freq c) (insert_rows rows)"

fun insert_lens :: "(string \<times> nat) list \<Rightarrow> sql_conn \<Rightarrow> sql_result" where
  "insert_lens [] c = (Inr (), c)"
| "insert_lens ((item, len) # lens) c = sql_then (insert_len item len c) (insert_lens lens)"

definition shard_finish :: "ingest_shard \<Rightarrow> sql_conn \<Rightarrow> sql_result" where
  "shard_finish sh = in_transaction (\<lambda>c.
     sql_then (insert_rows (sort (shard_rows sh)) c) (insert_lens (sort (shard_doclens sh))))"

section \<open>Loading\<close>

lemma load_tf_fold:
  fixes rows :: "((string \<times> string) \<times> nat) list"
  defines "load \<equiv> fold (\<lambda>((trm, item), freq). AList.map_default trm [(item, freq)] (AList.update item freq))"
  shows "freqs_ok tfs \<Longrightarrow> freqs_ok (load rows tfs)"
    and "(trm, docs) \<in> set (load rows tfs) \<Longrightarrow> d \<in> fst ` set docs \<Longrightarrow>
      d \<in> snd ` fst ` set rows \<or> (\<exists>(t, ds) \<in> set tfs. d \<in> fst ` set ds)"
proof -
  have step: "freqs_ok (AList.map_default t [(i, f)] (AList.update i f) tfs)" if "freqs_ok tfs" for t i f tfs
    using that by (auto simp: freqs_ok_def AList.distinct_map_default AList.map_of_map_default
        AList.distinct_update split: option.splits if_splits)
  show "freqs_ok (load rows tfs)" if "freqs_ok tfs"
    using that unfolding load_def by (induction rows arbitrary: tfs) (auto simp: step)
  have upd: "d = i \<or> d \<in> fst ` set b" if "(d, v) \<in> set (AList.update i f b)" for i f v and b :: doc_freqs
  proof -
    have "d \<in> fst ` set (AList.update i f b)" using that by force
    then show ?thesis by (simp add: AList.dom_update)
  qed
  have item: "d = i \<or> (\<exists>(t', ds) \<in> set tfs. d \<in> fst ` set ds)"
    if "(t', ds) \<in> set (AList.map_default t [(i, f)] (AList.update i f) tfs)" "d \<in> fst ` set ds" for t i t' ds tfs and f :: nat
    using that by (induction t "[(i, f)]" "AList.update i f" tfs rule: AList.map_default.induct)
      (auto split: if_splits dest!: upd)
  show "d \<in> snd ` fst ` set rows \<or> (\<exists>(t, ds) \<in> set tfs. d \<in> fst ` set ds)"
    if "(trm, docs) \<in> set (load rows tfs)" "d \<in> fst ` set docs"
    using that unfolding load_def
  proof (induction rows arbitrary: tfs)
    case (Cons r rows)
    obtain t i f where r: "r = ((t, i), f)" by (metis surj_pair)
    let ?tfs = "AList.map_default t [(i, f)] (AList.update i f) tfs"
    have "d \<in> snd ` fst ` set rows \<or> (\<exists>(t, ds) \<in> set ?tfs. d \<in> fst ` set ds)"
      using Cons.prems r by (intro Cons.IH) simp_all
    then consider "d \<in> snd ` fst ` set rows" | t' ds where "(t', ds) \<in> set ?tfs" "d \<in> fst ` set ds" by blast
    then show ?case
    proof cases
      case 2
      from item [OF this] show ?thesis using r by auto
    qed simp
  qed auto
qed

lemma load_tf_ok: "freqs_ok (load_tf rows)"
  unfolding load_tf_def by (rule load_tf_fold(1)) (simp add: freqs_ok_def)

lemma load_tf_items:
  "(trm, docs) \<in> set (load_tf rows) \<Longrightarrow> d \<in> fst ` set docs \<Longrightarrow> d \<in> snd ` fst ` set rows"
  unfolding load_tf_def by (drule (1) load_tf_fold(2)) simp

section \<open>The cache\<close>

text \<open>What a search builds from the rows when nothing fails.\<close>

definition built_from :: "bm25_weight \<Rightarrow> sql_tables \<Rightarrow> inverted_index \<times> (string \<rightharpoonup> u32)" where
  "built_from bm25 d = bm25_build bm25 (load_tf (tf_rows d)) (load_lens (len_rows d))"

definition iix_ok :: "('p \<Rightarrow> bm25_weight) \<Rightarrow> 'p iix_store \<Rightarrow> bool" where
  "iix_ok bm25 s \<longleftrightarrow> conn_outcomes (conn s) = []
     \<and> (\<forall>p b. iix_cached s = Some (p, b) \<longrightarrow> b = built_from (bm25 p) (conn_db (conn s)))"

lemma sql_next_quiet [simp]: "conn_outcomes c = [] \<Longrightarrow> sql_next c = (Sql_ok, c)"
  by (simp add: sql_next_def)

lemma sql_then_simps [simp]:
  "sql_then (Inl e, c) g = (Inl e, c)" "sql_then (Inr u, c) g = g c"
  by (simp_all add: sql_then_def)

lemma execute_quiet [simp]: "conn_outcomes c = [] \<Longrightarrow> execute f c = (Inr (), c\<lparr>conn_db := f (conn_db c)\<rparr>)"
  by (simp add: execute_def)

lemma insert_tfs_quiet:
  "conn_outcomes c = [] \<Longrightarrow> insert_tfs item tf c
    = (Inr (), c\<lparr>conn_db := (conn_db c)\<lparr>tf_rows :=
        fold (\<lambda>(k, v). AList.update k v) (map (\<lambda>(t, f). ((t, item), f)) tf) (tf_rows (conn_db c))\<rparr>\<rparr>)"
  by (induction item tf c rule: insert_tfs.induct) (simp_all add: insert_tf_def)

lemma write_document_quiet:
  "conn_outcomes c = [] \<Longrightarrow> write_document item tokens c = (Inr (), c\<lparr>conn_db :=
      \<lparr>tf_rows = fold (\<lambda>(k, v). AList.update k v) (map (\<lambda>(t, f). ((t, item), f)) (count_tokens tokens))
          (filter (\<lambda>((_, i), _). i \<noteq> item) (tf_rows (conn_db c))),
       len_rows = (if tokens = [] then id else AList.update item (length tokens))
          (filter (\<lambda>(i, _). i \<noteq> item) (len_rows (conn_db c)))\<rparr>\<rparr>)"
  by (simp add: write_document_def delete_from_db_def insert_tfs_quiet insert_len_def count_tokens_def)

lemma in_transaction_quiet:
  "conn_outcomes c = [] \<Longrightarrow> conn_saved c = None \<Longrightarrow>
    (\<And>c'. conn_outcomes c' = [] \<Longrightarrow> body c' = (Inr (), c'\<lparr>conn_db := f (conn_db c')\<rparr>)) \<Longrightarrow>
    in_transaction body c = (Inr (), c\<lparr>conn_db := f (conn_db c)\<rparr>)"
  by (cases c) (simp add: in_transaction_def sql_begin_def sql_commit_def)

definition copied :: "sql_tables \<Rightarrow> sql_tables \<Rightarrow> sql_tables" where
  "copied shard d = \<lparr>tf_rows = fold (\<lambda>(k, v). AList.update k v) (sort_key fst (tf_rows shard)) (tf_rows d),
     len_rows = fold (\<lambda>(k, v). AList.update k v) (sort_key fst (len_rows shard)) (len_rows d)\<rparr>"

lemma copy_shard_quiet:
  "conn_outcomes c = [] \<Longrightarrow> copy_shard shard c = (Inr (), c\<lparr>conn_db := copied shard (conn_db c)\<rparr>)"
  by (simp add: copy_shard_def copied_def)

lemma merge_rows_quiet:
  "conn_outcomes c = [] \<Longrightarrow> merge_rows shard c =
    (if conn_saved c \<noteq> None then (Inl Sql_error, c) else (Inr (), c\<lparr>conn_db := copied shard (conn_db c)\<rparr>))"
  by (auto simp: merge_rows_def in_transaction_quiet [where f = "copied shard"] copy_shard_quiet)

lemma load_state_quiet:
  "conn_outcomes c = [] \<Longrightarrow> load_state c = ((load_tf (tf_rows (conn_db c)), load_lens (len_rows (conn_db c))), c)"
  by (simp add: load_state_def)

lemma refresh_ok:
  assumes "iix_ok bm25 s"
  shows "refresh bm25 p s = s\<lparr>iix_cached := Some (p, built_from (bm25 p) (conn_db (conn s)))\<rparr>"
proof (cases "iix_cached s")
  case None
  then show ?thesis using assms
    by (cases s) (simp add: iix_ok_def refresh_def build_index_def load_state_quiet built_from_def)
next
  case (Some e)
  obtain q b where e: "e = (q, b)" by (cases e)
  then have "b = built_from (bm25 q) (conn_db (conn s))" using assms Some unfolding iix_ok_def by blast
  then show ?thesis using assms Some e
    by (cases s) (auto simp: iix_ok_def refresh_def build_index_def load_state_quiet built_from_def)
qed

lemma iix_top_k_result:
  fixes p :: 'p
  assumes "iix_ok bm25 s"
  defines "b \<equiv> built_from (bm25 p) (conn_db (conn s))"
  shows "\<exists>hits. iix_top_k bm25 surface terms k p alg s = Some (hits, s\<lparr>iix_cached := Some (p, b)\<rparr>)
    \<and> top_k surface (fst b) (query_pairs terms (snd b)) k alg = Some hits
    \<and> length hits \<le> k \<and> fst ` set hits \<subseteq> snd ` fst ` set (tf_rows (conn_db (conn s)))"
proof -
  let ?q = "query_pairs terms (snd b)"
  obtain hits where hits: "top_k surface (fst b) ?q k alg = Some hits" "length hits \<le> k"
      "fst ` set hits \<subseteq> query_items (fst b) ?q" using top_k_returns by blast
  have "d \<in> snd ` fst ` set (tf_rows (conn_db (conn s)))" if d: "d \<in> query_items (fst b) ?q" for d
  proof -
    obtain trm docs where "(trm, docs) \<in> set (load_tf (tf_rows (conn_db (conn s))))" "d \<in> fst ` set docs"
      using build_query_items [OF d [unfolded b_def built_from_def]] by blast
    then show ?thesis by (rule load_tf_items)
  qed
  then have items: "fst ` set hits \<subseteq> snd ` fst ` set (tf_rows (conn_db (conn s)))"
    using hits(3) by blast
  have "hits = []" if "?q = []" using hits(1) that by (simp add: top_k_def)
  then have "iix_top_k bm25 surface terms k p alg s = Some (hits, s\<lparr>iix_cached := Some (p, b)\<rparr>)"
    using hits(1) refresh_ok [OF assms(1), of p] by (cases b) (simp add: iix_top_k_def b_def [symmetric] Let_def)
  then show ?thesis using hits(1,2) items by (intro exI [of _ hits] conjI)
qed

section \<open>Histories\<close>

datatype 'p iix_op = IndexDoc string "string list" | RemoveDoc string | ClearAll | BeginBatch | CommitBatch
  | ImportShard sql_tables | SearchDocs "string list" nat 'p algorithm

text \<open>An import merges the shard and then folds its postings, unless the merge failed.\<close>

definition iix_step :: "('p \<Rightarrow> bm25_weight) \<Rightarrow> 'p iix_op \<Rightarrow> 'p iix_store \<Rightarrow> 'p iix_store" where
  "iix_step bm25 op s =
     (case op of
        IndexDoc item tokens \<Rightarrow> snd (iix_index item tokens s)
      | RemoveDoc item \<Rightarrow> snd (iix_remove item s)
      | ClearAll \<Rightarrow> snd (clear_all s)
      | BeginBatch \<Rightarrow> snd (begin_batch s)
      | CommitBatch \<Rightarrow> snd (commit_batch s)
      | ImportShard shard \<Rightarrow> (case merge_shard shard s of (Inl _, s) \<Rightarrow> s | (Inr _, s) \<Rightarrow> snd (fold_postings s))
      | SearchDocs terms k p alg \<Rightarrow> (case iix_top_k bm25 id terms k p alg s of Some (_, s') \<Rightarrow> s' | None \<Rightarrow> s))"

lemma iix_step_ok: "iix_ok bm25 s \<Longrightarrow> iix_ok bm25 (iix_step bm25 op s)"
proof (cases op)
  case (SearchDocs terms k p alg)
  assume ok: "iix_ok bm25 s"
  from iix_top_k_result [OF ok, of id terms k p alg] ok show ?thesis
    using SearchDocs by (auto simp: iix_step_def iix_ok_def)
next
  case (ImportShard shard)
  assume "iix_ok bm25 s"
  then show ?thesis using ImportShard
    by (auto simp: iix_step_def iix_ok_def merge_shard_def keeping_def merge_rows_quiet fold_postings_def)
qed (auto simp: iix_step_def iix_ok_def iix_index_def iix_remove_def clear_all_def writing_def write_document_quiet
    delete_from_db_def begin_batch_def commit_batch_def keeping_def sql_begin_def sql_commit_def)

lemma iix_history_ok:
  "iix_ok bm25 (fold (iix_step bm25) ops (iix_open \<lparr>conn_db = d, conn_saved = None, conn_outcomes = []\<rparr>))"
proof -
  have "iix_ok bm25 s \<Longrightarrow> iix_ok bm25 (fold (iix_step bm25) ops s)" for s
    by (induction ops arbitrary: s) (simp_all add: iix_step_ok)
  moreover have "iix_ok bm25 (iix_open \<lparr>conn_db = d, conn_saved = None, conn_outcomes = []\<rparr>)"
    by (simp add: iix_ok_def iix_open_def)
  ultimately show ?thesis by blast
qed

section \<open>Shard import and serial import\<close>

abbreviation put_all :: "('k \<times> 'v) list \<Rightarrow> ('k \<times> 'v) list \<Rightarrow> ('k \<times> 'v) list" where
  "put_all \<equiv> fold (\<lambda>(k, v). AList.update k v)"

lemma put_all_of: "map_of (put_all xs al) = map_of al ++ map_of (rev xs)"
  by (induction xs arbitrary: al) (auto simp: AList.update_conv' map_add_def fun_eq_iff split: option.split)

lemma put_all_distinct: "distinct (map fst al) \<Longrightarrow> distinct (map fst (put_all xs al))"
  by (induction xs arbitrary: al) (auto simp: AList.distinct_update)

lemma put_all_keys: "fst ` set (put_all xs al) = fst ` set al \<union> fst ` set xs"
proof (induction xs arbitrary: al)
  case (Cons x xs)
  then show ?case by (cases x) (simp add: AList.dom_update insert_commute)
qed simp

lemma map_of_perm:
  assumes "distinct (map fst xs)" "mset ys = mset xs"
  shows "map_of ys = map_of xs"
proof
  fix k
  have "distinct (map fst ys)" using assms mset_eq_imp_distinct_iff [of "map fst ys" "map fst xs"] by simp
  moreover have "set ys = set xs" using assms(2) by (rule mset_eq_setD)
  ultimately show "map_of ys k = map_of xs k"
    using assms(1) by (metis map_of_eq_Some_iff not_None_eq)
qed

lemma put_all_perm:
  "distinct (map fst xs) \<Longrightarrow> mset ys = mset xs \<Longrightarrow> map_of (put_all ys al) = map_of al ++ map_of xs"
  using map_of_perm [of xs "rev ys"] by (simp add: put_all_of)

text \<open>The rows of a list of documents, item and tokens.\<close>

definition doc_rows :: "(string \<times> string list) list \<Rightarrow> ((string \<times> string) \<times> nat) list" where
  "doc_rows docs = concat (map (\<lambda>(item, tokens). map (\<lambda>(t, f). ((t, item), f)) (count_tokens tokens)) docs)"

definition doc_lens :: "(string \<times> string list) list \<Rightarrow> (string \<times> nat) list" where
  "doc_lens docs = map (\<lambda>(item, tokens). (item, length tokens)) docs"

definition shard_of :: "(string \<times> string list) list \<Rightarrow> ingest_shard" where
  "shard_of docs = fold (\<lambda>(item, tokens). shard_add item (count_tokens tokens) (length tokens)) docs shard_new"

lemma shard_of_rows: "shard_of docs = \<lparr>shard_rows = doc_rows docs, shard_doclens = doc_lens docs\<rparr>"
proof -
  have "fold (\<lambda>(item, tokens). shard_add item (count_tokens tokens) (length tokens)) docs sh
    = \<lparr>shard_rows = shard_rows sh @ doc_rows docs, shard_doclens = shard_doclens sh @ doc_lens docs\<rparr>" for sh
    by (induction docs arbitrary: sh) (auto simp: shard_add_def doc_rows_def doc_lens_def)
  then show ?thesis by (simp add: shard_of_def shard_new_def)
qed

lemma count_tokens_distinct: "distinct (map fst (count_tokens tokens))"
proof -
  have "distinct (map fst tf) \<Longrightarrow> distinct (map fst (fold (\<lambda>t tf. AList.map_default t 1 Suc tf) tokens tf))"
    for tf :: doc_freqs by (induction tokens arbitrary: tf) (simp_all add: AList.distinct_map_default)
  then show ?thesis by (simp add: count_tokens_def)
qed

lemma doc_rows_items: "k \<in> fst ` set (doc_rows docs) \<Longrightarrow> snd k \<in> fst ` set docs"
  by (force simp: doc_rows_def)

lemma doc_rows_Cons:
  "doc_rows ((item, tokens) # docs) = map (\<lambda>(t, f). ((t, item), f)) (count_tokens tokens) @ doc_rows docs"
  by (simp add: doc_rows_def)

lemma item_rows_distinct: "distinct (map fst (map (\<lambda>(t, f). ((t, item), f)) (count_tokens tokens)))"
proof -
  have "map fst (map (\<lambda>(t, f). ((t, item), f)) tf) = map (\<lambda>t. (t, item)) (map fst tf)" for tf :: doc_freqs
    by (induction tf) auto
  then show ?thesis using count_tokens_distinct [of tokens] by (simp add: distinct_map inj_on_def)
qed

lemma doc_rows_distinct: "distinct (map fst docs) \<Longrightarrow> distinct (map fst (doc_rows docs))"
proof (induction docs)
  case (Cons d docs)
  obtain item tokens where d: "d = (item, tokens)" by force
  have "k \<notin> fst ` set (doc_rows docs)" if "k \<in> fst ` set (map (\<lambda>(t, f). ((t, item), f)) (count_tokens tokens))" for k
  proof -
    have "snd k = item" using that by auto
    then show ?thesis using doc_rows_items [of k docs] Cons.prems d by auto
  qed
  then have "fst ` set (map (\<lambda>(t, f). ((t, item), f)) (count_tokens tokens)) \<inter> fst ` set (doc_rows docs) = {}"
    by blast
  then show ?case using Cons d item_rows_distinct [of item tokens]
    by (simp only: doc_rows_Cons map_append distinct_append set_map list.map(2) distinct.simps)
qed (simp add: doc_rows_def)

lemma insert_rows_quiet:
  "conn_outcomes c = [] \<Longrightarrow> insert_rows rows c
    = (Inr (), c\<lparr>conn_db := (conn_db c)\<lparr>tf_rows := put_all rows (tf_rows (conn_db c))\<rparr>\<rparr>)"
  by (induction rows c rule: insert_rows.induct) (simp_all add: insert_tf_def)

lemma insert_lens_quiet:
  "conn_outcomes c = [] \<Longrightarrow> insert_lens lens c
    = (Inr (), c\<lparr>conn_db := (conn_db c)\<lparr>len_rows := put_all lens (len_rows (conn_db c))\<rparr>\<rparr>)"
  by (induction lens c rule: insert_lens.induct) (simp_all add: insert_len_def)

lemma shard_finish_quiet:
  assumes "conn_outcomes c = []" "conn_saved c = None"
  shows "shard_finish sh c = (Inr (), c\<lparr>conn_db := \<lparr>tf_rows = put_all (sort (shard_rows sh)) (tf_rows (conn_db c)),
      len_rows = put_all (sort (shard_doclens sh)) (len_rows (conn_db c))\<rparr>\<rparr>)"
  unfolding shard_finish_def
  by (rule in_transaction_quiet [where f = "\<lambda>d. \<lparr>tf_rows = put_all (sort (shard_rows sh)) (tf_rows d),
      len_rows = put_all (sort (shard_doclens sh)) (len_rows d)\<rparr>", OF assms])
    (simp add: insert_rows_quiet insert_lens_quiet)

lemma fold_count: "map_of (fold (\<lambda>t tf. AList.map_default t 1 Suc tf) tokens tf) t
  = (case map_of tf t of Some n \<Rightarrow> Some (n + count_list tokens t)
     | None \<Rightarrow> if t \<in> set tokens then Some (count_list tokens t) else None)"
  by (induction tokens arbitrary: tf) (auto simp: AList.map_of_map_default split: option.splits)

lemma map_of_count_tokens:
  "map_of (count_tokens tokens) t = (if t \<in> set tokens then Some (count_list tokens t) else None)"
  using fold_count [of tokens "[]" t] by (simp add: count_tokens_def)

lemma map_of_drop_item:
  "map_of (filter (\<lambda>((_, i), _). i \<noteq> item) rows) (t, i) = (if i = item then None else map_of rows (t, i))"
  by (induction rows) auto

lemma map_of_drop_len:
  "map_of (filter (\<lambda>(i, _). i \<noteq> item) lens) i = (if i = item then None else map_of lens i)"
  by (induction lens) auto

lemma map_of_item_rows: "map_of (map (\<lambda>(t, f). ((t, item), f)) tf) (t, i) = (if i = item then map_of tf t else None)"
  by (induction tf) auto

lemma written_rows:
  fixes item :: string and tokens :: "string list"
  assumes "conn_outcomes c = []"
  defines "d' \<equiv> conn_db (snd (write_document item tokens c))"
  shows "map_of (tf_rows d') (t, i) = (if i \<noteq> item then map_of (tf_rows (conn_db c)) (t, i)
      else if t \<in> set tokens then Some (count_list tokens t) else None)"
    and "map_of (len_rows d') i = (if i \<noteq> item then map_of (len_rows (conn_db c)) i
      else if tokens = [] then None else Some (length tokens))"
proof -
  have d': "d' = \<lparr>tf_rows = put_all (map (\<lambda>(t, f). ((t, item), f)) (count_tokens tokens))
          (filter (\<lambda>((_, i), _). i \<noteq> item) (tf_rows (conn_db c))),
       len_rows = (if tokens = [] then id else AList.update item (length tokens))
          (filter (\<lambda>(i, _). i \<noteq> item) (len_rows (conn_db c)))\<rparr>"
    by (simp add: d'_def write_document_quiet [OF assms(1)])
  have "map_of (tf_rows d') = map_of (filter (\<lambda>((_, i), _). i \<noteq> item) (tf_rows (conn_db c)))
      ++ map_of (map (\<lambda>(t, f). ((t, item), f)) (count_tokens tokens))"
    unfolding d' by (simp only: sql_tables.simps) (rule put_all_perm [OF item_rows_distinct refl])
  then show "map_of (tf_rows d') (t, i) = (if i \<noteq> item then map_of (tf_rows (conn_db c)) (t, i)
      else if t \<in> set tokens then Some (count_list tokens t) else None)"
    by (simp add: map_add_def map_of_drop_item map_of_item_rows map_of_count_tokens)
  show "map_of (len_rows d') i = (if i \<noteq> item then map_of (len_rows (conn_db c)) i
      else if tokens = [] then None else Some (length tokens))"
    by (simp add: d' AList.update_conv' map_of_drop_len)
qed

definition empty_conn :: sql_conn where
  "empty_conn = \<lparr>conn_db = \<lparr>tf_rows = [], len_rows = []\<rparr>, conn_saved = None, conn_outcomes = []\<rparr>"

definition shard_tables :: "(string \<times> string list) list \<Rightarrow> sql_tables" where
  "shard_tables docs = conn_db (snd (shard_finish (shard_of docs) empty_conn))"

text \<open>A repeated key of \<open>rows\<close> would make the order of the inserts matter.\<close>

lemma merged_rows:
  assumes "distinct (map fst docs)"
  shows "map_of (tf_rows (copied (shard_tables docs) d)) = map_of (tf_rows d) ++ map_of (doc_rows docs)"
    and "map_of (len_rows (copied (shard_tables docs) d)) = map_of (len_rows d) ++ map_of (doc_lens docs)"
proof -
  have lens: "distinct (map fst (doc_lens docs))" using assms by (simp add: doc_lens_def split_def o_def)
  have again: "map_of (put_all (sort_key fst (put_all (sort xs) [])) al) = map_of al ++ map_of xs"
    if "distinct (map fst xs)" for xs al :: "('k::linorder \<times> nat) list"
  proof -
    have "map_of (put_all (sort_key fst (put_all (sort xs) [])) al) = map_of al ++ map_of (put_all (sort xs) [])"
      using put_all_distinct [of "[]" "sort xs"] by (intro put_all_perm) simp_all
    also have "\<dots> = map_of al ++ map_of xs" using that by (simp add: put_all_perm)
    finally show ?thesis .
  qed
  have t: "shard_tables docs = \<lparr>tf_rows = put_all (sort (doc_rows docs)) [], len_rows = put_all (sort (doc_lens docs)) []\<rparr>"
    by (simp add: shard_tables_def shard_finish_quiet empty_conn_def shard_of_rows)
  show "map_of (tf_rows (copied (shard_tables docs) d)) = map_of (tf_rows d) ++ map_of (doc_rows docs)"
    using again [OF doc_rows_distinct [OF assms]] by (simp add: copied_def t)
  show "map_of (len_rows (copied (shard_tables docs) d)) = map_of (len_rows d) ++ map_of (doc_lens docs)"
    using again [OF lens] by (simp add: copied_def t)
qed

definition write_serially :: "(string \<times> string list) list \<Rightarrow> sql_conn \<Rightarrow> sql_conn" where
  "write_serially docs c = fold (\<lambda>(item, tokens) c. snd (write_document item tokens c)) docs c"

lemma serial_rows:
  assumes "conn_outcomes c = []" "distinct (map fst docs)" "[] \<notin> snd ` set docs"
    "fst ` set docs \<inter> (snd ` fst ` set (tf_rows (conn_db c)) \<union> fst ` set (len_rows (conn_db c))) = {}"
  shows "map_of (tf_rows (conn_db (write_serially docs c))) = map_of (tf_rows (conn_db c)) ++ map_of (doc_rows docs)
    \<and> map_of (len_rows (conn_db (write_serially docs c))) = map_of (len_rows (conn_db c)) ++ map_of (doc_lens docs)"
  using assms
proof (induction docs arbitrary: c)
  case Nil
  then show ?case by (simp add: write_serially_def doc_rows_def doc_lens_def)
next
  case (Cons d docs)
  obtain item tokens where d: "d = (item, tokens)" by force
  let ?rows = "map (\<lambda>(t, f). ((t, item), f)) (count_tokens tokens)" and ?db = "conn_db c"
  let ?c = "c\<lparr>conn_db := \<lparr>tf_rows = put_all ?rows (tf_rows ?db), len_rows = AList.update item (length tokens) (len_rows ?db)\<rparr>\<rparr>"
  have ne: "tokens \<noteq> []" using Cons.prems(3) d by auto
  have "filter (\<lambda>((_, i), _). i \<noteq> item) (tf_rows ?db) = tf_rows ?db"
    "filter (\<lambda>(i, _). i \<noteq> item) (len_rows ?db) = len_rows ?db"
    using Cons.prems(4) d by (auto simp: filter_id_conv image_iff)
  then have step: "snd (write_document item tokens c) = ?c"
    using write_document_quiet [OF Cons.prems(1), of item tokens] ne by simp
  have "snd ` fst ` set ?rows \<subseteq> {item}" by auto
  then have keys: "snd ` fst ` set (put_all ?rows (tf_rows ?db)) \<subseteq> insert item (snd ` fst ` set (tf_rows ?db))"
    unfolding put_all_keys image_Un by blast
  have fresh: "item \<notin> fst ` set docs" "fst ` set docs \<inter> (snd ` fst ` set (tf_rows ?db) \<union> fst ` set (len_rows ?db)) = {}"
    using Cons.prems(2,4) d by auto
  have rest: "fst ` set docs \<inter> (snd ` fst ` set (tf_rows (conn_db ?c)) \<union> fst ` set (len_rows (conn_db ?c))) = {}"
  proof -
    have db: "tf_rows (conn_db ?c) = put_all ?rows (tf_rows ?db)"
      "fst ` set (len_rows (conn_db ?c)) = insert item (fst ` set (len_rows ?db))"
      by (simp_all add: AList.dom_update)
    have disjoint: "A \<inter> (X \<union> Y) = {}" if "item \<notin> A" "A \<inter> (X' \<union> Y') = {}" "X \<subseteq> insert item X'" "Y = insert item Y'" for A X Y X' Y' :: "string set"
      using that by blast
    show ?thesis unfolding db(1) by (rule disjoint [OF fresh keys db(2)])
  qed
  have "write_serially (d # docs) c = write_serially docs ?c" using step d by (simp add: write_serially_def)
  moreover have "map_of (tf_rows (conn_db (write_serially docs ?c)))
        = map_of (put_all ?rows (tf_rows ?db)) ++ map_of (doc_rows docs)
      \<and> map_of (len_rows (conn_db (write_serially docs ?c)))
        = map_of (AList.update item (length tokens) (len_rows ?db)) ++ map_of (doc_lens docs)"
    using Cons.IH [of ?c] Cons.prems(1-3) rest d by simp
  moreover have "map_of (put_all ?rows (tf_rows ?db)) = map_of (tf_rows ?db) ++ map_of ?rows"
    using item_rows_distinct by (rule put_all_perm) simp
  moreover have "map_of ?rows ++ map_of (doc_rows docs) = map_of (doc_rows docs) ++ map_of ?rows"
  proof (rule map_add_comm)
    have "fst ` set ?rows \<inter> fst ` set (doc_rows docs) = {}"
      using doc_rows_distinct [OF Cons.prems(2)] unfolding d doc_rows_Cons map_append distinct_append set_map by blast
    then show "dom (map_of ?rows) \<inter> dom (map_of (doc_rows docs)) = {}"
      by (simp only: dom_map_of_conv_image_fst)
  qed
  moreover have "item \<notin> dom (map_of (doc_lens docs))"
  proof -
    have "fst ` set (doc_lens docs) = fst ` set docs" by (force simp: doc_lens_def)
    then show ?thesis using fresh(1) by (simp add: dom_map_of_conv_image_fst)
  qed
  moreover have "doc_rows (d # docs) = ?rows @ doc_rows docs" "doc_lens (d # docs) = (item, length tokens) # doc_lens docs"
    by (simp_all add: d doc_rows_Cons doc_lens_def)
  ultimately show ?case
    by (simp only: map_of_append map_add_assoc AList.update_conv' map_of.simps fst_conv snd_conv map_add_upd
        map_add_upd_left simp_thms) (metis map_add_assoc)
qed

lemma write_serially_Cons:
  "write_serially ((item, tokens) # docs) c = write_serially docs (snd (write_document item tokens c))"
  by (simp add: write_serially_def)

lemma serial_store:
  assumes "conn_outcomes (conn s) = []"
  shows "conn (fold (\<lambda>(item, tokens). iix_step bm25 (IndexDoc item tokens)) docs s) = write_serially docs (conn s)
    \<and> (docs \<noteq> [] \<or> iix_cached s = None \<longrightarrow>
      iix_cached (fold (\<lambda>(item, tokens). iix_step bm25 (IndexDoc item tokens)) docs s) = None)"
  using assms
proof (induction docs arbitrary: s)
  case Nil
  then show ?case by (simp add: write_serially_def)
next
  case (Cons d docs)
  obtain item tokens where d: "d = (item, tokens)" by force
  let ?s = "iix_step bm25 (IndexDoc item tokens) s"
  have "conn ?s = snd (write_document item tokens (conn s))" "iix_cached ?s = None"
    by (simp_all add: iix_step_def iix_index_def writing_def write_document_quiet [OF Cons.prems])
  moreover have "conn_outcomes (conn ?s) = []"
    using calculation(1) by (simp add: write_document_quiet [OF Cons.prems] Cons.prems)
  ultimately show ?case using Cons.IH [of ?s] by (simp add: d write_serially_Cons)
qed

lemma query_pairs_from_none: "query_pairs_from seen (\<lambda>x. None) terms = []"
  by (induction terms) simp_all

end
