(* ===== verification/Learned_Rows.thy ===== *)
theory Learned_Rows
  imports Locus_Rows
begin

text \<open>
  Learned references and the catalog of their sources (\<open>learned_reference.rs\<close>,
  \<open>source_catalog_entry.rs\<close>): the enums of their operational bitmap as interpretations of \<open>raw_enum\<close>,
  the records and the accessors.
\<close>

section \<open>Enums\<close>

datatype RefreshPolicy = RefreshPolicy_None | RefreshPolicy_Monthly | RefreshPolicy_Weekly | RefreshPolicy_Daily
  | RefreshPolicy_OnDemand | RefreshPolicy_Realtime

fun RefreshPolicy_raw :: "RefreshPolicy \<Rightarrow> int" where
  "RefreshPolicy_raw RefreshPolicy_None = 0"
| "RefreshPolicy_raw RefreshPolicy_Monthly = 16"
| "RefreshPolicy_raw RefreshPolicy_Weekly = 24"
| "RefreshPolicy_raw RefreshPolicy_Daily = 32"
| "RefreshPolicy_raw RefreshPolicy_OnDemand = 48"
| "RefreshPolicy_raw RefreshPolicy_Realtime = 56"

definition RefreshPolicy_from_raw :: "int \<Rightarrow> RefreshPolicy" where
  "RefreshPolicy_from_raw v =
     (if v = 0 then RefreshPolicy_None else if v = 16 then RefreshPolicy_Monthly
      else if v = 24 then RefreshPolicy_Weekly else if v = 32 then RefreshPolicy_Daily
      else if v = 48 then RefreshPolicy_OnDemand else if v = 56 then RefreshPolicy_Realtime
      else RefreshPolicy_None)"

datatype DriftSeverity = DriftSeverity_None | DriftSeverity_Minor | DriftSeverity_Major | DriftSeverity_Critical

definition DriftSeverity_from_raw :: "int \<Rightarrow> DriftSeverity" where
  "DriftSeverity_from_raw v =
     (if v = 0 then DriftSeverity_None else if v = 16 then DriftSeverity_Minor
      else if v = 32 then DriftSeverity_Major else if v = 48 then DriftSeverity_Critical
      else DriftSeverity_None)"

datatype LearnMode = ByReference | ByIngestion

datatype LearnedReferenceSource = LearnedReferenceSource_User | LearnedReferenceSource_Federation
  | LearnedReferenceSource_HouseholdPairing | LearnedReferenceSource_FleetPairing
  | LearnedReferenceSource_TierInheritance | LearnedReferenceSource_PairedEstate

definition LearnedReferenceSource_from_raw :: "int \<Rightarrow> LearnedReferenceSource" where
  "LearnedReferenceSource_from_raw v =
     (if v = 0 then LearnedReferenceSource_User else if v = 1 then LearnedReferenceSource_Federation
      else if v = 2 then LearnedReferenceSource_HouseholdPairing
      else if v = 3 then LearnedReferenceSource_FleetPairing
      else if v = 4 then LearnedReferenceSource_TierInheritance
      else if v = 5 then LearnedReferenceSource_PairedEstate else LearnedReferenceSource_User)"

datatype SourceKind = SourceKind_User | SourceKind_Federation | SourceKind_HouseholdPairing | SourceKind_FleetPairing
  | SourceKind_TierInheritance | SourceKind_PairedEstate

fun SourceKind_raw :: "SourceKind \<Rightarrow> int" where
  "SourceKind_raw SourceKind_User = 0"
| "SourceKind_raw SourceKind_Federation = 1"
| "SourceKind_raw SourceKind_HouseholdPairing = 2"
| "SourceKind_raw SourceKind_FleetPairing = 3"
| "SourceKind_raw SourceKind_TierInheritance = 4"
| "SourceKind_raw SourceKind_PairedEstate = 5"

definition SourceKind_from_raw :: "int \<Rightarrow> SourceKind" where
  "SourceKind_from_raw v =
     (if v = 0 then SourceKind_User else if v = 1 then SourceKind_Federation
      else if v = 2 then SourceKind_HouseholdPairing else if v = 3 then SourceKind_FleetPairing
      else if v = 4 then SourceKind_TierInheritance else if v = 5 then SourceKind_PairedEstate
      else SourceKind_User)"

interpretation RefreshPolicy: raw_enum RefreshPolicy_raw RefreshPolicy_from_raw RefreshPolicy_None 6
proof
  fix x v
  show "RefreshPolicy_from_raw (RefreshPolicy_raw x) = x" by (cases x) (simp_all add: RefreshPolicy_from_raw_def)
  show "RefreshPolicy_from_raw v = RefreshPolicy_None \<or> RefreshPolicy_raw (RefreshPolicy_from_raw v) = v"
    by (simp add: RefreshPolicy_from_raw_def)
  show "0 \<le> RefreshPolicy_raw x" "RefreshPolicy_raw x < 2 ^ 6" by (cases x; simp)+
qed simp_all

interpretation SourceKind: raw_enum SourceKind_raw SourceKind_from_raw SourceKind_User 6
proof
  fix x v
  show "SourceKind_from_raw (SourceKind_raw x) = x" by (cases x) (simp_all add: SourceKind_from_raw_def)
  show "SourceKind_from_raw v = SourceKind_User \<or> SourceKind_raw (SourceKind_from_raw v) = v"
    by (simp add: SourceKind_from_raw_def)
  show "0 \<le> SourceKind_raw x" "SourceKind_raw x < 2 ^ 6" by (cases x; simp)+
qed simp_all

section \<open>Records\<close>

record source_catalog_entry =
  catalog_id :: string
  catalog_kind :: SourceKind
  catalog_handle :: string
  catalog_anchor :: lattice_anchor
  first_seen :: int
  catalog_added_by :: string

record learned_reference =
  reference_id :: string
  source_catalog_id :: string
  reference_handle :: string
  reference_anchor :: lattice_anchor
  reference_adjective :: i64
  reference_operational :: i64
  reference_provenance :: i64
  reference_added_by :: string
  reference_filed_at :: int
  reference_tombstoned_at :: "int option"
  reference_removed_by_batch :: "string option"

definition learned_reference_new :: "string \<Rightarrow> string \<Rightarrow> string \<Rightarrow> lattice_anchor \<Rightarrow> string \<Rightarrow> int \<Rightarrow> learned_reference" where
  "learned_reference_new iid cat handle anchor by ts =
     \<lparr>reference_id = iid, source_catalog_id = cat, reference_handle = handle, reference_anchor = anchor,
      reference_adjective = 0, reference_operational = 0, reference_provenance = 0, reference_added_by = by,
      reference_filed_at = ts, reference_tombstoned_at = None, reference_removed_by_batch = None\<rparr>"

definition refresh_policy :: "extractor \<Rightarrow> learned_reference \<Rightarrow> RefreshPolicy" where
  "refresh_policy ext r = RefreshPolicy_from_raw (sint (ext (reference_operational r) 0 6))"

definition drift_severity :: "extractor \<Rightarrow> learned_reference \<Rightarrow> DriftSeverity" where
  "drift_severity ext r = DriftSeverity_from_raw (sint (ext (reference_operational r) 6 6))"

definition learn_mode :: "extractor \<Rightarrow> learned_reference \<Rightarrow> LearnMode" where
  "learn_mode ext r = (if ext (reference_operational r) 12 1 \<noteq> 0 then ByIngestion else ByReference)"

definition acquisition_source :: "extractor \<Rightarrow> learned_reference \<Rightarrow> LearnedReferenceSource" where
  "acquisition_source ext r = LearnedReferenceSource_from_raw (sint (ext (reference_operational r) 13 6))"

end
