(* ===== verification/Estate_Store.thy ===== *)
theory Estate_Store
  imports Recall_Laws Learned_Rows "HOL-Library.AList"
begin

text \<open>
  The storage of an estate: the tables \<open>drawers\<close>, \<open>nodes\<close>, \<open>tunnels\<close>, \<open>container_fingerprints\<close>,
  \<open>recall_trace\<close> and those of the other nouns with the audit log, the actions over them with their errors, the node tree of
  \<open>node.rs\<close> and \<open>node_store.rs\<close>, and the container aggregates of
  \<open>container_fingerprint_store.rs\<close>. The storage of \<open>persistence_kit\<close> is read by its documented
  relational behaviour: a query filters the rows in insertion order and sorts them stably by its
  order clauses, an insert refuses a repeated primary key. Each call consumes one outcome of the
  backend, so that every failure is a case; with none left, calls succeed. The content fingerprint
  and Merkle columns are left out, as are timestamps of the hybrid clock.
\<close>

section \<open>The gate and the other external functions\<close>

text \<open>The verbs of the row automaton that the code names, and the columns of a drawer's bitmaps.\<close>

datatype row_verb = VCapture | VMutate | VObserve | VContest | VResolveContest | VReject | VPromote
  | VSupersede | VRetract | VTombstone

datatype bitmap_column = Adjective | Operational | Provenance

record field_slot =
  slot_column :: bitmap_column
  slot_shift :: nat
  slot_width :: nat
  slot_name :: string
  slot_values :: "int list option"

record field_write =
  fw_slot :: field_slot
  fw_value :: i64

type_synonym bitmaps = "i64 \<times> i64 \<times> i64"

text \<open>An anchor is its UDC code and Wikidata id.\<close>

type_synonym anchor = "string \<times> string"

record gate_request =
  req_row :: string
  req_verb :: row_verb
  req_prior :: "bitmaps option"
  req_prior_anchor :: "anchor option"
  req_writes :: "field_write list"
  req_anchor :: anchor
  req_actor :: string

text \<open>
  The functions of external crates: the bit fields of \<open>substrate_kernel\<close>, the gate and the basis
  slots of \<open>substrate_lib::audit_gate\<close>, the reduction of \<open>substrate_types::or_reduce\<close>, the Unicode name normalisation, \<open>Uuid::parse_str\<close>, and the fresh
  identifiers of \<open>Uuid::new_v4\<close> in the order they are drawn.
\<close>

record env =
  env_extract :: extractor
  env_write :: "i64 \<Rightarrow> i64 \<Rightarrow> nat \<Rightarrow> nat \<Rightarrow> i64"
  env_admit :: "gate_request \<Rightarrow> string + bitmaps"
  env_basis :: "field_slot list"
  env_or :: "i64 \<Rightarrow> i64 \<Rightarrow> i64"
  env_lookup :: "string \<Rightarrow> string"
  env_is_uuid :: "string \<Rightarrow> bool"
  env_write_flag :: "bool \<Rightarrow> i64 \<Rightarrow> nat \<Rightarrow> i64"
  env_fresh :: "nat \<Rightarrow> string"
  env_lineage :: "nat \<Rightarrow> 128 word"
  env_lineage_text :: "128 word \<Rightarrow> string"
  env_iso8601 :: "int \<Rightarrow> string"

section \<open>The state\<close>

record node =
  node_id :: string
  node_parent :: "string option"
  display_name :: string
  lookup_name :: string
  node_depth :: int
  node_lifecycle :: int
  node_tombstoned_at :: "int option"
  node_created_at :: int
  node_updated_at :: int

datatype audit_verb = By_row row_verb | Named string

record audit_event =
  ev_row :: string
  ev_verb :: audit_verb
  ev_before :: "bitmaps option"
  ev_after :: bitmaps
  ev_before_anchor :: "anchor option"
  ev_after_anchor :: anchor
  ev_actor :: string
  ev_reason :: "string option"

record recall_trace =
  trace_id :: string
  trace_target :: string
  trace_recalled_at :: string
  trace_operational :: i64

datatype io_outcome = Io_ok | Io_fails string

record estate =
  es_drawers :: "drawer list"
  es_nodes :: "node list"
  es_fps :: "((string \<times> string) \<times> container_fingerprint) list"
  es_tunnels :: "tunnel list"
  es_audit :: "audit_event list"
  es_traces :: "recall_trace list"
  es_facts :: "kg_fact list"
  es_proposals :: "proposal list"
  es_associations :: "association list"
  es_references :: "learned_reference list"
  es_sources :: "source_catalog_entry list"
  es_diary :: "diary_entry list"
  es_owner :: string
  es_drawn :: nat
  es_io :: "io_outcome list"

type_synonym estate_error = "row_verb locuskit_error"

type_synonym 'a act = "estate \<Rightarrow> (estate_error + 'a) \<times> estate"

definition act_ok :: "'a \<Rightarrow> 'a act" where
  "act_ok a s = (Inr a, s)"

definition act_fail :: "estate_error \<Rightarrow> 'a act" where
  "act_fail e s = (Inl e, s)"

definition act_bind :: "'a act \<Rightarrow> ('a \<Rightarrow> 'b act) \<Rightarrow> 'b act" where
  "act_bind m f s = (case m s of (Inl e, s) \<Rightarrow> (Inl e, s) | (Inr a, s) \<Rightarrow> f a s)"

definition act_seq :: "unit act \<Rightarrow> 'b act \<Rightarrow> 'b act" where
  "act_seq m n = act_bind m (\<lambda>_. n)"

text \<open>A \<open>match\<close> on the result, or \<open>let _ =\<close>: the error becomes a value.\<close>

definition attempt :: "'a act \<Rightarrow> (estate_error + 'a) act" where
  "attempt m s = (case m s of (r, s) \<Rightarrow> (Inr r, s))"

fun for_each :: "('a \<Rightarrow> unit act) \<Rightarrow> 'a list \<Rightarrow> unit act" where
  "for_each f [] = act_ok ()"
| "for_each f (x # xs) = act_seq (f x) (for_each f xs)"

definition draw_uuid :: "env \<Rightarrow> string act" where
  "draw_uuid env s = (Inr (env_fresh env (es_drawn s)), s\<lparr>es_drawn := es_drawn s + 1\<rparr>)"

definition draw_lineage :: "env \<Rightarrow> 128 word act" where
  "draw_lineage env s = (Inr (env_lineage env (es_drawn s)), s\<lparr>es_drawn := es_drawn s + 1\<rparr>)"

section \<open>Storage calls\<close>

definition storage :: "(estate \<Rightarrow> string + 'a \<times> estate) \<Rightarrow> 'a act" where
  "storage f s =
     (let s' = s\<lparr>es_io := tl (es_io s)\<rparr>
      in case es_io s of
           Io_fails e # _ \<Rightarrow> (Inl (DatabaseUnavailable e), s')
         | _ \<Rightarrow> (case f s' of Inl e \<Rightarrow> (Inl (DatabaseUnavailable e), s') | Inr (a, s') \<Rightarrow> (Inr a, s')))"

definition query_rows :: "(estate \<Rightarrow> 'r list) \<Rightarrow> ('r \<Rightarrow> bool) \<Rightarrow> 'r list act" where
  "query_rows table p = storage (\<lambda>s. Inr (filter p (table s), s))"

text \<open>A query with limit 1.\<close>

definition query_one :: "(estate \<Rightarrow> 'r list) \<Rightarrow> ('r \<Rightarrow> bool) \<Rightarrow> 'r option act" where
  "query_one table p = storage (\<lambda>s. Inr (List.find p (table s), s))"

definition query_sorted :: "(estate \<Rightarrow> 'r list) \<Rightarrow> ('r \<Rightarrow> 'k::linorder) \<Rightarrow> nat option \<Rightarrow> ('r \<Rightarrow> bool) \<Rightarrow> 'r list act" where
  "query_sorted table key limit p =
     storage (\<lambda>s. let rows = sort_key key (filter p (table s))
       in Inr (case limit of Some n \<Rightarrow> take n rows | None \<Rightarrow> rows, s))"

definition insert_row :: "(estate \<Rightarrow> 'r list) \<Rightarrow> (('r list \<Rightarrow> 'r list) \<Rightarrow> estate \<Rightarrow> estate) \<Rightarrow> ('r \<Rightarrow> string) \<Rightarrow> 'r \<Rightarrow> unit act" where
  "insert_row table upd key row =
     storage (\<lambda>s. if key row \<in> key ` set (table s) then Inl ''duplicate primary key''
       else Inr ((), upd (\<lambda>rows. rows @ [row]) s))"

definition update_rows :: "(('r list \<Rightarrow> 'r list) \<Rightarrow> estate \<Rightarrow> estate) \<Rightarrow> ('r \<Rightarrow> bool) \<Rightarrow> ('r \<Rightarrow> 'r) \<Rightarrow> unit act" where
  "update_rows upd p f = storage (\<lambda>s. Inr ((), upd (map (\<lambda>r. if p r then f r else r)) s))"

definition delete_rows :: "(('r list \<Rightarrow> 'r list) \<Rightarrow> estate \<Rightarrow> estate) \<Rightarrow> ('r \<Rightarrow> bool) \<Rightarrow> unit act" where
  "delete_rows upd p = storage (\<lambda>s. Inr ((), upd (filter (\<lambda>r. \<not> p r)) s))"

definition append_audit :: "audit_event \<Rightarrow> unit act" where
  "append_audit ev = storage (\<lambda>s. Inr ((), s\<lparr>es_audit := es_audit s @ [ev]\<rparr>))"

text \<open>A transaction of one write to \<open>drawers\<close> and one audit event: both or none.\<close>

definition insert_audited :: "drawer \<Rightarrow> audit_event \<Rightarrow> unit act" where
  "insert_audited d ev =
     storage (\<lambda>s. if drawer_id d \<in> drawer_id ` set (es_drawers s) then Inl ''duplicate primary key''
       else Inr ((), s\<lparr>es_drawers := es_drawers s @ [d], es_audit := es_audit s @ [ev]\<rparr>))"

definition update_audited :: "string \<Rightarrow> (drawer \<Rightarrow> drawer) \<Rightarrow> audit_event \<Rightarrow> unit act" where
  "update_audited iid f ev =
     storage (\<lambda>s. Inr ((), s\<lparr>es_drawers := map (\<lambda>d. if drawer_id d = iid then f d else d) (es_drawers s),
       es_audit := es_audit s @ [ev]\<rparr>))"

definition validate_non_empty :: "string \<Rightarrow> string \<Rightarrow> unit act" where
  "validate_non_empty v label = (if v = [] then act_fail (InvalidContent (label @ '' must not be empty'')) else act_ok ())"

section \<open>The node tree\<close>

text \<open>
  The lookup name of a display name: the characters of its normal form, trimmed, with runs of white
  space collapsed to one space, in lower case. The Unicode tables are arguments.
\<close>

fun collapse_spaces :: "('c \<Rightarrow> bool) \<Rightarrow> 'c \<Rightarrow> bool \<Rightarrow> 'c list \<Rightarrow> 'c list" where
  "collapse_spaces white space prev [] = []"
| "collapse_spaces white space prev (ch # cs) =
     (if white ch then (if \<not> prev then space # collapse_spaces white space True cs
                        else collapse_spaces white space prev cs)
      else ch # collapse_spaces white space False cs)"

definition normalize_lookup_name :: "(string \<Rightarrow> 'c list) \<Rightarrow> ('c \<Rightarrow> bool) \<Rightarrow> 'c \<Rightarrow> ('c list \<Rightarrow> string) \<Rightarrow> string \<Rightarrow> string" where
  "normalize_lookup_name nfc white space lower name =
     lower (collapse_spaces white space False
       (rev (dropWhile white (rev (dropWhile white (nfc name))))))"

definition get_node :: "string \<Rightarrow> node option act" where
  "get_node iid = query_one es_nodes (\<lambda>n. node_id n = iid)"

definition root_node :: "node option act" where
  "root_node = query_one es_nodes (\<lambda>n. node_parent n = None \<and> node_depth n = 0 \<and> node_lifecycle n = 0)"

definition find_active_node :: "string \<Rightarrow> string \<Rightarrow> node option act" where
  "find_active_node name parent =
     query_one es_nodes (\<lambda>n. node_parent n = Some parent \<and> lookup_name n = name \<and> node_lifecycle n = 0)"

definition insert_node :: "node \<Rightarrow> unit act" where
  "insert_node = insert_row es_nodes es_nodes_update node_id"

definition new_node :: "string \<Rightarrow> string option \<Rightarrow> string \<Rightarrow> string \<Rightarrow> int \<Rightarrow> int \<Rightarrow> node" where
  "new_node iid parent name look depth now =
     \<lparr>node_id = iid, node_parent = parent, display_name = name, lookup_name = look, node_depth = depth,
      node_lifecycle = 0, node_tombstoned_at = None, node_created_at = now, node_updated_at = now\<rparr>"

definition create_node :: "env \<Rightarrow> string \<Rightarrow> string \<Rightarrow> int \<Rightarrow> node act" where
  "create_node env name parent_id now =
     (let look = env_lookup env name
      in act_bind (get_node parent_id) (\<lambda>parent.
         case parent of
           None \<Rightarrow> act_fail (InvalidContent (''NodeStore: parent node '' @ parent_id @ '' does not exist (I-NT-5)''))
         | Some parent \<Rightarrow>
             let child_depth = node_depth parent + 1
             in if child_depth > 2 then act_fail (InvalidContent ''NodeStore: depth exceeds maximum 2 (I-NT-2)'')
                else act_bind (find_active_node look parent_id) (\<lambda>existing.
                  case existing of
                    Some n \<Rightarrow> act_ok n
                  | None \<Rightarrow>
                      act_bind (draw_uuid env) (\<lambda>iid.
                      act_seq (insert_node (new_node iid (Some parent_id) name look child_depth now))
                      (act_bind (find_active_node look parent_id) (\<lambda>found.
                        case found of
                          Some n \<Rightarrow> act_ok n
                        | None \<Rightarrow> act_fail (DatabaseUnavailable
                            ''NodeStore: create-on-demand resolution failed after insert'')))))))"

definition create_root :: "env \<Rightarrow> string \<Rightarrow> int \<Rightarrow> node act" where
  "create_root env name now =
     act_bind root_node (\<lambda>existing.
     case existing of
       Some n \<Rightarrow> act_ok n
     | None \<Rightarrow>
         act_bind (draw_uuid env) (\<lambda>iid.
         act_seq (insert_node (new_node iid None name (env_lookup env name) 0 now))
         (act_bind root_node (\<lambda>found.
           case found of
             Some n \<Rightarrow> act_ok n
           | None \<Rightarrow> act_fail (DatabaseUnavailable ''NodeStore: root creation failed'')))))"

definition child_nodes :: "string \<Rightarrow> node list act" where
  "child_nodes parent =
     query_sorted es_nodes lookup_name None (\<lambda>n. node_parent n = Some parent \<and> node_lifecycle n = 0)"

definition tombstone_node :: "string \<Rightarrow> int \<Rightarrow> node option act" where
  "tombstone_node iid now =
     act_bind (get_node iid) (\<lambda>found.
     case found of
       None \<Rightarrow> act_ok None
     | Some n \<Rightarrow>
         if node_lifecycle n = 1 then act_ok (Some n)
         else act_seq (update_rows es_nodes_update (\<lambda>n. node_id n = iid)
                (\<lambda>n. n\<lparr>node_lifecycle := 1, node_tombstoned_at := Some now, node_updated_at := now\<rparr>))
              (get_node iid))"

section \<open>Container aggregates\<close>

definition cf_zero :: container_fingerprint where
  "cf_zero = \<lparr>cf_adjective = 0, cf_operational = 0, cf_provenance = 0\<rparr>"

definition merging :: "env \<Rightarrow> container_fingerprint \<Rightarrow> container_fingerprint \<Rightarrow> container_fingerprint" where
  "merging env a b =
     \<lparr>cf_adjective = env_or env (cf_adjective a) (cf_adjective b),
      cf_operational = env_or env (cf_operational a) (cf_operational b),
      cf_provenance = env_or env (cf_provenance a) (cf_provenance b)\<rparr>"

definition drawer_fp :: "drawer \<Rightarrow> container_fingerprint" where
  "drawer_fp d = \<lparr>cf_adjective = adjective_bitmap d, cf_operational = operational_bitmap d, cf_provenance = provenance d\<rparr>"

definition WING_ROLLUP_ROOM :: string where "WING_ROLLUP_ROOM = []"

definition fp_open :: "unit act" where
  "fp_open = storage (\<lambda>s. Inr ((), s))"

definition fp_get :: "string \<Rightarrow> string \<Rightarrow> container_fingerprint option act" where
  "fp_get wing room =
     act_bind (query_one es_fps (\<lambda>(k, _). k = (wing, room))) (\<lambda>row. act_ok (map_option snd row))"

definition fp_put :: "string \<Rightarrow> string \<Rightarrow> container_fingerprint \<Rightarrow> unit act" where
  "fp_put wing room fp = storage (\<lambda>s. Inr ((), s\<lparr>es_fps := AList.update (wing, room) fp (es_fps s)\<rparr>))"

definition room_level_entries :: "((string \<times> string) \<times> container_fingerprint) list act" where
  "room_level_entries = query_sorted es_fps (fst \<circ> fst) None (\<lambda>((_, room), _). room \<noteq> WING_ROLLUP_ROOM)"

definition or_into :: "env \<Rightarrow> string \<Rightarrow> string \<Rightarrow> container_fingerprint \<Rightarrow> unit act" where
  "or_into env wing room delta =
     act_bind (fp_get wing room) (\<lambda>found.
     fp_put wing room (merging env (case found of Some fp \<Rightarrow> fp | None \<Rightarrow> cf_zero) delta))"

definition or_in :: "env \<Rightarrow> string \<Rightarrow> string \<Rightarrow> container_fingerprint \<Rightarrow> unit act" where
  "or_in env wing room delta =
     act_seq (or_into env wing room delta) (or_into env wing WING_ROLLUP_ROOM delta)"

definition rebuild_room :: "env \<Rightarrow> string \<Rightarrow> string \<Rightarrow> drawer list \<Rightarrow> container_fingerprint act" where
  "rebuild_room env wing room active =
     (let acc = fold (\<lambda>d acc. merging env acc (drawer_fp d)) active cf_zero
      in act_seq (fp_put wing room acc) (act_ok acc))"

definition roll_up_wing :: "env \<Rightarrow> string \<Rightarrow> container_fingerprint act" where
  "roll_up_wing env wing =
     act_bind (query_rows es_fps (\<lambda>((w, room), _). w = wing \<and> room \<noteq> WING_ROLLUP_ROOM)) (\<lambda>rows.
     let acc = fold (\<lambda>row acc. merging env acc (snd row)) rows cf_zero
     in act_seq (fp_put wing WING_ROLLUP_ROOM acc) (act_ok acc))"

text \<open>The drawers with the container of their node; the maps of maps iterate in key order.\<close>

definition placed :: "node_names \<Rightarrow> drawer list \<Rightarrow> ((string \<times> string) \<times> drawer) list" where
  "placed names ds = List.map_filter (\<lambda>d. map_option (\<lambda>wr. (wr, d)) (names (parent_node_id d))) ds"

definition rebuild_all :: "env \<Rightarrow> drawer list \<Rightarrow> node_names \<Rightarrow> unit act" where
  "rebuild_all env active names =
     (let by_container = placed names active
      in for_each (\<lambda>wing.
           act_seq
             (for_each (\<lambda>room.
                act_bind (rebuild_room env wing room
                    (map snd (filter (\<lambda>(wr, _). wr = (wing, room)) by_container))) (\<lambda>_. act_ok ()))
              (sort (remdups (map (snd \<circ> fst) (filter (\<lambda>((w, _), _). w = wing) by_container)))))
             (act_bind (roll_up_wing env wing) (\<lambda>_. act_ok ())))
         (sort (remdups (map (fst \<circ> fst) by_container))))"

section \<open>Names of nodes\<close>

definition active_wing :: "env \<Rightarrow> string \<Rightarrow> node option act" where
  "active_wing env wing =
     query_one es_nodes (\<lambda>n. lookup_name n = env_lookup env wing \<and> node_depth n = 1 \<and> node_tombstoned_at n = None)"

definition room_node_ids_in_wing :: "env \<Rightarrow> string \<Rightarrow> string list act" where
  "room_node_ids_in_wing env wing =
     act_bind (active_wing env wing) (\<lambda>found.
     case found of
       None \<Rightarrow> act_ok []
     | Some w \<Rightarrow>
         act_bind (query_rows es_nodes (\<lambda>n. node_parent n = Some (node_id w) \<and> node_depth n = 2 \<and> node_tombstoned_at n = None))
           (\<lambda>rooms. act_ok (map node_id rooms)))"

definition room_node_id :: "env \<Rightarrow> string \<Rightarrow> string \<Rightarrow> string option act" where
  "room_node_id env wing room =
     act_bind (active_wing env wing) (\<lambda>found.
     case found of
       None \<Rightarrow> act_ok None
     | Some w \<Rightarrow>
         act_bind (query_one es_nodes (\<lambda>n. node_parent n = Some (node_id w) \<and> lookup_name n = env_lookup env room
             \<and> node_depth n = 2 \<and> node_tombstoned_at n = None))
           (\<lambda>r. act_ok (map_option node_id r)))"

definition parent_text :: "node \<Rightarrow> string" where
  "parent_text n = (case node_parent n of Some p \<Rightarrow> p | None \<Rightarrow> [])"

definition resolve_node_names :: "string list \<Rightarrow> node_names act" where
  "resolve_node_names ids =
     (if ids = [] then act_ok Map.empty
      else act_bind (query_rows es_nodes (\<lambda>n. node_id n \<in> set ids)) (\<lambda>rooms.
        act_bind (if rooms = [] then act_ok []
                  else query_rows es_nodes (\<lambda>n. node_id n \<in> parent_text ` set rooms)) (\<lambda>wings.
        let wing_names = map_of (rev (map (\<lambda>w. (node_id w, display_name w)) wings))
        in act_ok (map_of (rev (map (\<lambda>r. (node_id r,
             (case wing_names (parent_text r) of Some w \<Rightarrow> w | None \<Rightarrow> [], display_name r))) rooms))))))"

end
