(* ===== verification/Drawer_Store.thy ===== *)
theory Drawer_Store
  imports Estate_Store "HOL-Library.Option_ord"
begin

text \<open>
  The drawer store of \<open>drawer_store_inmemory.rs\<close> (\<open>DrawerStoreCore\<close>, behind every back end): reads, the
  gated writes of a drawer's bitmaps, capture with the supersession cascade, expunge of a lineage,
  reanchoring, the container aggregates and the parent tunnels of outlines. \<open>vocabulary.rs\<close> gives the
  slots of the gate.
\<close>

section \<open>Reads\<close>

definition get_drawer :: "string \<Rightarrow> drawer option act" where
  "get_drawer iid = query_one es_drawers (\<lambda>d. drawer_id d = iid)"

definition read_drawer :: "string \<Rightarrow> (drawer \<Rightarrow> 'a) \<Rightarrow> 'a act" where
  "read_drawer iid f =
     act_bind (query_one es_drawers (\<lambda>d. drawer_id d = iid)) (\<lambda>found.
     case found of None \<Rightarrow> act_fail (DrawerNotFound iid) | Some d \<Rightarrow> act_ok (f d))"

definition read_drawer_bitmap :: "string \<Rightarrow> (drawer \<Rightarrow> i64) \<Rightarrow> i64 act" where
  "read_drawer_bitmap iid column = read_drawer iid column"

definition read_drawer_udc :: "string \<Rightarrow> string act" where
  "read_drawer_udc iid = read_drawer iid udc_code"

text \<open>The read of a row for its content fingerprint; the fingerprint itself is left out.\<close>

definition recomputed_fingerprint :: "string \<Rightarrow> unit act" where
  "recomputed_fingerprint iid = read_drawer iid (\<lambda>_. ())"

text \<open>The generated column \<open>g_state_cluster\<close>.\<close>

definition g_state_cluster :: "drawer \<Rightarrow> int" where
  "g_state_cluster d = sint (adjective_bitmap d AND 0x3F)"

definition find_active_predecessor :: "128 word \<Rightarrow> string \<Rightarrow> string option act" where
  "find_active_predecessor lineage excluding =
     act_bind (query_one es_drawers (\<lambda>d. lineage_id d = lineage \<and> drawer_id d \<noteq> excluding \<and> g_state_cluster d < 3))
       (\<lambda>row. act_ok (map_option drawer_id row))"

definition ACTIVE_CLUSTER_UPPER_BOUND_RAW :: int where "ACTIVE_CLUSTER_UPPER_BOUND_RAW = 16"

definition living_successor_in_lineage :: "128 word \<Rightarrow> string \<Rightarrow> string option act" where
  "living_successor_in_lineage lineage excluding =
     act_bind (query_one es_drawers (\<lambda>d. lineage_id d = lineage \<and> drawer_id d \<noteq> excluding
         \<and> g_state_cluster d < ACTIVE_CLUSTER_UPPER_BOUND_RAW))
       (\<lambda>row. act_ok (map_option drawer_id row))"

definition drawers_in_wing :: "env \<Rightarrow> string \<Rightarrow> drawer list act" where
  "drawers_in_wing env wing =
     act_bind (room_node_ids_in_wing env wing) (\<lambda>room_ids.
     if room_ids = [] then act_ok []
     else query_sorted es_drawers drawer_filed_at None
       (\<lambda>d. parent_node_id d \<in> set room_ids \<and> drawer_tombstoned_at d = None))"

definition drawers_in_wing_room :: "env \<Rightarrow> string \<Rightarrow> string \<Rightarrow> drawer list act" where
  "drawers_in_wing_room env wing room =
     act_bind (room_node_id env wing room) (\<lambda>found.
     case found of
       None \<Rightarrow> act_ok []
     | Some room_id \<Rightarrow> query_sorted es_drawers drawer_filed_at None
         (\<lambda>d. parent_node_id d = room_id \<and> drawer_tombstoned_at d = None))"

definition drawers_by_source :: "string \<Rightarrow> drawer list act" where
  "drawers_by_source file =
     query_sorted es_drawers (\<lambda>d. (chunk_index d, drawer_filed_at d)) None
       (\<lambda>d. source_file d = Some file \<and> drawer_tombstoned_at d = None)"

definition all_drawers_bounded :: "nat option \<Rightarrow> drawer list act" where
  "all_drawers_bounded limit =
     query_sorted es_drawers (\<lambda>d. (drawer_filed_at d, drawer_id d)) limit (\<lambda>_. True)"

definition all_drawers :: "drawer list act" where
  "all_drawers = query_sorted es_drawers (\<lambda>d. (drawer_filed_at d, drawer_id d)) None (\<lambda>_. True)"

definition active_drawers_after :: "string option \<Rightarrow> nat \<Rightarrow> drawer list act" where
  "active_drawers_after after limit =
     query_sorted es_drawers drawer_id (Some limit)
       (\<lambda>d. drawer_tombstoned_at d = None \<and> (case after of Some cursor \<Rightarrow> cursor < drawer_id d | None \<Rightarrow> True))"

text \<open>\<open>ORDER BY filedAt DESC, id DESC\<close> over unique ids.\<close>

definition all_drawers_bounded_desc :: "nat option \<Rightarrow> drawer list act" where
  "all_drawers_bounded_desc limit =
     storage (\<lambda>s. let rows = rev (sort_key (\<lambda>d. (drawer_filed_at d, drawer_id d)) (es_drawers s))
       in Inr (case limit of Some n \<Rightarrow> take n rows | None \<Rightarrow> rows, s))"

text \<open>The projection leaves out the content column, which decodes to the empty text.\<close>

definition all_drawers_bounded_projected_desc :: "nat option \<Rightarrow> drawer list act" where
  "all_drawers_bounded_projected_desc limit =
     act_bind (all_drawers_bounded_desc limit) (\<lambda>rows. act_ok (map (\<lambda>d. d\<lparr>content := []\<rparr>) rows))"

definition lineage_chain :: "string \<Rightarrow> string list act" where
  "lineage_chain iid =
     act_bind (query_one es_drawers (\<lambda>d. drawer_id d = iid)) (\<lambda>found.
     case found of
       None \<Rightarrow> act_ok []
     | Some d \<Rightarrow> act_bind (query_rows es_drawers (\<lambda>r. lineage_id r = lineage_id d)) (\<lambda>rows. act_ok (map drawer_id rows)))"

section \<open>The gate\<close>

definition slot :: "bitmap_column \<Rightarrow> nat \<Rightarrow> nat \<Rightarrow> string \<Rightarrow> int list option \<Rightarrow> field_slot" where
  "slot column shift width name vals =
     \<lparr>slot_column = column, slot_shift = shift, slot_width = width, slot_name = name, slot_values = vals\<rparr>"

definition union_slots :: "field_slot list" where
  "union_slots =
     [slot Operational 0 6 ''capture_channel'' (Some [0, 1, 2, 3, 4, 5]),
      slot Operational 6 6 ''content_kind'' (Some [0, 1, 2, 3, 4, 5, 6, 7]),
      slot Operational 12 12 ''feature_flags'' None,
      slot Operational 24 1 ''state_extension'' None,
      slot Operational 25 1 ''lineage_clustering'' None,
      slot Provenance 0 6 ''source_type'' (Some [0, 1, 2, 3, 4, 5, 6, 7, 8, 9]),
      slot Provenance 6 6 ''channel'' (Some [0, 1, 2, 3, 4, 5, 6, 7, 8, 15, 16]),
      slot Provenance 12 6 ''prov_capture_channel'' (Some [0, 1, 2, 3, 4, 5]),
      slot Provenance 18 6 ''confirmation'' (Some [0, 1, 2, 3, 4]),
      slot Provenance 24 6 ''confidence'' (Some [0, 16, 32, 48, 56]),
      slot Provenance 30 6 ''sensitivity_at_capture'' (Some [0, 16, 32, 48]),
      slot Provenance 36 6 ''enrichment_status'' (Some [0, 1, 2, 3, 4])]"

definition state_slot :: field_slot where
  "state_slot = slot Adjective 0 6 ''state'' (Some [0, 1, 2, 3, 16, 17, 18, 19, 32, 33])"

definition flags_slot :: field_slot where
  "flags_slot = slot Adjective 24 3 ''flags'' None"

definition extract_write :: "env \<Rightarrow> i64 \<Rightarrow> field_slot \<Rightarrow> field_write" where
  "extract_write env column sl =
     \<lparr>fw_slot = sl, fw_value = env_extract env column (slot_shift sl) (slot_width sl)\<rparr>"

definition the_uuid :: "env \<Rightarrow> string \<Rightarrow> string \<Rightarrow> string act" where
  "the_uuid env s label =
     (case require_uuid (\<lambda>s. if env_is_uuid env s then Some s else None) s label of
        Inl e \<Rightarrow> act_fail e | Inr u \<Rightarrow> act_ok u)"

text \<open>The gate admits a request or rejects it with a text, which the error carries.\<close>

definition admit :: "env \<Rightarrow> string \<Rightarrow> gate_request \<Rightarrow> bitmaps act" where
  "admit env what req =
     (case env_admit env req of
        Inl v \<Rightarrow> act_fail (InvalidContent (what @ '' rejected by gate: '' @ v))
      | Inr after \<Rightarrow> act_ok after)"

definition sealed_event :: "gate_request \<Rightarrow> bitmaps \<Rightarrow> string option \<Rightarrow> audit_event" where
  "sealed_event req after reason =
     \<lparr>ev_row = req_row req, ev_verb = By_row (req_verb req), ev_before = req_prior req, ev_after = after,
      ev_before_anchor = req_prior_anchor req, ev_after_anchor = req_anchor req,
      ev_actor = req_actor req, ev_reason = reason\<rparr>"

text \<open>The three reads of a drawer's bitmaps in the order of the code.\<close>

definition read_bitmaps :: "string \<Rightarrow> bitmaps act" where
  "read_bitmaps iid =
     act_bind (read_drawer_bitmap iid adjective_bitmap) (\<lambda>adj.
     act_bind (read_drawer_bitmap iid operational_bitmap) (\<lambda>op.
     act_bind (read_drawer_bitmap iid provenance) (\<lambda>prov. act_ok (adj, op, prov))))"

definition column_name :: "bitmap_column \<Rightarrow> string" where
  "column_name c = (case c of Adjective \<Rightarrow> ''Adjective'' | Operational \<Rightarrow> ''Operational'' | Provenance \<Rightarrow> ''Provenance'')"

definition column_slots :: "env \<Rightarrow> bitmap_column \<Rightarrow> field_slot list" where
  "column_slots env c =
     (case c of
        Adjective \<Rightarrow> filter (\<lambda>sl. \<not> (slot_column sl = Adjective \<and> slot_shift sl = 0)) (env_basis env)
      | _ \<Rightarrow> filter (\<lambda>sl. slot_column sl = c) union_slots)"

definition set_column :: "bitmap_column \<Rightarrow> bitmaps \<Rightarrow> drawer \<Rightarrow> drawer" where
  "set_column c after d =
     (case (c, after) of
        (Adjective, (adj, _, _)) \<Rightarrow> d\<lparr>adjective_bitmap := adj\<rparr>
      | (Operational, (_, op, _)) \<Rightarrow> d\<lparr>operational_bitmap := op\<rparr>
      | (Provenance, (_, _, prov)) \<Rightarrow> d\<lparr>provenance := prov\<rparr>)"

definition gated_column_write :: "env \<Rightarrow> string \<Rightarrow> bitmap_column \<Rightarrow> i64 \<Rightarrow> string \<Rightarrow> string option \<Rightarrow> unit act" where
  "gated_column_write env iid column new_value changed_by reason =
     act_bind (the_uuid env iid ''drawerId'') (\<lambda>uuid.
     let writes = map (extract_write env new_value) (column_slots env column)
     in act_bind (read_bitmaps iid) (\<lambda>prior.
        act_bind (read_drawer_udc iid) (\<lambda>udc.
        let req = \<lparr>req_row = uuid, req_verb = VMutate, req_prior = Some prior,
                   req_prior_anchor = Some (udc, []), req_writes = writes, req_anchor = (udc, []),
                   req_actor = changed_by\<rparr>
        in act_bind (admit env (column_name column @ '' mutation'') req) (\<lambda>after.
           act_seq (recomputed_fingerprint iid)
             (update_audited iid (set_column column after) (sealed_event req after reason))))))"

definition gated_capture :: "env \<Rightarrow> drawer \<Rightarrow> unit act" where
  "gated_capture env d =
     act_bind (the_uuid env (drawer_id d) ''id'') (\<lambda>uuid.
     let writes =
           map (extract_write env (adjective_bitmap d)) (filter (\<lambda>sl. slot_column sl = Adjective) (env_basis env))
           @ map (\<lambda>sl. extract_write env
               (case slot_column sl of Operational \<Rightarrow> operational_bitmap d | Provenance \<Rightarrow> provenance d | Adjective \<Rightarrow> 0) sl)
             (filter (\<lambda>sl. slot_column sl \<noteq> Adjective) union_slots);
         req = \<lparr>req_row = uuid, req_verb = VCapture, req_prior = None, req_prior_anchor = None,
                req_writes = writes,
                req_anchor = (udc_code d, case wikidata_qid d of Some q \<Rightarrow> q | None \<Rightarrow> []),
                req_actor = drawer_added_by d\<rparr>
     in act_bind (admit env ''capture'' req) (\<lambda>after. insert_audited d (sealed_event req after None)))"

definition mutate_column :: "env \<Rightarrow> bitmap_column \<Rightarrow> string \<Rightarrow> i64 \<Rightarrow> string \<Rightarrow> string option \<Rightarrow> unit act" where
  "mutate_column env column iid new_value changed_by reason =
     act_seq (validate_non_empty iid ''drawerId'')
     (act_seq (validate_non_empty changed_by ''changedBy'')
        (gated_column_write env iid column new_value changed_by reason))"

definition mutate_provenance :: "env \<Rightarrow> string \<Rightarrow> i64 \<Rightarrow> string \<Rightarrow> string option \<Rightarrow> unit act" where
  "mutate_provenance env = mutate_column env Provenance"

definition mutate_adjective :: "env \<Rightarrow> string \<Rightarrow> i64 \<Rightarrow> string \<Rightarrow> string option \<Rightarrow> unit act" where
  "mutate_adjective env = mutate_column env Adjective"

definition mutate_operational :: "env \<Rightarrow> string \<Rightarrow> i64 \<Rightarrow> string \<Rightarrow> string option \<Rightarrow> unit act" where
  "mutate_operational env = mutate_column env Operational"

definition mutate_state :: "env \<Rightarrow> string \<Rightarrow> State \<Rightarrow> row_verb \<Rightarrow> string \<Rightarrow> string option \<Rightarrow> unit act" where
  "mutate_state env iid new_state via changed_by reason =
     act_seq (validate_non_empty iid ''drawerId'')
     (act_seq (validate_non_empty changed_by ''changedBy'')
     (act_bind (read_bitmaps iid) (\<lambda>prior.
      act_bind (the_uuid env iid ''drawerId'') (\<lambda>uuid.
      act_bind (read_drawer_udc iid) (\<lambda>udc.
      let req = \<lparr>req_row = uuid, req_verb = via, req_prior = Some prior, req_prior_anchor = Some (udc, []),
                 req_writes = [\<lparr>fw_slot = state_slot, fw_value = word_of_int (State_raw new_state)\<rparr>],
                 req_anchor = (udc, []), req_actor = changed_by\<rparr>
      in act_bind (admit env ''state mutation'' req) (\<lambda>after.
         act_seq (recomputed_fingerprint iid)
           (update_audited iid (set_column Adjective after) (sealed_event req after reason))))))))"

section \<open>Adding a drawer\<close>

definition insert_tunnel :: "tunnel \<Rightarrow> unit act" where
  "insert_tunnel = insert_row es_tunnels es_tunnels_update tunnel_id"

definition supersedes_tunnel :: "drawer \<Rightarrow> string \<Rightarrow> string \<times> string \<Rightarrow> string \<times> string \<Rightarrow> tunnel" where
  "supersedes_tunnel d prior_id source prior =
     (tunnel_new (''supersedes:'' @ drawer_id d @ '':'' @ prior_id) (fst source) (snd source) (fst prior) (snd prior)
        ''supersedes'' (drawer_added_by d) (drawer_filed_at d))
     \<lparr>tunnel_kind := TunnelKind_Supersedes, source_drawer_id := Some (drawer_id d),
      target_drawer_id := Some prior_id\<rparr>"

definition names_or_empty :: "node_names \<Rightarrow> string \<Rightarrow> string \<times> string" where
  "names_or_empty names iid = (case names iid of Some wr \<Rightarrow> wr | None \<Rightarrow> ([], []))"

definition add_drawer_with_cascade :: "env \<Rightarrow> drawer \<Rightarrow> string \<Rightarrow> unit act" where
  "add_drawer_with_cascade env d prior_id =
     act_bind (read_drawer prior_id parent_node_id) (\<lambda>prior_parent.
     act_bind (resolve_node_names [parent_node_id d, prior_parent]) (\<lambda>names.
     act_seq (gated_capture env d)
     (act_bind (attempt (insert_tunnel (supersedes_tunnel d prior_id
          (names_or_empty names (parent_node_id d)) (names_or_empty names prior_parent)))) (\<lambda>r.
      case r of
        Inl e \<Rightarrow> act_bind (attempt (delete_rows es_drawers_update (\<lambda>r. drawer_id r = drawer_id d))) (\<lambda>_. act_fail e)
      | Inr _ \<Rightarrow> mutate_state env prior_id State_Superseded VSupersede (drawer_added_by d)
          (Some (''supersession cascade, lineageID '' @ env_lineage_text env (lineage_id d)))))))"

text \<open>
  \<open>add_drawer\<close>: the capture, with the cascade when the lineage has a predecessor, and, when that
  succeeded, the bits of the drawer into the aggregates of its room and wing.
\<close>

definition or_in_drawer :: "env \<Rightarrow> drawer \<Rightarrow> unit act" where
  "or_in_drawer env d =
     act_seq fp_open
     (act_bind (resolve_node_names [parent_node_id d]) (\<lambda>names.
      let wr = names_or_empty names (parent_node_id d)
      in or_in env (fst wr) (snd wr) (drawer_fp d)))"

definition add_drawer :: "env \<Rightarrow> drawer \<Rightarrow> unit act" where
  "add_drawer env d =
     act_seq (validate_non_empty (parent_node_id d) ''parent_node_id'')
     (act_seq (validate_non_empty (content d) ''content'')
     (act_seq (validate_non_empty (drawer_added_by d) ''addedBy'')
     (act_seq (validate_non_empty (embedding_model_id d) ''embeddingModelID'')
     (act_bind (find_active_predecessor (lineage_id d) (drawer_id d)) (\<lambda>predecessor.
      act_seq (case predecessor of
          Some prior_id \<Rightarrow> add_drawer_with_cascade env d prior_id
        | None \<Rightarrow> gated_capture env d)
      (or_in_drawer env d))))))"

section \<open>Expunge\<close>

text \<open>The scrub flag is the third bit of the flags field.\<close>

definition tombstone_request :: "env \<Rightarrow> string \<Rightarrow> bitmaps \<Rightarrow> string \<Rightarrow> string \<Rightarrow> gate_request" where
  "tombstone_request env uuid prior udc changed_by =
     \<lparr>req_row = uuid, req_verb = VTombstone, req_prior = Some prior, req_prior_anchor = Some (udc, []),
      req_writes = [\<lparr>fw_slot = state_slot, fw_value = word_of_int (State_raw State_Tombstoned)\<rparr>,
        \<lparr>fw_slot = flags_slot, fw_value = (env_extract env (fst prior) 24 3 AND 0b011) OR 0b100\<rparr>],
      req_anchor = (udc, []), req_actor = changed_by\<rparr>"

definition scrub :: "bitmaps \<Rightarrow> int \<Rightarrow> drawer \<Rightarrow> drawer" where
  "scrub after now d =
     d\<lparr>adjective_bitmap := fst after, content := [], drawer_tombstoned_at := Some now\<rparr>"

definition update_drawer :: "string \<Rightarrow> (drawer \<Rightarrow> drawer) \<Rightarrow> unit act" where
  "update_drawer iid f = update_rows es_drawers_update (\<lambda>d. drawer_id d = iid) f"

definition tombstone_sibling :: "env \<Rightarrow> string \<Rightarrow> string \<Rightarrow> i64 \<Rightarrow> string \<Rightarrow> int \<Rightarrow> bool \<Rightarrow> unit act" where
  "tombstone_sibling env iid sibling adj changed_by now seal =
     act_bind (the_uuid env sibling ''siblingId'') (\<lambda>uuid.
     act_bind (read_drawer_bitmap sibling operational_bitmap) (\<lambda>op.
     act_bind (read_drawer_bitmap sibling provenance) (\<lambda>prov.
     act_bind (read_drawer_udc sibling) (\<lambda>udc.
     let req = tombstone_request env uuid (adj, op, prov) udc changed_by
     in case env_admit env req of
          Inl _ \<Rightarrow> act_ok ()
        | Inr after \<Rightarrow>
            act_bind (attempt (recomputed_fingerprint sibling)) (\<lambda>_.
            act_bind (attempt (update_drawer sibling (scrub after now))) (\<lambda>_.
            if seal then act_bind (attempt (append_audit (sealed_event req after
                (Some (''lineage expunge cascade from '' @ iid))))) (\<lambda>_. act_ok ())
            else act_ok ()))))))"

definition scrub_sibling :: "env \<Rightarrow> string \<Rightarrow> string \<Rightarrow> int \<Rightarrow> bool \<Rightarrow> string \<Rightarrow> unit act" where
  "scrub_sibling env iid changed_by now seal sibling =
     (if sibling = iid then act_ok ()
      else act_bind (attempt (read_drawer_bitmap sibling adjective_bitmap)) (\<lambda>r.
        case r of
          Inl _ \<Rightarrow> act_ok ()
        | Inr adj \<Rightarrow>
            if sint (env_extract env adj 0 6) = State_raw State_Tombstoned
            then act_bind (attempt (recomputed_fingerprint sibling)) (\<lambda>_.
                 act_bind (attempt (update_drawer sibling (\<lambda>d. d\<lparr>content := []\<rparr>))) (\<lambda>_. act_ok ()))
            else tombstone_sibling env iid sibling adj changed_by now seal))"

text \<open>The erasure ledger, written without regard to errors, is left out.\<close>

definition expunge_gated :: "env \<Rightarrow> string \<Rightarrow> string \<Rightarrow> string option \<Rightarrow> int \<Rightarrow> bool \<Rightarrow> audit_event act" where
  "expunge_gated env iid changed_by reason now seal =
     act_seq (validate_non_empty iid ''drawerId'')
     (act_seq (validate_non_empty changed_by ''changedBy'')
     (act_bind (lineage_chain iid) (\<lambda>lineage_ids.
      act_bind (read_bitmaps iid) (\<lambda>prior.
      act_bind (the_uuid env iid ''drawerId'') (\<lambda>uuid.
      act_bind (read_drawer_udc iid) (\<lambda>udc.
      let req = tombstone_request env uuid prior udc changed_by
      in act_bind (admit env ''expunge'' req) (\<lambda>after.
         act_seq (recomputed_fingerprint iid)
         (act_seq (update_drawer iid (scrub after now))
         (act_seq (for_each (scrub_sibling env iid changed_by now seal) lineage_ids)
         (act_seq (if seal then append_audit (sealed_event req after None) else act_ok ())
            (act_ok (sealed_event req after reason))))))))))))"

section \<open>Reanchoring\<close>

definition set_anchor :: "lattice_anchor \<Rightarrow> drawer \<Rightarrow> drawer" where
  "set_anchor la d = d\<lparr>udc_code := anchor_udc_code la, udc_facets := anchor_udc_facets la,
     wikidata_qid := anchor_wikidata_qid la, wikidata_qids_secondary := anchor_wikidata_qids_secondary la\<rparr>"

definition or_current :: "string option \<Rightarrow> string \<Rightarrow> string" where
  "or_current given current = (case given of Some v \<Rightarrow> v | None \<Rightarrow> current)"

text \<open>The room node of the new place, created on demand; without a root the drawer stays.\<close>

definition new_parent :: "env \<Rightarrow> string \<Rightarrow> string option \<Rightarrow> string option \<Rightarrow> int \<Rightarrow> string option act" where
  "new_parent env iid to_room to_wing now =
     (if to_room = None \<and> to_wing = None then act_ok None
      else act_bind (query_one es_drawers (\<lambda>d. drawer_id d = iid)) (\<lambda>row.
        let current_parent = (case row of Some d \<Rightarrow> parent_node_id d | None \<Rightarrow> [])
        in act_bind (resolve_node_names [current_parent]) (\<lambda>names.
           let current = names_or_empty names current_parent
           in act_bind root_node (\<lambda>found.
              case found of
                None \<Rightarrow> act_ok None
              | Some est \<Rightarrow>
                  act_bind (create_node env (or_current to_wing (fst current)) (node_id est) now) (\<lambda>wing.
                  act_bind (create_node env (or_current to_room (snd current)) (node_id wing) now) (\<lambda>room.
                  act_ok (Some (node_id room))))))))"

definition reanchor_gated :: "env \<Rightarrow> string \<Rightarrow> string option \<Rightarrow> string option \<Rightarrow> lattice_anchor option
    \<Rightarrow> string \<Rightarrow> string option \<Rightarrow> int \<Rightarrow> unit act" where
  "reanchor_gated env iid to_room to_wing to_lattice changed_by reason now =
     act_seq (validate_non_empty iid ''drawerId'')
     (act_seq (validate_non_empty changed_by ''changedBy'')
     (act_bind (read_bitmaps iid) (\<lambda>prior.
      act_bind (the_uuid env iid ''drawerId'') (\<lambda>uuid.
      act_bind (read_drawer_udc iid) (\<lambda>prior_udc.
      let after_udc = (case to_lattice of Some la \<Rightarrow> anchor_udc_code la | None \<Rightarrow> prior_udc);
          req = \<lparr>req_row = uuid, req_verb = VMutate, req_prior = Some prior,
                 req_prior_anchor = Some (prior_udc, []), req_writes = [], req_anchor = (after_udc, []),
                 req_actor = changed_by\<rparr>
      in act_bind (admit env ''reanchor'' req) (\<lambda>after.
         act_bind (new_parent env iid to_room to_wing now) (\<lambda>parent.
         act_seq
           (if to_lattice = None \<and> parent = None then act_ok ()
            else act_seq (recomputed_fingerprint iid)
              (update_drawer iid (\<lambda>d.
                let d = (case to_lattice of Some la \<Rightarrow> set_anchor la d | None \<Rightarrow> d)
                in case parent of Some p \<Rightarrow> d\<lparr>parent_node_id := p\<rparr> | None \<Rightarrow> d)))
           (append_audit (sealed_event req after reason)))))))))"

section \<open>Aggregates of the store\<close>

definition room_level_fingerprints :: "((string \<times> string) \<times> container_fingerprint) list act" where
  "room_level_fingerprints = act_seq fp_open room_level_entries"

definition or_in_container_fingerprint :: "env \<Rightarrow> string \<Rightarrow> string \<Rightarrow> container_fingerprint \<Rightarrow> unit act" where
  "or_in_container_fingerprint env wing room delta = act_seq fp_open (or_in env wing room delta)"

definition get_container_fingerprint :: "string \<Rightarrow> string \<Rightarrow> container_fingerprint option act" where
  "get_container_fingerprint wing room = act_seq fp_open (fp_get wing room)"

definition rebuild_container_fingerprints :: "env \<Rightarrow> unit act" where
  "rebuild_container_fingerprints env =
     act_bind all_drawers (\<lambda>ds.
     let active = filter (\<lambda>d. drawer_tombstoned_at d = None) ds
     in act_bind (resolve_node_names (map parent_node_id active)) (\<lambda>names.
        act_seq fp_open (rebuild_all env active names)))"

section \<open>Tunnels and outlines\<close>

definition get_tunnel :: "string \<Rightarrow> tunnel option act" where
  "get_tunnel iid = query_one es_tunnels (\<lambda>t. tunnel_id t = iid)"

definition parent_tunnel_of :: "string \<Rightarrow> tunnel option act" where
  "parent_tunnel_of child = query_one es_tunnels (\<lambda>t. tunnel_kind t = TunnelKind_Parent
     \<and> source_drawer_id t = Some child \<and> tunnel_tombstoned_at t = None)"

definition add_tunnel :: "tunnel \<Rightarrow> unit act" where
  "add_tunnel t =
     act_seq (validate_non_empty (source_wing t) ''sourceWing'')
     (act_seq (validate_non_empty (source_room t) ''sourceRoom'')
     (act_seq (validate_non_empty (target_wing t) ''targetWing'')
     (act_seq (validate_non_empty (target_room t) ''targetRoom'')
     (act_seq (validate_non_empty (tunnel_label t) ''label'')
     (act_seq (validate_non_empty (tunnel_added_by t) ''addedBy'')
     (act_seq
       (case (tunnel_kind t, source_drawer_id t) of
          (TunnelKind_Parent, Some child) \<Rightarrow>
            act_bind (parent_tunnel_of child) (\<lambda>existing.
            if existing \<noteq> None then act_fail (InvalidContent (''Drawer '' @ child @ '' already has a parent tunnel''))
            else act_ok ())
        | _ \<Rightarrow> act_ok ())
       (insert_tunnel t)))))))"

definition set_tunnel_operational :: "string \<Rightarrow> i64 \<Rightarrow> unit act" where
  "set_tunnel_operational iid bits =
     update_rows es_tunnels_update (\<lambda>t. tunnel_id t = iid) (\<lambda>t. t\<lparr>tunnel_operational := bits\<rparr>)"

definition outline_children :: "string \<Rightarrow> tunnel list act" where
  "outline_children parent =
     query_sorted es_tunnels order_key None (\<lambda>t. tunnel_kind t = TunnelKind_Parent
       \<and> target_drawer_id t = Some parent \<and> tunnel_tombstoned_at t = None)"

text \<open>The walk to the root, cut off after \<open>fuel\<close> steps, which the code starts at 256.\<close>

fun ancestors_from :: "nat \<Rightarrow> string \<Rightarrow> string list act" where
  "ancestors_from 0 current = act_ok []"
| "ancestors_from (Suc fuel) current =
     act_bind (parent_tunnel_of current) (\<lambda>row.
     case row of
       None \<Rightarrow> act_ok []
     | Some t \<Rightarrow>
         (case target_drawer_id t of
            None \<Rightarrow> act_ok []
          | Some parent \<Rightarrow> act_bind (ancestors_from fuel parent) (\<lambda>rest. act_ok (parent # rest))))"

definition outline_ancestors :: "string \<Rightarrow> string list act" where
  "outline_ancestors iid = act_bind (ancestors_from 256 iid) (\<lambda>ancestors. act_ok (rev ancestors))"

definition reparent_drawer :: "env \<Rightarrow> string \<Rightarrow> string option \<Rightarrow> u64 \<Rightarrow> string \<Rightarrow> string \<Rightarrow> string \<Rightarrow> int \<Rightarrow> unit act" where
  "reparent_drawer env child new_parent_id key wing room added_by now =
     act_bind (parent_tunnel_of child) (\<lambda>existing.
     act_seq
       (case existing of
          Some t \<Rightarrow> update_rows es_tunnels_update (\<lambda>r. tunnel_id r = tunnel_id t)
            (\<lambda>r. r\<lparr>tunnel_tombstoned_at := Some now\<rparr>)
        | None \<Rightarrow> act_ok ())
       (case new_parent_id of
          None \<Rightarrow> act_ok ()
        | Some parent \<Rightarrow>
            act_bind (draw_uuid env) (\<lambda>iid.
            add_tunnel ((tunnel_new iid wing room wing room ''parent'' added_by now)
              \<lparr>tunnel_kind := TunnelKind_Parent, source_drawer_id := Some child,
               target_drawer_id := Some parent, order_key := Some key\<rparr>))))"

end
