(* ===== verification/Estate_Verbs.thy ===== *)
theory Estate_Verbs
  imports Drawer_Store
begin

text \<open>
  The verbs of an estate (\<open>estate_verbs.rs\<close>): capture with the assembly of the bitmaps, mutation along
  its axes, withdrawal, expunge, reanchoring, tunnels, and recall with container pruning, degraded
  stages and traces, with the paged stream of \<open>recall_stream.rs\<close> and the frames of \<open>frames.rs\<close>.
  Telemetry, the test seams and the Merkle rollup after a write, whose result the code ignores, are
  left out.
\<close>

section \<open>Capture\<close>

record capture_frame =
  cap_content :: string
  cap_channel :: CaptureChannel
  cap_sensitivity :: AdjectiveSensitivity
  cap_kind :: ContentKind
  cap_provenance_channel :: Channel
  cap_source_type :: SourceType
  cap_provenance_sensitivity :: Sensitivity
  cap_confirmation :: Confirmation
  cap_confidence :: Confidence
  cap_lineage :: "128 word option"
  cap_room :: string
  cap_anchor :: lattice_anchor
  cap_added_by :: string
  cap_model :: string
  cap_feature_flags :: i64
  cap_event_time :: "int option"
  cap_exportability :: AdjectiveExportability
  cap_wing :: "string option"

definition capture_frame_new :: "string \<Rightarrow> CaptureChannel \<Rightarrow> string \<Rightarrow> lattice_anchor \<Rightarrow> string \<Rightarrow> string \<Rightarrow> capture_frame" where
  "capture_frame_new body chan room la by mdl =
     \<lparr>cap_content = body, cap_channel = chan, cap_sensitivity = AdjectiveSensitivity_Normal,
      cap_kind = ContentKind_Prose, cap_provenance_channel = Channel_UiTyped,
      cap_source_type = SourceType_User, cap_provenance_sensitivity = Sensitivity_Normal,
      cap_confirmation = Confirmation_Unconfirmed, cap_confidence = Confidence_Null, cap_lineage = None,
      cap_room = room, cap_anchor = la, cap_added_by = by, cap_model = mdl, cap_feature_flags = 0,
      cap_event_time = None, cap_exportability = AdjectiveExportability_Private, cap_wing = None\<rparr>"

definition DEFAULT_WING_NAME :: string where "DEFAULT_WING_NAME = ''Agentic Memory''"

definition HINT_ROOM :: string where "HINT_ROOM = ''AI_Charter_Hint''"

definition HINT_UDC_CODE :: string where "HINT_UDC_CODE = ''001''"

definition HINT_ADDED_BY :: string where "HINT_ADDED_BY = ''estate-provision''"

definition require :: "bool \<Rightarrow> string \<Rightarrow> unit act" where
  "require c msg = (if c then act_ok () else act_fail (InvalidContent msg))"

definition validate_capture :: "capture_frame \<Rightarrow> unit act" where
  "validate_capture f =
     act_seq (require (cap_content f \<noteq> []) ''content must not be empty'')
     (act_seq (require (cap_room f \<noteq> []) ''room must not be empty'')
     (act_seq (require (anchor_udc_code (cap_anchor f) \<noteq> []) ''latticeAnchor.udcCode must not be empty (spec I-5)'')
     (act_seq (require (cap_added_by f \<noteq> []) ''addedBy must not be empty'')
        (require (cap_model f \<noteq> []) ''embeddingModelID must not be empty''))))"

definition capture_operational :: "env \<Rightarrow> capture_frame \<Rightarrow> i64" where
  "capture_operational env f =
     env_write env (word_of_int (ContentKind_raw (cap_kind f)))
       (env_write env (word_of_int (CaptureChannel_raw (cap_channel f))) 0 0 6) 6 6
     OR (cap_feature_flags f AND FIELD_MASK)"

definition capture_adjective :: "env \<Rightarrow> capture_frame \<Rightarrow> i64" where
  "capture_adjective env f =
     env_write env (word_of_int (AdjectiveExportability_raw (cap_exportability f)))
       (env_write env (word_of_int (AdjectiveSensitivity_raw (cap_sensitivity f))) 0 6 6) 12 6"

definition capture_provenance :: "env \<Rightarrow> capture_frame \<Rightarrow> i64" where
  "capture_provenance env f =
     env_write env (word_of_int (Sensitivity_raw (cap_provenance_sensitivity f)))
       (env_write env (word_of_int (Confidence_raw (cap_confidence f)))
         (env_write env (word_of_int (Confirmation_raw (cap_confirmation f)))
           (env_write env (word_of_int (Channel_raw (cap_provenance_channel f)))
             (env_write env (word_of_int (SourceType_raw (cap_source_type f))) 0 0 6) 6 6) 18 6) 24 6) 30 6"

definition captured_drawer :: "env \<Rightarrow> capture_frame \<Rightarrow> 128 word \<Rightarrow> string \<Rightarrow> string \<Rightarrow> int \<Rightarrow> drawer" where
  "captured_drawer env f lineage iid room_id now =
     (set_anchor (cap_anchor f)
       (drawer_new lineage iid (cap_content f) room_id (cap_added_by f) now (cap_model f)))
     \<lparr>adjective_bitmap := capture_adjective env f, operational_bitmap := capture_operational env f,
      provenance := capture_provenance env f,
      event_time := (case cap_event_time f of Some t \<Rightarrow> t | None \<Rightarrow> now)\<rparr>"

definition estate_root :: "string \<Rightarrow> node act" where
  "estate_root verb =
     act_bind root_node (\<lambda>found.
     case found of
       Some n \<Rightarrow> act_ok n
     | None \<Rightarrow> act_fail (DatabaseUnavailable (verb @ '': estate root node not found - estate not provisioned'')))"

definition store_captured :: "env \<Rightarrow> capture_frame \<Rightarrow> string \<Rightarrow> int \<Rightarrow> drawer act" where
  "store_captured env f room_id now =
     act_bind (case cap_lineage f of Some l \<Rightarrow> act_ok l | None \<Rightarrow> draw_lineage env) (\<lambda>lineage.
     act_bind (draw_uuid env) (\<lambda>iid.
     let d = captured_drawer env f lineage iid room_id now
     in act_seq (add_drawer env d) (act_ok d)))"

definition resolve_room :: "env \<Rightarrow> string \<Rightarrow> string \<Rightarrow> string \<Rightarrow> int \<Rightarrow> node act" where
  "resolve_room env wing room root_id now =
     act_bind (create_node env wing root_id now) (\<lambda>w. create_node env room (node_id w) now)"

definition capture :: "env \<Rightarrow> capture_frame \<Rightarrow> int \<Rightarrow> drawer act" where
  "capture env f now =
     act_seq (validate_capture f)
     (act_bind (estate_root ''capture'') (\<lambda>est.
      act_bind (resolve_room env (or_current (cap_wing f) DEFAULT_WING_NAME) (cap_room f) (node_id est) now) (\<lambda>room.
      store_captured env f (node_id room) now)))"

text \<open>The cache of a batch is keyed by the names joined with a zero byte.\<close>

fun capture_each :: "env \<Rightarrow> string \<Rightarrow> (string \<rightharpoonup> node) \<Rightarrow> capture_frame list \<Rightarrow> int \<Rightarrow> drawer list act" where
  "capture_each env root_id cache [] now = act_ok []"
| "capture_each env root_id cache (f # fs) now =
     act_seq (validate_capture f)
     (let wing = or_current (cap_wing f) DEFAULT_WING_NAME; key = wing @ [CHR 0x00] @ cap_room f
      in act_bind (case cache key of Some n \<Rightarrow> act_ok n | None \<Rightarrow> resolve_room env wing (cap_room f) root_id now) (\<lambda>room.
         act_bind (store_captured env f (node_id room) now) (\<lambda>d.
         act_bind (capture_each env root_id (cache(key \<mapsto> room)) fs now) (\<lambda>ds. act_ok (d # ds)))))"

definition capture_batch :: "env \<Rightarrow> capture_frame list \<Rightarrow> int \<Rightarrow> drawer list act" where
  "capture_batch env fs now =
     act_bind (estate_root ''capture_batch'') (\<lambda>est. capture_each env (node_id est) Map.empty fs now)"

definition seed_wing :: "env \<Rightarrow> string \<Rightarrow> string \<Rightarrow> string \<Rightarrow> int \<Rightarrow> drawer act" where
  "seed_wing env wing hint model now =
     act_seq (require (wing \<noteq> []) ''seed_wing: wing_name must not be empty'')
     (act_bind (estate_root ''seed_wing'') (\<lambda>est.
      act_bind (resolve_room env wing HINT_ROOM (node_id est) now) (\<lambda>room.
      act_bind (draw_uuid env) (\<lambda>iid.
      act_bind (draw_lineage env) (\<lambda>lineage.
      let d = (drawer_new lineage iid hint (node_id room) HINT_ADDED_BY now model)\<lparr>udc_code := HINT_UDC_CODE\<rparr>
      in act_seq (add_drawer env d) (act_ok d))))))"

record tunnel_frame =
  tf_source_wing :: string
  tf_source_room :: string
  tf_source_drawer :: "string option"
  tf_target_wing :: string
  tf_target_room :: string
  tf_target_drawer :: "string option"
  tf_label :: string
  tf_kind :: TunnelKind
  tf_added_by :: string
  tf_origin :: TunnelOriginClass
  tf_lifecycle :: TunnelLifecycle

definition capture_tunnel_bits :: "env \<Rightarrow> tunnel_frame \<Rightarrow> i64" where
  "capture_tunnel_bits env f =
     env_write env (word_of_int (TunnelLifecycle_raw (tf_lifecycle f)))
       (env_write env (word_of_int (TunnelOriginClass_raw (tf_origin f))) 0 6 3) 3 3"

text \<open>The highest sensitivity of the endpoint drawers, as a \<open>u8\<close>.\<close>

fun max_sensitivity :: "env \<Rightarrow> string list \<Rightarrow> u8 \<Rightarrow> u8 act" where
  "max_sensitivity env [] best = act_ok best"
| "max_sensitivity env (iid # ids) best =
     act_bind (get_drawer iid) (\<lambda>found.
     max_sensitivity env ids
       (case found of
          Some d \<Rightarrow> (let s = ucast (env_extract env (adjective_bitmap d) 6 6) in if best < s then s else best)
        | None \<Rightarrow> best))"

definition capture_tunnel :: "env \<Rightarrow> tunnel_frame \<Rightarrow> int \<Rightarrow> tunnel act" where
  "capture_tunnel env f now =
     act_seq (require (tf_source_wing f \<noteq> []) ''sourceWing must not be empty'')
     (act_seq (require (tf_source_room f \<noteq> []) ''sourceRoom must not be empty'')
     (act_seq (require (tf_target_wing f \<noteq> []) ''targetWing must not be empty'')
     (act_seq (require (tf_target_room f \<noteq> []) ''targetRoom must not be empty'')
     (act_seq (require (tf_label f \<noteq> []) ''label must not be empty'')
     (act_seq (require (tf_added_by f \<noteq> []) ''addedBy must not be empty'')
     (act_bind (draw_uuid env) (\<lambda>iid.
      let t = (tunnel_new iid (tf_source_wing f) (tf_source_room f) (tf_target_wing f) (tf_target_room f)
                 (tf_label f) (tf_added_by f) now)
              \<lparr>tunnel_kind := tf_kind f, source_drawer_id := tf_source_drawer f,
               target_drawer_id := tf_target_drawer f, tunnel_operational := capture_tunnel_bits env f\<rparr>;
          endpoints = List.map_filter id [tf_source_drawer f, tf_target_drawer f]
      in act_bind
           (if endpoints = [] then act_ok t
            else act_bind (max_sensitivity env endpoints 0) (\<lambda>best.
              act_ok (t\<lparr>tunnel_adjective := env_write env (ucast best) (tunnel_adjective t) 6 6\<rparr>)))
           (\<lambda>t. act_seq (add_tunnel t) (act_ok t)))))))))"

section \<open>Mutation\<close>

datatype mutation_kind = Confirm | Reject | Contest | Resolve | Supersede | Revive | Accept
  | CorrectSensitivity AdjectiveSensitivity | CorrectTrust Trust | CorrectExportability AdjectiveExportability

definition changed_by_or_estate :: "string act" where
  "changed_by_or_estate =
     act_bind (attempt (storage (\<lambda>s. Inr (es_owner s, s)))) (\<lambda>r.
     act_ok (case r of Inr iid \<Rightarrow> if iid = [] then ''estate'' else iid | Inl _ \<Rightarrow> ''estate''))"

definition found_drawer :: "string \<Rightarrow> drawer act" where
  "found_drawer iid =
     act_bind (get_drawer iid) (\<lambda>found.
     case found of None \<Rightarrow> act_fail (DrawerNotFound iid) | Some d \<Rightarrow> act_ok d)"

definition or_text :: "string option \<Rightarrow> string \<Rightarrow> string option" where
  "or_text payload txt = Some (case payload of Some p \<Rightarrow> p | None \<Rightarrow> txt)"

definition move_state :: "env \<Rightarrow> string \<Rightarrow> State \<Rightarrow> row_verb \<Rightarrow> string option \<Rightarrow> unit act" where
  "move_state env iid st via reason =
     act_bind changed_by_or_estate (\<lambda>by. mutate_state env iid st via by reason)"

definition move_adjective :: "env \<Rightarrow> string \<Rightarrow> i64 \<Rightarrow> string option \<Rightarrow> unit act" where
  "move_adjective env iid bits reason =
     act_bind changed_by_or_estate (\<lambda>by. mutate_adjective env iid bits by reason)"

definition revive_refusal :: "State \<Rightarrow> string \<Rightarrow> unit act" where
  "revive_refusal st why =
     act_fail (DisciplineViolation (State_raw st) (State_raw State_Active) (Reason why [] []))"

definition mutate :: "env \<Rightarrow> string \<Rightarrow> mutation_kind \<Rightarrow> string option \<Rightarrow> unit act" where
  "mutate env iid kind payload =
     act_bind (found_drawer iid) (\<lambda>d.
     let st = drawer_state (env_extract env) d
     in case kind of
       Confirm \<Rightarrow>
         act_bind changed_by_or_estate (\<lambda>by.
         mutate_provenance env iid
           (env_write env (word_of_int (Confirmation_raw Confirmation_UserConfirmed)) (provenance d) 18 6)
           by (Some ''confirmed via Estate.mutate''))
     | Reject \<Rightarrow> move_state env iid State_Rejected VReject (or_text payload ''rejected via Estate.mutate'')
     | Contest \<Rightarrow> move_state env iid State_Contested VContest (or_text payload ''contested via Estate.mutate'')
     | Resolve \<Rightarrow>
         if st \<noteq> State_Contested then act_fail (InvalidContent ''resolve: only valid from Contested'')
         else move_state env iid State_Active VResolveContest (or_text payload ''resolved via Estate.mutate'')
     | Accept \<Rightarrow>
         if Trust_raw (trust (env_extract env) d) < Trust_raw Trust_Canonical
         then act_fail (InvalidContent ''accept: S-1 requires trust >= Canonical'')
         else move_state env iid State_Accepted VPromote (or_text payload ''accepted via Estate.mutate'')
     | Supersede \<Rightarrow> move_state env iid State_Superseded VSupersede (or_text payload ''superseded via Estate.mutate'')
     | Revive \<Rightarrow>
         act_seq
           (case st of
              State_Decayed \<Rightarrow> act_ok ()
            | State_Withdrawn \<Rightarrow> act_ok ()
            | State_Expired \<Rightarrow> act_ok ()
            | State_Superseded \<Rightarrow>
                act_bind (living_successor_in_lineage (lineage_id d) iid) (\<lambda>successor.
                if successor \<noteq> None then revive_refusal st ''revive: superseded row has a living successor''
                else act_ok ())
            | State_Rejected \<Rightarrow> revive_refusal st ''revive: rejected rows are not revivable''
            | State_Tombstoned \<Rightarrow> revive_refusal st ''revive: tombstoned rows are unrecoverable''
            | _ \<Rightarrow> revive_refusal st ''revive: row is already live'')
           (move_state env iid State_Active VObserve (or_text payload ''revived via Estate.mutate''))
     | CorrectSensitivity v \<Rightarrow>
         move_adjective env iid (env_write env (word_of_int (AdjectiveSensitivity_raw v)) (adjective_bitmap d) 6 6)
           (or_text payload ''sensitivity corrected via Estate.mutate'')
     | CorrectTrust v \<Rightarrow>
         move_adjective env iid (env_write env (word_of_int (Trust_raw v)) (adjective_bitmap d) 18 6)
           (or_text payload ''trust corrected via Estate.mutate'')
     | CorrectExportability v \<Rightarrow>
         move_adjective env iid (env_write env (word_of_int (AdjectiveExportability_raw v)) (adjective_bitmap d) 12 6)
           (or_text payload ''exportability corrected via Estate.mutate''))"

definition withdraw :: "env \<Rightarrow> string \<Rightarrow> string option \<Rightarrow> unit act" where
  "withdraw env iid reason =
     act_bind (found_drawer iid) (\<lambda>_.
     move_state env iid State_Withdrawn VRetract (or_text reason ''withdrawn via Estate.withdraw''))"

text \<open>The rooms read for the rollup only add reads, whose errors are ignored.\<close>

definition expunge :: "env \<Rightarrow> string \<Rightarrow> string \<Rightarrow> bool \<Rightarrow> int \<Rightarrow> bool \<Rightarrow> audit_event act" where
  "expunge env iid reason confirmed now seal =
     act_seq (require confirmed ''expunge requires confirmation: true (destructive op)'')
     (act_bind (found_drawer iid) (\<lambda>_.
      act_bind changed_by_or_estate (\<lambda>by.
      act_bind (attempt (lineage_chain iid)) (\<lambda>r.
      let lineage = (case r of Inr ids \<Rightarrow> ids | Inl _ \<Rightarrow> []);
          fetched = (if lineage = [] then [iid] else lineage)
      in act_seq (for_each (\<lambda>i. act_bind (attempt (get_drawer i)) (\<lambda>_. act_ok ())) fetched)
           (expunge_gated env iid by
             (Some (if reason = [] then ''expunged via Estate.expunge'' else reason)) now seal)))))"

text \<open>\<open>white\<close> says which texts are empty or blank (\<open>trim().is_empty()\<close>).\<close>

definition reanchor :: "env \<Rightarrow> (string \<Rightarrow> bool) \<Rightarrow> string \<Rightarrow> string option \<Rightarrow> string option \<Rightarrow> lattice_anchor option \<Rightarrow> int
    \<Rightarrow> unit act" where
  "reanchor env white iid to_room to_wing to_lattice now =
     act_seq (require (\<not> (to_room = None \<and> to_wing = None \<and> to_lattice = None))
       ''reanchor requires toRoom, toWing, or toLattice'')
     (act_seq (require (case to_wing of Some w \<Rightarrow> \<not> white w | None \<Rightarrow> True)
       ''reanchor: to_wing must not be empty or whitespace-only'')
     (act_seq (require (case to_room of Some r \<Rightarrow> r \<noteq> [] | None \<Rightarrow> True) ''reanchor: to_room must not be empty'')
     (act_seq (require (case to_lattice of Some la \<Rightarrow> anchor_udc_code la \<noteq> [] | None \<Rightarrow> True)
       ''reanchor: to_lattice.udc_code must not be empty (spec I-5)'')
     (act_bind (found_drawer iid) (\<lambda>_.
      act_bind changed_by_or_estate (\<lambda>by.
      reanchor_gated env iid to_room to_wing to_lattice by (Some ''reanchored via Estate.reanchor'') now))))))"

definition reanchor_anchor :: "env \<Rightarrow> string \<Rightarrow> lattice_anchor \<Rightarrow> string \<Rightarrow> string \<Rightarrow> int \<Rightarrow> unit act" where
  "reanchor_anchor env iid la by reason now =
     act_bind (found_drawer iid) (\<lambda>_. reanchor_gated env iid None None (Some la) by (Some reason) now)"

section \<open>The recall stream\<close>

record recall_page =
  page_rows :: "drawer list"
  page_number :: nat
  page_is_last :: bool

record recall_stream =
  rs_rows :: "drawer list"
  rs_page_size :: nat
  rs_hydration :: hydration_level
  rs_offset :: nat
  rs_page_index :: nat
  rs_exhausted :: bool
  rs_degraded :: "string list"

definition DEFAULT_PAGE_SIZE :: nat where "DEFAULT_PAGE_SIZE = 50"

definition recall_stream_new :: "drawer list \<Rightarrow> nat \<Rightarrow> hydration_level \<Rightarrow> recall_stream" where
  "recall_stream_new rows page_size level =
     \<lparr>rs_rows = rows, rs_page_size = max page_size 1, rs_hydration = level, rs_offset = 0, rs_page_index = 0,
      rs_exhausted = False, rs_degraded = []\<rparr>"

definition with_degraded_stages :: "string list \<Rightarrow> recall_stream \<Rightarrow> recall_stream" where
  "with_degraded_stages stages st = st\<lparr>rs_degraded := stages\<rparr>"

definition hydrate :: "hydration_level \<Rightarrow> drawer \<Rightarrow> drawer" where
  "hydrate level d = (case level of BitmapOnly \<Rightarrow> d\<lparr>content := []\<rparr> | _ \<Rightarrow> d)"

definition next_page :: "recall_stream \<Rightarrow> recall_page option \<times> recall_stream" where
  "next_page st =
     (if rs_exhausted st then (None, st)
      else let stop = min (rs_offset st + rs_page_size st) (length (rs_rows st));
               slice = map (hydrate (rs_hydration st)) (drop (rs_offset st) (take stop (rs_rows st)));
               is_last = stop \<ge> length (rs_rows st)
           in (Some \<lparr>page_rows = slice, page_number = rs_page_index st, page_is_last = is_last\<rparr>,
               st\<lparr>rs_offset := stop, rs_page_index := rs_page_index st + 1, rs_exhausted := is_last\<rparr>))"

text \<open>
  The loop of \<open>collect_all\<close>. A page that is not the last moves the offset by the page size, so a
  stream with a positive page size ends; a size of 0 is ruled out by \<open>new\<close> and would not end.
\<close>

function collect_from :: "recall_stream \<Rightarrow> drawer list" where
  "collect_from st =
     (if rs_page_size st = 0 then []
      else case next_page st of
             (None, _) \<Rightarrow> []
           | (Some page, st) \<Rightarrow> page_rows page @ collect_from st)"
  by pat_completeness auto

termination
proof (relation "measure (\<lambda>st. if rs_exhausted st then 0 else 1 + (length (rs_rows st) - rs_offset st))", goal_cases)
  case (2 st r page st')
  then show ?case
    by (auto simp: next_page_def Let_def split: if_splits) 
qed simp

definition collect_all :: "recall_stream \<Rightarrow> drawer list" where
  "collect_all st = collect_from st"

section \<open>Recall\<close>

definition RECALL_CANDIDATE_CAP :: nat where "RECALL_CANDIDATE_CAP = 256"

definition LIVE_ROWS_READ_FAILED :: string where "LIVE_ROWS_READ_FAILED = ''locus.liveRows.readFailed''"

definition ROOM_FINGERPRINTS_READ_FAILED :: string where
  "ROOM_FINGERPRINTS_READ_FAILED = ''locus.roomFingerprints.readFailed''"

definition ROOM_DRAWER_READ_FAILED :: string where "ROOM_DRAWER_READ_FAILED = ''locus.roomDrawerRead.readFailed''"

definition BITMAP_EVAL_FAILED :: string where "BITMAP_EVAL_FAILED = ''locus.bitmapEval.failed''"

definition TRACE_WRITE_FAILED :: string where "TRACE_WRITE_FAILED = ''recall.trace_write_failed''"

text \<open>The names of the drawers' nodes, each read by its id; a read that fails leaves its node out.\<close>

fun resolve_each :: "env \<Rightarrow> string list \<Rightarrow> node_names act" where
  "resolve_each env [] = act_ok Map.empty"
| "resolve_each env (pid # pids) =
     (if \<not> env_is_uuid env pid then resolve_each env pids
      else act_bind (attempt (get_node pid)) (\<lambda>r.
        case r of
          Inr (Some room) \<Rightarrow>
            act_bind (case node_parent room of
                None \<Rightarrow> act_ok []
              | Some wing_id \<Rightarrow> act_bind (attempt (get_node wing_id)) (\<lambda>w.
                  act_ok (case w of Inr (Some wn) \<Rightarrow> display_name wn | _ \<Rightarrow> []))) (\<lambda>wing.
            act_bind (resolve_each env pids) (\<lambda>names. act_ok (names(pid \<mapsto> (wing, display_name room)))))
        | _ \<Rightarrow> resolve_each env pids))"

definition resolve_node_names_for_drawers :: "env \<Rightarrow> drawer list \<Rightarrow> node_names act" where
  "resolve_node_names_for_drawers env ds =
     resolve_each env (sort (remdups (filter (\<lambda>p. p \<noteq> []) (map parent_node_id ds))))"

text \<open>
  The loop over the rooms: the cached decision on the wing, the decision on the room, then the read
  of the room's drawers. The Boolean says whether such a read failed.
\<close>

definition wing_decision :: "filter list \<Rightarrow> string \<Rightarrow> (string \<rightharpoonup> bool) \<Rightarrow> bool act" where
  "wing_decision chain wing cache =
     (case cache wing of
        Some ok \<Rightarrow> act_ok ok
      | None \<Rightarrow> act_bind (attempt (get_container_fingerprint wing WING_ROLLUP_ROOM)) (\<lambda>r.
          act_ok (case r of Inr (Some fp) \<Rightarrow> container_survives chain fp | _ \<Rightarrow> True)))"

fun scan_rooms :: "env \<Rightarrow> filter list \<Rightarrow> ((string \<times> string) \<times> container_fingerprint) list \<Rightarrow> (string \<rightharpoonup> bool)
    \<Rightarrow> (drawer list \<times> bool) act" where
  "scan_rooms env chain [] cache = act_ok ([], False)"
| "scan_rooms env chain (((wing, room), fp) # entries) cache =
     act_bind (wing_decision chain wing cache) (\<lambda>wing_ok.
     let cache = cache(wing \<mapsto> wing_ok)
     in if \<not> wing_ok \<or> \<not> container_survives chain fp then scan_rooms env chain entries cache
        else act_bind (attempt (drawers_in_wing_room env wing room)) (\<lambda>r.
          act_bind (scan_rooms env chain entries cache) (\<lambda>(rows, failed).
          act_ok (case r of Inr ds \<Rightarrow> (ds @ rows, failed) | Inl _ \<Rightarrow> (rows, True)))))"

definition pruned_candidates :: "env \<Rightarrow> filter list \<Rightarrow> nat \<Rightarrow> (drawer list \<times> string list) act" where
  "pruned_candidates env chain bound =
     act_bind (attempt room_level_fingerprints) (\<lambda>r.
     act_bind (scan_rooms env chain (case r of Inr es \<Rightarrow> es | Inl _ \<Rightarrow> []) Map.empty) (\<lambda>(rows, failed).
     act_ok (take bound rows,
       (case r of Inl _ \<Rightarrow> [ROOM_FINGERPRINTS_READ_FAILED] | Inr _ \<Rightarrow> [])
       @ (if failed then [ROOM_DRAWER_READ_FAILED] else []))))"

definition scanned_candidates :: "'h recall_frame \<Rightarrow> nat \<Rightarrow> (drawer list \<times> string list) act" where
  "scanned_candidates frame bound =
     act_bind (attempt
       (if chain_has_content_predicate (filter_chain frame) \<or> frame_hydration frame = Full
        then all_drawers_bounded_desc (Some bound) else all_drawers_bounded_projected_desc (Some bound))) (\<lambda>r.
     act_ok (case r of
         Inr rows \<Rightarrow> (filter (\<lambda>d. drawer_tombstoned_at d = None) rows, [])
       | Inl _ \<Rightarrow> ([], [LIVE_ROWS_READ_FAILED])))"

definition new_trace :: "env \<Rightarrow> string \<Rightarrow> string \<Rightarrow> recall_trace act" where
  "new_trace env target recalled_at =
     act_bind (draw_uuid env) (\<lambda>iid.
     act_ok \<lparr>trace_id = iid, trace_target = target, trace_recalled_at = recalled_at, trace_operational = 0\<rparr>)"

fun new_traces :: "env \<Rightarrow> string \<Rightarrow> drawer list \<Rightarrow> recall_trace list act" where
  "new_traces env recalled_at [] = act_ok []"
| "new_traces env recalled_at (d # ds) =
     act_bind (new_trace env (drawer_id d) recalled_at) (\<lambda>t.
     act_bind (new_traces env recalled_at ds) (\<lambda>ts. act_ok (t # ts)))"

definition insert_recall_traces :: "recall_trace list \<Rightarrow> unit act" where
  "insert_recall_traces = for_each (insert_row es_traces es_traces_update trace_id)"

definition write_traces :: "env \<Rightarrow> 'h recall_frame \<Rightarrow> drawer list \<Rightarrow> int \<Rightarrow> string list act" where
  "write_traces env frame filtered now =
     (case trace_limit frame of
        None \<Rightarrow> act_ok []
      | Some n \<Rightarrow>
          let count = min n (length filtered)
          in if count = 0 then act_ok []
             else act_bind (new_traces env (env_iso8601 env now) (take count filtered)) (\<lambda>traces.
               act_bind (attempt (insert_recall_traces traces)) (\<lambda>r.
               act_ok (case r of Inl _ \<Rightarrow> [TRACE_WRITE_FAILED] | Inr _ \<Rightarrow> []))))"

text \<open>
  The reconstruction at an earlier time reads the audit log; \<open>history\<close> gives its result from the
  log of the state. \<open>pc\<close> and \<open>lower\<close> are those of the evaluator.
\<close>

type_synonym 'h history = "audit_event list \<Rightarrow> string \<Rightarrow> 'h \<Rightarrow> estate_error + projected_row_state option"

definition evaluate_candidates :: "env \<Rightarrow> (i64 \<Rightarrow> nat) \<Rightarrow> 'h history \<Rightarrow> (string \<Rightarrow> string) \<Rightarrow> 'h recall_frame \<Rightarrow> drawer list
    \<Rightarrow> drawer list act" where
  "evaluate_candidates env pc history lower frame ds =
     act_bind (resolve_node_names_for_drawers env ds) (\<lambda>names s.
       (evaluate (env_extract env) pc (history (es_audit s)) lower frame ds names, s))"

definition recall :: "env \<Rightarrow> (i64 \<Rightarrow> nat) \<Rightarrow> 'h history \<Rightarrow> (string \<Rightarrow> string) \<Rightarrow> 'h recall_frame \<Rightarrow> int
    \<Rightarrow> recall_stream act" where
  "recall env pc history lower frame now =
     (let limit = (case frame_limit frame of Some n \<Rightarrow> n | None \<Rightarrow> 0);
          bound = max limit RECALL_CANDIDATE_CAP
      in act_bind
           (if chain_has_prunable_filter (filter_chain frame)
            then pruned_candidates env (filter_chain frame) bound else scanned_candidates frame bound)
           (\<lambda>(candidates, stages).
         act_bind
           (if stages \<noteq> [] then act_ok ([], stages)
            else act_bind (attempt (evaluate_candidates env pc history lower frame candidates)) (\<lambda>r.
              act_ok (case r of Inr f \<Rightarrow> (f, stages) | Inl _ \<Rightarrow> ([], stages @ [BITMAP_EVAL_FAILED]))))
           (\<lambda>(filtered, stages).
         act_bind (write_traces env frame filtered now) (\<lambda>trace_stages.
         let page_size = (case frame_limit frame of Some n \<Rightarrow> n | None \<Rightarrow> DEFAULT_PAGE_SIZE)
         in act_ok (with_degraded_stages (stages @ trace_stages)
              (recall_stream_new filtered page_size (frame_hydration frame)))))))"

text \<open>The load by ids: the drawers that load, the evaluation over them, and the stripping after it.\<close>

fun load_ids :: "string list \<Rightarrow> drawer list act" where
  "load_ids [] = act_ok []"
| "load_ids (iid # ids) =
     act_bind (get_drawer iid) (\<lambda>found.
     act_bind (load_ids ids) (\<lambda>rest.
     act_ok (case found of Some d \<Rightarrow> d # rest | None \<Rightarrow> rest)))"

definition get_drawers_matching_frame :: "env \<Rightarrow> (i64 \<Rightarrow> nat) \<Rightarrow> 'h history \<Rightarrow> (string \<Rightarrow> string) \<Rightarrow> string list
    \<Rightarrow> 'h recall_frame \<Rightarrow> (drawer list \<times> string set) act" where
  "get_drawers_matching_frame env pc history lower ids frame =
     act_bind (load_ids ids) (\<lambda>loaded.
     act_bind (evaluate_candidates env pc history lower frame loaded) (\<lambda>admissible.
     act_ok (if frame_hydration frame = BitmapOnly then map (\<lambda>d. d\<lparr>content := []\<rparr>) admissible else admissible,
       drawer_id ` set loaded)))"

end
