(* ===== verification/Estate_Logic.thy ===== *)
theory Estate_Logic
  imports Estate_Verbs
begin

text \<open>
  What the actions of an estate do when the storage does not fail, and a small Hoare logic for them.
\<close>

section \<open>Actions without failing storage\<close>

lemma act_simps [simp]:
  "act_ok a s = (Inr a, s)" "act_fail e s = (Inl e, s)"
  "act_bind (act_ok a) f = f a" "act_seq (act_ok ()) m = m"
  "act_bind (act_fail e) f = act_fail e" "act_seq (act_fail e) m = act_fail e"
  by (simp_all add: fun_eq_iff act_ok_def act_fail_def act_bind_def act_seq_def)

lemma act_bind_Inr: "m s = (Inr a, s') \<Longrightarrow> act_bind m f s = f a s'"
  by (simp add: act_bind_def)

lemma act_bind_Inl: "m s = (Inl e, s') \<Longrightarrow> act_bind m f s = (Inl e, s')"
  by (simp add: act_bind_def)

lemma act_seq_Inr: "m s = (Inr a, s') \<Longrightarrow> act_seq m n s = n s'"
  by (simp add: act_seq_def act_bind_def)

lemma act_seq_Inl: "m s = (Inl e, s') \<Longrightarrow> act_seq m n s = (Inl e, s')"
  by (simp add: act_seq_def act_bind_def)

lemma attempt_eq: "m s = (r, s') \<Longrightarrow> attempt m s = (Inr r, s')"
  by (simp add: attempt_def)

definition quiet :: "estate \<Rightarrow> bool" where
  "quiet s \<longleftrightarrow> es_io s = []"

lemma storage_quiet:
  "quiet s \<Longrightarrow> storage f s = (case f s of Inl e \<Rightarrow> (Inl (DatabaseUnavailable e), s) | Inr (a, s') \<Rightarrow> (Inr a, s'))"
proof -
  assume "quiet s"
  then have "s\<lparr>es_io := []\<rparr> = s" "es_io s = []" by (cases s, simp add: quiet_def)+
  then show ?thesis by (simp only: storage_def Let_def list.sel(2) list.case)
qed

lemma query_quiet [simp]: "quiet s \<Longrightarrow> query_rows t p s = (Inr (filter p (t s)), s)"
  by (simp add: query_rows_def storage_quiet)

lemma query_one_quiet [simp]: "quiet s \<Longrightarrow> query_one t p s = (Inr (List.find p (t s)), s)"
  by (simp add: query_one_def storage_quiet)

lemma query_sorted_quiet [simp]:
  "quiet s \<Longrightarrow> query_sorted t key limit p s =
    (Inr (case limit of Some n \<Rightarrow> take n (sort_key key (filter p (t s))) | None \<Rightarrow> sort_key key (filter p (t s))), s)"
  by (simp add: query_sorted_def storage_quiet Let_def)

lemma query_bind [simp]:
  "quiet s \<Longrightarrow> act_bind (query_rows t p) f s = f (filter p (t s)) s"
  "quiet s \<Longrightarrow> act_bind (query_one t p) g s = g (List.find p (t s)) s"
  by (simp_all add: act_bind_def)

lemma fp_put_quiet [simp]:
  "quiet s \<Longrightarrow> fp_put wing room fp s = (Inr (), s\<lparr>es_fps := AList.update (wing, room) fp (es_fps s)\<rparr>)"
  by (simp add: fp_put_def storage_quiet)

lemma fp_open_quiet [simp]: "quiet s \<Longrightarrow> fp_open s = (Inr (), s)"
  by (simp add: fp_open_def storage_quiet)

lemma find_map_of: "List.find (\<lambda>(k, _). k = key) xs = map_option (Pair key) (map_of xs key)"
  by (induction xs) auto

lemma fp_get_quiet [simp]: "quiet s \<Longrightarrow> fp_get wing room s = (Inr (map_of (es_fps s) (wing, room)), s)"
  by (simp add: fp_get_def act_bind_def find_map_of option.map_comp o_def option.map_ident)

lemma quiet_update [simp]:
  "quiet (s\<lparr>es_drawers := a\<rparr>) = quiet s" "quiet (s\<lparr>es_nodes := b\<rparr>) = quiet s" "quiet (s\<lparr>es_fps := c\<rparr>) = quiet s"
  "quiet (s\<lparr>es_tunnels := e\<rparr>) = quiet s" "quiet (s\<lparr>es_audit := f\<rparr>) = quiet s" "quiet (s\<lparr>es_traces := g\<rparr>) = quiet s"
  "quiet (s\<lparr>es_drawn := h\<rparr>) = quiet s"
  by (simp_all add: quiet_def)

section \<open>A Hoare logic\<close>

text \<open>From a state in \<open>P\<close>, a result satisfies \<open>Q\<close> and an error leaves a state in \<open>E\<close>.\<close>

definition triple :: "(estate \<Rightarrow> bool) \<Rightarrow> 'a act \<Rightarrow> ('a \<Rightarrow> estate \<Rightarrow> bool) \<Rightarrow> (estate \<Rightarrow> bool) \<Rightarrow> bool" where
  "triple P m Q E \<longleftrightarrow> (\<forall>s. P s \<longrightarrow> (case m s of (Inr a, s') \<Rightarrow> Q a s' | (Inl _, s') \<Rightarrow> E s'))"

named_theorems act_rules

lemma triple_ok: "(\<And>s. P s \<Longrightarrow> Q a s) \<Longrightarrow> triple P (act_ok a) Q E"
  by (simp add: triple_def)

lemma triple_fail: "(\<And>s. P s \<Longrightarrow> E s) \<Longrightarrow> triple P (act_fail e) Q E"
  by (simp add: triple_def)

lemma triple_bind: "triple P m R E \<Longrightarrow> (\<And>a. triple (R a) (f a) Q E) \<Longrightarrow> triple P (act_bind m f) Q E"
  by (fastforce simp: triple_def act_bind_def split: prod.splits sum.splits)

lemma triple_seq: "triple P m (\<lambda>_. R) E \<Longrightarrow> triple R n Q E \<Longrightarrow> triple P (act_seq m n) Q E"
  unfolding act_seq_def by (rule triple_bind)

lemma triple_attempt:
  "triple P m (\<lambda>a. Q (Inr a)) (\<lambda>s. \<forall>e. Q (Inl e) s) \<Longrightarrow> triple P (attempt m) Q E"
  unfolding triple_def attempt_def
proof (intro allI impI)
  fix s assume m: "\<forall>s. P s \<longrightarrow> (case m s of (Inl _, s') \<Rightarrow> \<forall>e. Q (Inl e) s' | (Inr a, s') \<Rightarrow> Q (Inr a) s')" "P s"
  obtain r s' where "m s = (r, s')" by force
  then show "case case m s of (r, s) \<Rightarrow> (Inr r, s) of (Inl _, s) \<Rightarrow> E s | (Inr a, s) \<Rightarrow> Q a s"
    using m by (cases r) fastforce+
qed

lemma triple_weaken:
  "triple P m Q E \<Longrightarrow> (\<And>s. P' s \<Longrightarrow> P s) \<Longrightarrow> (\<And>a s. Q a s \<Longrightarrow> Q' a s) \<Longrightarrow> (\<And>s. E s \<Longrightarrow> E' s) \<Longrightarrow> triple P' m Q' E'"
  by (fastforce simp: triple_def split: prod.splits sum.splits)

lemma triple_result:
  assumes "triple P m Q E" "P s" "m s = (r, s')"
  shows "case r of Inr a \<Rightarrow> Q a s' | Inl _ \<Rightarrow> E s'"
  using assms by (fastforce simp: triple_def split: sum.splits)

definition keeps :: "(estate \<Rightarrow> bool) \<Rightarrow> 'a act \<Rightarrow> bool" where
  "keeps I m \<longleftrightarrow> triple I m (\<lambda>_. I) I"

lemma keeps_ok [intro!]: "keeps I (act_ok a)"
  by (simp add: keeps_def triple_ok)

lemma keeps_fail [intro!]: "keeps I (act_fail e)"
  by (simp add: keeps_def triple_fail)

lemma keeps_bind [intro!]: "keeps I m \<Longrightarrow> (\<And>a. keeps I (f a)) \<Longrightarrow> keeps I (act_bind m f)"
  unfolding keeps_def by (rule triple_bind)

lemma keeps_seq [intro!]: "keeps I m \<Longrightarrow> keeps I n \<Longrightarrow> keeps I (act_seq m n)"
  unfolding keeps_def by (rule triple_seq)

lemma keeps_attempt [intro!]: "keeps I m \<Longrightarrow> keeps I (attempt m)"
  unfolding keeps_def by (rule triple_attempt) (simp add: triple_def)

lemma keeps_for_each [intro!]: "(\<And>x. x \<in> set xs \<Longrightarrow> keeps I (f x)) \<Longrightarrow> keeps I (for_each f xs)"
  by (induction xs) auto

lemma keeps_iff: "keeps I m \<longleftrightarrow> (\<forall>s. I s \<longrightarrow> I (snd (m s)))"
  by (simp add: keeps_def triple_def split_def sum.case_eq_if)

lemmas keepsI = iffD2 [OF keeps_iff, rule_format]
  and keepsD = iffD1 [OF keeps_iff, rule_format]

lemma keeps_storage: "(\<And>s. I s \<Longrightarrow> quiet s) \<Longrightarrow> (\<And>s a s'. I s \<Longrightarrow> f s = Inr (a, s') \<Longrightarrow> I s') \<Longrightarrow> keeps I (storage f)"
  by (rule keepsI) (auto simp: storage_quiet split: sum.splits prod.splits)

end
