(* ===== verification/Estate_Laws.thy ===== *)
theory Estate_Laws
  imports Estate_Logic
begin

text \<open>
  The invariant of an estate: the containment tree is well formed and every live drawer is covered
  by the aggregates of its room and wing; and its preservation by the verbs.
\<close>

section \<open>The invariant\<close>

text \<open>What the external functions are relied on for.\<close>

definition apply_write :: "(i64 \<Rightarrow> i64 \<Rightarrow> nat \<Rightarrow> nat \<Rightarrow> i64) \<Rightarrow> field_write \<Rightarrow> bitmaps \<Rightarrow> bitmaps" where
  "apply_write wr w b =
     (let sl = fw_slot w; put = (\<lambda>bits. wr (fw_value w) bits (slot_shift sl) (slot_width sl))
      in case (slot_column sl, b) of
           (Adjective, (adj, op, prov)) \<Rightarrow> (put adj, op, prov)
         | (Operational, (adj, op, prov)) \<Rightarrow> (adj, put op, prov)
         | (Provenance, (adj, op, prov)) \<Rightarrow> (adj, op, put prov))"

text \<open>
  Bit fields as \<open>bit_field\<close> has them, OR-reduction, a gate that merges the writes of a request it
  admits into the prior bitmaps, and fresh identifiers that are new and are UUIDs.
\<close>

locale estate_env =
  fixes env :: env
  assumes bits: "bit_field (env_extract env) ref_extract_flag (env_write env) ref_popcount"
    and flag_law: "i < 64 \<Longrightarrow> env_write_flag env v b i = (if v then set_bit i b else unset_bit i b)"
    and or_law: "env_or env a b = a OR b"
    and gate_law: "env_admit env req = Inr after \<Longrightarrow>
      after = fold (apply_write (env_write env)) (req_writes req)
        (case req_prior req of Some b \<Rightarrow> b | None \<Rightarrow> (0, 0, 0))"
    and fresh_inj: "env_fresh env m = env_fresh env n \<Longrightarrow> m = n"
    and fresh_uuid: "env_is_uuid env (env_fresh env n)" "env_fresh env n \<noteq> []"

text \<open>
  A reference implementation: the gate supersedes only active and accepted rows, tombstones neither
  accepted rows (S-3) nor tombstoned ones, and merges the writes of every other request.
\<close>

definition ref_legal :: "row_verb \<Rightarrow> i64 \<Rightarrow> bool" where
  "ref_legal via st \<longleftrightarrow> (case via of VSupersede \<Rightarrow> st \<in> {0, 3} | VTombstone \<Rightarrow> st \<notin> {3, 33} | _ \<Rightarrow> True)"

definition ref_admit :: "gate_request \<Rightarrow> string + bitmaps" where
  "ref_admit req =
     (if (case req_prior req of Some (adj, _, _) \<Rightarrow> \<not> ref_legal (req_verb req) (adj AND 0x3F) | None \<Rightarrow> False)
      then Inl ''illegal transition''
      else Inr (fold (apply_write ref_write_field) (req_writes req)
        (case req_prior req of Some b \<Rightarrow> b | None \<Rightarrow> (0, 0, 0))))"

definition ref_basis :: "field_slot list" where
  "ref_basis = [state_slot, slot Adjective 6 6 ''sensitivity'' None, slot Adjective 12 6 ''exportability'' None,
     slot Adjective 18 6 ''trust'' None, flags_slot]"

definition ref_env :: env where
  "ref_env = \<lparr>env_extract = ref_extract_field, env_write = ref_write_field, env_admit = ref_admit,
     env_basis = ref_basis, env_or = (OR), env_lookup = id, env_is_uuid = (\<lambda>s. s \<noteq> []), env_write_flag = (\<lambda>v b i. if v then set_bit i b else unset_bit i b),
     env_fresh = (\<lambda>n. replicate (Suc n) CHR ''u''), env_lineage = of_nat, env_lineage_text = (\<lambda>_. ''lineage''),
     env_iso8601 = (\<lambda>_. ''now'')\<rparr>"

lemma ref_fresh_inj: "env_fresh ref_env m = env_fresh ref_env n \<Longrightarrow> m = n"
proof -
  assume "env_fresh ref_env m = env_fresh ref_env n"
  then have "length (env_fresh ref_env m) = length (env_fresh ref_env n)" by simp
  then show ?thesis by (simp add: ref_env_def)
qed

interpretation ref_estate: estate_env ref_env
proof (rule estate_env.intro)
  show "env_admit ref_env req = Inr after \<Longrightarrow>
      after = fold (apply_write (env_write ref_env)) (req_writes req)
        (case req_prior req of Some b \<Rightarrow> b | None \<Rightarrow> (0, 0, 0))" for req after
    by (simp add: ref_env_def ref_admit_def split: if_splits)
  show "env_fresh ref_env m = env_fresh ref_env n \<Longrightarrow> m = n" for m n by (rule ref_fresh_inj)
qed (simp_all add: ref_env_def ref_bits.bit_field_axioms)

definition is_child :: "node \<Rightarrow> node \<Rightarrow> bool" where
  "is_child n p \<longleftrightarrow> node_parent n = Some (node_id p) \<and> node_depth n = node_depth p + 1"

definition tree_ok :: "env \<Rightarrow> node list \<Rightarrow> bool" where
  "tree_ok env ns \<longleftrightarrow> distinct (map node_id ns)
     \<and> (\<forall>n \<in> set ns. lookup_name n = env_lookup env (display_name n) \<and> node_lifecycle n = 0
          \<and> node_tombstoned_at n = None \<and> env_is_uuid env (node_id n) \<and> node_id n \<noteq> []
          \<and> (node_depth n = 0 \<and> node_parent n = None
             \<or> 0 < node_depth n \<and> node_depth n \<le> 2 \<and> (\<exists>p \<in> set ns. is_child n p))
          \<and> (node_depth n = 2 \<longrightarrow> display_name n \<noteq> []))
     \<and> (\<forall>n \<in> set ns. \<forall>m \<in> set ns. node_parent n = node_parent m
          \<and> (lookup_name n = lookup_name m \<or> node_parent n = None) \<longrightarrow> n = m)"

definition place :: "node list \<Rightarrow> string \<Rightarrow> string \<times> string \<Rightarrow> bool" where
  "place ns iid wr \<longleftrightarrow> (\<exists>r \<in> set ns. \<exists>w \<in> set ns. node_id r = iid \<and> node_depth r = 2 \<and> is_child r w
     \<and> wr = (display_name w, display_name r))"

definition live :: "drawer \<Rightarrow> bool" where
  "live d \<longleftrightarrow> drawer_tombstoned_at d = None"

definition covered_at :: "((string \<times> string) \<times> container_fingerprint) list \<Rightarrow> string \<times> string \<Rightarrow> drawer \<Rightarrow> bool" where
  "covered_at fps wr d \<longleftrightarrow> (\<exists>fp. map_of fps wr = Some fp \<and> covers fp (operational_bitmap d))"

definition covered :: "estate \<Rightarrow> drawer \<Rightarrow> bool" where
  "covered s d \<longleftrightarrow> (\<forall>wing room. place (es_nodes s) (parent_node_id d) (wing, room) \<longrightarrow>
     covered_at (es_fps s) (wing, room) d \<and> covered_at (es_fps s) (wing, []) d)"

definition base_ok :: "env \<Rightarrow> estate \<Rightarrow> bool" where
  "base_ok env s \<longleftrightarrow> quiet s \<and> tree_ok env (es_nodes s)
     \<and> distinct (map drawer_id (es_drawers s))
     \<and> (\<forall>d \<in> set (es_drawers s). \<exists>wr. place (es_nodes s) (parent_node_id d) wr)
     \<and> distinct (map fst (es_fps s))
     \<and> (\<forall>(wr, fp) \<in> set (es_fps s). snd wr \<noteq> [] \<longrightarrow> (\<exists>iid. place (es_nodes s) iid wr))"

definition covered_but :: "string option \<Rightarrow> estate \<Rightarrow> bool" where
  "covered_but iid s \<longleftrightarrow> (\<forall>d \<in> set (es_drawers s). live d \<and> Some (drawer_id d) \<noteq> iid \<longrightarrow> covered s d)"

definition estate_ok :: "env \<Rightarrow> bool \<Rightarrow> estate \<Rightarrow> bool" where
  "estate_ok env c s \<longleftrightarrow> base_ok env s \<and> (c \<longrightarrow> covered_but None s)"

section \<open>The tree\<close>

lemma tree_unique:
  "tree_ok env ns \<Longrightarrow> n \<in> set ns \<Longrightarrow> m \<in> set ns \<Longrightarrow> node_id n = node_id m \<Longrightarrow> n = m"
  by (auto simp: tree_ok_def distinct_map inj_on_def)

lemma place_unique: "tree_ok env ns \<Longrightarrow> place ns iid wr \<Longrightarrow> place ns iid wr' \<Longrightarrow> wr = wr'"
  unfolding place_def is_child_def using tree_unique by (metis option.inject)

lemma root_unique:
  assumes "tree_ok env ns" "n \<in> set ns" "m \<in> set ns" "node_depth n = 0" "node_depth m = 0"
  shows "n = m"
  using assms unfolding tree_ok_def by (metis less_irrefl)

lemma wing_unique:
  assumes "tree_ok env ns" "n \<in> set ns" "m \<in> set ns" "node_depth n = 1" "node_depth m = 1"
    "lookup_name n = lookup_name m"
  shows "n = m"
proof -
  obtain p q where "p \<in> set ns" "is_child n p" "q \<in> set ns" "is_child m q"
    using assms unfolding tree_ok_def by (metis zero_neq_one)
  moreover have "p = q"
    using root_unique [OF assms(1), of p q] calculation assms(4,5) by (simp add: is_child_def)
  ultimately show ?thesis using assms unfolding tree_ok_def is_child_def by metis
qed

text \<open>Two rooms of the same place are the same node.\<close>

lemma place_inj:
  assumes "tree_ok env ns" "place ns i wr" "place ns j wr"
  shows "i = j"
proof -
  obtain r w r' w' where r: "r \<in> set ns" "w \<in> set ns" "node_id r = i" "node_depth r = 2" "is_child r w"
      "wr = (display_name w, display_name r)"
      "r' \<in> set ns" "w' \<in> set ns" "node_id r' = j" "node_depth r' = 2" "is_child r' w'"
      "wr = (display_name w', display_name r')"
    using assms(2,3) unfolding place_def by blast
  have eq: "lookup_name n = lookup_name m" if "n \<in> set ns" "m \<in> set ns" "display_name n = display_name m" for n m
    using that assms(1) by (simp add: tree_ok_def)
  have "w = w'"
    using wing_unique [OF assms(1) r(2) r(8)] r eq [OF r(2) r(8)] by (simp add: is_child_def)
  then have "node_parent r = node_parent r'" using r by (simp add: is_child_def)
  moreover have "lookup_name r = lookup_name r'" using eq [OF r(1) r(7)] r by simp
  ultimately have "r = r'" using assms(1) r(1,7) unfolding tree_ok_def by blast
  then show ?thesis using r by simp
qed

section \<open>Creating nodes\<close>

lemma place_mono: "place ns iid wr \<Longrightarrow> set ns \<subseteq> set ns' \<Longrightarrow> place ns' iid wr"
  unfolding place_def by blast

text \<open>A larger tree changes no place.\<close>

lemma covered_tree:
  assumes "tree_ok env ns'" "set (es_nodes s) \<subseteq> set ns'" "place (es_nodes s) (parent_node_id d) wr" "covered s d"
  shows "covered (s\<lparr>es_nodes := ns'\<rparr>) d"
proof -
  have "place (es_nodes s) (parent_node_id d) (wing, room)" if "place ns' (parent_node_id d) (wing, room)" for wing room
    using place_unique [OF assms(1) that place_mono [OF assms(3,2)]] assms(3) by simp
  then show ?thesis using assms(4) unfolding covered_def by simp blast
qed

lemma base_ok_tree:
  assumes "base_ok env s" "tree_ok env ns'" "set (es_nodes s) \<subseteq> set ns'"
  shows "base_ok env (s\<lparr>es_nodes := ns'\<rparr>)"
proof -
  have "\<exists>wr. place ns' (parent_node_id d) wr" if "d \<in> set (es_drawers s)" for d
    using that assms(1) place_mono [OF _ assms(3)] unfolding base_ok_def by blast
  moreover have "\<forall>(wr, fp) \<in> set (es_fps s). snd wr \<noteq> [] \<longrightarrow> (\<exists>iid. place ns' iid wr)"
    using assms(1) place_mono [OF _ assms(3)] unfolding base_ok_def by fast
  ultimately show ?thesis using assms(1,2) by (simp add: base_ok_def)
qed

lemma estate_ok_tree:
  assumes "estate_ok env c s" "tree_ok env ns'" "set (es_nodes s) \<subseteq> set ns'"
  shows "estate_ok env c (s\<lparr>es_nodes := ns'\<rparr>)"
proof -
  have base: "base_ok env s" using assms(1) by (simp add: estate_ok_def)
  have "covered (s\<lparr>es_nodes := ns'\<rparr>) d" if d: "d \<in> set (es_drawers s)" "live d" c for d
  proof -
    obtain wr where "place (es_nodes s) (parent_node_id d) wr" using d base unfolding base_ok_def by blast
    moreover have "covered s d" using d assms(1) by (simp add: estate_ok_def covered_but_def)
    ultimately show ?thesis by (rule covered_tree [OF assms(2,3)])
  qed
  then show ?thesis using base_ok_tree [OF base assms(2,3)] by (simp add: estate_ok_def covered_but_def)
qed

lemma estate_ok_drawn [simp]: "estate_ok env c (s\<lparr>es_drawn := k\<rparr>) = estate_ok env c s"
  by (simp add: estate_ok_def base_ok_def covered_but_def covered_def)

lemma draw_uuid_eq: "draw_uuid env s = (Inr (env_fresh env (es_drawn s)), s\<lparr>es_drawn := es_drawn s + 1\<rparr>)"
  by (simp add: draw_uuid_def)

lemma insert_node_quiet:
  "quiet s \<Longrightarrow> insert_node n s = (if node_id n \<in> node_id ` set (es_nodes s)
     then (Inl (DatabaseUnavailable ''duplicate primary key''), s) else (Inr (), s\<lparr>es_nodes := es_nodes s @ [n]\<rparr>))"
  by (simp add: insert_node_def insert_row_def storage_quiet)

lemma find_append_last: "List.find p xs = None \<Longrightarrow> p x \<Longrightarrow> List.find p (xs @ [x]) = Some x"
  by (induction xs) (auto split: if_splits)

lemma find_SomeD: "List.find p xs = Some x \<Longrightarrow> x \<in> set xs \<and> p x"
  by (auto simp: find_Some_iff)

lemma find_unique:
  assumes "x \<in> set xs" "p x" "\<forall>y \<in> set xs. p y \<longrightarrow> y = x"
  shows "List.find p xs = Some x"
proof (cases "List.find p xs")
  case None
  then show ?thesis using assms(1,2) by (auto simp: find_None_iff)
next
  case (Some y)
  then show ?thesis using find_SomeD [OF Some] assms(3) by metis
qed

context estate_env
begin

lemma tree_extend:
  assumes tree: "tree_ok env ns" and p: "p \<in> set ns" "node_depth p < 2"
    and new: "n = new_node (env_fresh env k) (Some (node_id p)) name (env_lookup env name) (node_depth p + 1) now"
    and name: "node_depth p = 1 \<longrightarrow> name \<noteq> []"
    and fresh: "env_fresh env k \<notin> node_id ` set ns"
    and absent: "\<forall>m \<in> set ns. node_parent m = Some (node_id p) \<longrightarrow> lookup_name m \<noteq> env_lookup env name"
  shows "tree_ok env (ns @ [n])"
proof -
  have depth: "0 \<le> node_depth p" using tree p(1) unfolding tree_ok_def by force
  have child: "is_child n p" by (simp add: new new_node_def is_child_def)
  show ?thesis unfolding tree_ok_def
  proof (intro conjI ballI impI)
    show "distinct (map node_id (ns @ [n]))" using tree fresh by (auto simp: tree_ok_def new new_node_def)
  next
    fix m assume "m \<in> set (ns @ [n])"
    then consider "m \<in> set ns" | "m = n" by auto
    note m = this
    from m show "lookup_name m = env_lookup env (display_name m)" "node_lifecycle m = 0"
      "node_tombstoned_at m = None" "env_is_uuid env (node_id m)" "node_id m \<noteq> []"
      by (cases; use tree fresh_uuid in \<open>auto simp: tree_ok_def new new_node_def\<close>)+
    from m show "node_depth m = 0 \<and> node_parent m = None
        \<or> 0 < node_depth m \<and> node_depth m \<le> 2 \<and> (\<exists>p \<in> set (ns @ [n]). is_child m p)"
    proof cases
      case 1
      then show ?thesis using tree unfolding tree_ok_def by fastforce
    next
      case 2
      then show ?thesis using child depth p by (auto simp: new new_node_def)
    qed
    from m show "node_depth m = 2 \<Longrightarrow> display_name m \<noteq> []"
      by cases (use tree name in \<open>auto simp: tree_ok_def new new_node_def\<close>)
  next
    fix m m' assume "m \<in> set (ns @ [n])" "m' \<in> set (ns @ [n])"
      "node_parent m = node_parent m' \<and> (lookup_name m = lookup_name m' \<or> node_parent m = None)"
    then show "m = m'" using tree absent unfolding tree_ok_def by (auto simp: new new_node_def)
  qed
qed

lemma create_node_ok:
  assumes ok: "estate_ok env c s" and p: "p \<in> set (es_nodes s)" "node_id p = pid"
    and name: "node_depth p = 1 \<longrightarrow> name \<noteq> []" and run: "create_node env name pid now s = (r, s')"
  shows "estate_ok env c s' \<and> es_drawers s' = es_drawers s \<and> set (es_nodes s) \<subseteq> set (es_nodes s')
    \<and> (\<forall>n. r = Inr n \<longrightarrow> n \<in> set (es_nodes s') \<and> is_child n p \<and> lookup_name n = env_lookup env name)"
proof -
  have q: "quiet s" and tree: "tree_ok env (es_nodes s)" using ok by (simp_all add: estate_ok_def base_ok_def)
  have found: "List.find (\<lambda>n. node_id n = pid) (es_nodes s) = Some p"
  proof (rule find_unique)
    show "\<forall>y \<in> set (es_nodes s). node_id y = pid \<longrightarrow> y = p"
      by (intro ballI impI, rule tree_unique [OF tree _ p(1)]) (simp_all only: p(2))
  qed (use p in simp_all)
  let ?look = "env_lookup env name"
  let ?active = "\<lambda>n. node_parent n = Some pid \<and> lookup_name n = ?look \<and> node_lifecycle n = 0"
  have start: "create_node env name pid now s =
    (if node_depth p + 1 > 2 then act_fail (InvalidContent ''NodeStore: depth exceeds maximum 2 (I-NT-2)'')
     else act_bind (find_active_node ?look pid) (\<lambda>existing. case existing of Some n \<Rightarrow> act_ok n
       | None \<Rightarrow> act_bind (draw_uuid env) (\<lambda>iid.
           act_seq (insert_node (new_node iid (Some pid) name ?look (node_depth p + 1) now))
           (act_bind (find_active_node ?look pid) (\<lambda>found. case found of Some n \<Rightarrow> act_ok n
             | None \<Rightarrow> act_fail (DatabaseUnavailable
                 ''NodeStore: create-on-demand resolution failed after insert'')))))) s"
    using q found by (simp add: create_node_def Let_def get_node_def act_bind_Inr)
  show ?thesis
  proof (cases "node_depth p + 1 > 2")
    case True
    then show ?thesis using run start ok by auto
  next
    case deep: False
    show ?thesis
    proof (cases "List.find ?active (es_nodes s)")
      case (Some n)
      then have n: "n \<in> set (es_nodes s)" "node_parent n = Some pid" "lookup_name n = ?look" by (auto dest: find_SomeD)
      then obtain p' where "p' \<in> set (es_nodes s)" "is_child n p'" using tree unfolding tree_ok_def by fastforce
      moreover have "p' = p" using tree_unique [OF tree p(1), of p'] calculation n p by (simp add: is_child_def)
      moreover have "r = Inr n" "s' = s"
        using run start deep Some q by (simp_all add: find_active_node_def act_bind_Inr)
      ultimately show ?thesis using ok n by auto
    next
      case None
      let ?k = "es_drawn s" and ?s1 = "s\<lparr>es_drawn := es_drawn s + 1\<rparr>"
      let ?n = "new_node (env_fresh env ?k) (Some pid) name ?look (node_depth p + 1) now"
      let ?s2 = "?s1\<lparr>es_nodes := es_nodes s @ [?n]\<rparr>"
      have step: "create_node env name pid now s = act_seq (insert_node ?n)
           (act_bind (find_active_node ?look pid) (\<lambda>found. case found of Some n \<Rightarrow> act_ok n
             | None \<Rightarrow> act_fail (DatabaseUnavailable
                 ''NodeStore: create-on-demand resolution failed after insert''))) ?s1"
        unfolding start using deep None q by (simp add: find_active_node_def act_bind_Inr draw_uuid_def)
      show ?thesis
      proof (cases "env_fresh env ?k \<in> node_id ` set (es_nodes s)")
        case True
        then have "insert_node ?n ?s1 = (Inl (DatabaseUnavailable ''duplicate primary key''), ?s1)"
          using q by (subst insert_node_quiet) (simp_all add: new_node_def)
        then have "r = Inl (DatabaseUnavailable ''duplicate primary key'')" "s' = ?s1"
          using run step by (simp_all add: act_seq_Inl)
        then show ?thesis using ok by simp
      next
        case False
        then have "insert_node ?n ?s1 = (Inr (), ?s2)"
          using q by (subst insert_node_quiet) (simp_all add: new_node_def)
        moreover have "find_active_node ?look pid ?s2 = (Inr (Some ?n), ?s2)"
          using q find_append_last [OF None, of ?n] by (simp add: find_active_node_def new_node_def)
        ultimately have r: "r = Inr ?n" "s' = ?s2" using run step by (simp_all add: act_seq_Inr act_bind_Inr)
        have "tree_ok env (es_nodes s @ [?n])"
        proof (rule tree_extend [OF tree p(1) _ _ name False])
          show "node_depth p < 2" using deep by simp
          show "?n = new_node (env_fresh env ?k) (Some (node_id p)) name ?look (node_depth p + 1) now"
            by (simp add: p(2))
          show "\<forall>m \<in> set (es_nodes s). node_parent m = Some (node_id p) \<longrightarrow> lookup_name m \<noteq> ?look"
            using None tree p(2) by (auto simp: find_None_iff tree_ok_def)
        qed
        then have "estate_ok env c ?s2"
          by (intro estate_ok_tree) (use ok in auto)
        then show ?thesis using r by (auto simp: new_node_def is_child_def p(2))
      qed
    qed
  qed
qed

end

section \<open>Calls that keep the invariant\<close>

text \<open>An invariant that does not see the audit log, the traces, the tunnels and the drawn identifiers.\<close>

definition core :: "estate \<Rightarrow> drawer list \<times> node list \<times> ((string \<times> string) \<times> container_fingerprint) list \<times> bool" where
  "core s = (es_drawers s, es_nodes s, es_fps s, quiet s)"

definition core_only :: "(estate \<Rightarrow> bool) \<Rightarrow> bool" where
  "core_only I \<longleftrightarrow> (\<forall>s. I s \<longrightarrow> quiet s) \<and> (\<forall>s s'. core s = core s' \<longrightarrow> I s \<longrightarrow> I s')"

lemma core_onlyD: "core_only I \<Longrightarrow> I s \<Longrightarrow> core s' = core s \<Longrightarrow> I s'"
  unfolding core_only_def by metis

lemma keeps_core: "core_only I \<Longrightarrow> (\<And>s. I s \<Longrightarrow> core (snd (m s)) = core s) \<Longrightarrow> keeps I m"
  by (rule keepsI) (metis core_onlyD)

lemma core_storage: "quiet s \<Longrightarrow> (\<And>a s'. f s = Inr (a, s') \<Longrightarrow> core s' = core s) \<Longrightarrow> core (snd (storage f s)) = core s"
  by (auto simp: storage_quiet split: sum.splits prod.splits)

lemma core_only_quiet: "core_only I \<Longrightarrow> I s \<Longrightarrow> quiet s"
  by (simp add: core_only_def)

lemma keeps_core_storage:
  "core_only I \<Longrightarrow> (\<And>s a s'. quiet s \<Longrightarrow> f s = Inr (a, s') \<Longrightarrow> core s' = core s) \<Longrightarrow> keeps I (storage f)"
  by (rule keeps_core) (blast intro: core_storage core_only_quiet)+

lemma keeps_reads [intro!]:
  assumes "core_only I"
  shows "keeps I (query_rows t p)" "keeps I (query_one t p)" "keeps I (query_sorted t key limit p)"
    "keeps I (append_audit ev)" "keeps I (storage (\<lambda>s. Inr (g s, s)))"
    "keeps I (insert_row es_tunnels es_tunnels_update k row)" "keeps I (insert_row es_traces es_traces_update k' row')"
    "keeps I (update_rows es_tunnels_update q f)"
  unfolding query_rows_def query_one_def query_sorted_def append_audit_def insert_row_def update_rows_def
  by (rule keeps_core_storage [OF assms], auto simp: core_def quiet_def Let_def split: if_splits)+

lemma keeps_draws [intro!]:
  assumes "core_only I"
  shows "keeps I (draw_uuid env)" "keeps I (draw_lineage env)"
  by (rule keeps_core [OF assms], simp add: core_def draw_uuid_def draw_lineage_def quiet_def)+

lemma keeps_pure [intro!]:
  "keeps I (validate_non_empty v label)" "keeps I (the_uuid env i label)" "keeps I (admit env what req)"
  "keeps I (require c msg)"
  by (auto simp: validate_non_empty_def the_uuid_def admit_def require_def split: sum.splits)

lemma keeps_read_drawer [intro!]:
  assumes "core_only I"
  shows "keeps I (read_drawer iid f)" "keeps I (read_drawer_bitmap iid g)" "keeps I (read_drawer_udc iid)"
    "keeps I (recomputed_fingerprint iid)" "keeps I (read_bitmaps iid)" "keeps I (get_drawer iid)"
    "keeps I (get_node nid)" "keeps I root_node" "keeps I (find_active_predecessor l e)"
    "keeps I (living_successor_in_lineage l e)" "keeps I (lineage_chain iid)" "keeps I changed_by_or_estate"
    "keeps I (found_drawer iid)" "keeps I (resolve_node_names nids)" "keeps I fp_open"
    "keeps I (insert_tunnel t)" "keeps I (estate_root v)"
proof -
  show r: "keeps I (read_drawer iid f)" for iid and f :: "drawer \<Rightarrow> 'z"
    using assms by (auto simp: read_drawer_def split: option.splits)
  show "keeps I (read_drawer_bitmap iid g)" "keeps I (read_drawer_udc iid)" "keeps I (recomputed_fingerprint iid)"
    unfolding read_drawer_bitmap_def read_drawer_udc_def recomputed_fingerprint_def
    by (auto simp: read_drawer_def split: option.splits intro!: keeps_reads [OF assms])
  show "keeps I (read_bitmaps iid)"
    unfolding read_drawer_bitmap_def read_bitmaps_def
    by (auto simp: read_drawer_def split: option.splits intro!: keeps_reads [OF assms])
  show "keeps I (get_drawer iid)" "keeps I (get_node nid)" "keeps I root_node" "keeps I (find_active_predecessor l e)"
    "keeps I (living_successor_in_lineage l e)" "keeps I (lineage_chain iid)" "keeps I changed_by_or_estate"
    "keeps I (found_drawer iid)" "keeps I (resolve_node_names nids)" "keeps I fp_open" "keeps I (insert_tunnel t)"
    "keeps I (estate_root v)"
    by (auto simp: get_drawer_def get_node_def root_node_def find_active_predecessor_def
        living_successor_in_lineage_def lineage_chain_def changed_by_or_estate_def found_drawer_def
        resolve_node_names_def fp_open_def insert_tunnel_def estate_root_def Let_def
        split: option.splits if_splits intro!: keeps_reads [OF assms])
qed

text \<open>A drawer's update that keeps its id, its node and its operational bits, and does not revive it.\<close>

definition tame :: "(drawer \<Rightarrow> drawer) \<Rightarrow> bool" where
  "tame f \<longleftrightarrow> (\<forall>d. drawer_id (f d) = drawer_id d \<and> parent_node_id (f d) = parent_node_id d
     \<and> operational_bitmap (f d) = operational_bitmap d \<and> (live (f d) \<longrightarrow> live d))"

definition drawers_tame :: "(estate \<Rightarrow> bool) \<Rightarrow> bool" where
  "drawers_tame I \<longleftrightarrow> core_only I
     \<and> (\<forall>s p f. I s \<longrightarrow> tame f \<longrightarrow> I (s\<lparr>es_drawers := map (\<lambda>d. if p d then f d else d) (es_drawers s)\<rparr>))"

lemma drawers_tame_core [simp]: "drawers_tame I \<Longrightarrow> core_only I"
  by (simp add: drawers_tame_def)

lemma drawers_tameD:
  "drawers_tame I \<Longrightarrow> I s \<Longrightarrow> tame f \<Longrightarrow>
    core s' = core (s\<lparr>es_drawers := map (\<lambda>d. if p d then f d else d) (es_drawers s)\<rparr>) \<Longrightarrow> I s'"
  unfolding drawers_tame_def using core_onlyD by blast

lemma keeps_update [intro!]:
  assumes "drawers_tame I" "tame f"
  shows "keeps I (update_drawer iid f)" "keeps I (update_audited iid f ev)"
proof -
  have q: "quiet s" if "I s" for s using that assms(1) core_only_quiet drawers_tame_core by blast
  show "keeps I (update_drawer iid f)" unfolding update_drawer_def update_rows_def
  proof (rule keeps_storage [OF q], assumption)
    fix s a s' assume "I s" "Inr ((), es_drawers_update (map (\<lambda>r. if drawer_id r = iid then f r else r)) s) = Inr (a, s')"
    then have "s' = es_drawers_update (map (\<lambda>r. if drawer_id r = iid then f r else r)) s" by simp
    then have "core s' = core (s\<lparr>es_drawers := map (\<lambda>d. if drawer_id d = iid then f d else d) (es_drawers s)\<rparr>)"
      by (simp add: core_def quiet_def)
    then show "I s'" by (rule drawers_tameD [OF assms(1) \<open>I s\<close> assms(2)])
  qed
  show "keeps I (update_audited iid f ev)" unfolding update_audited_def
  proof (rule keeps_storage [OF q], assumption)
    fix s a s'
    assume "I s" "Inr ((), s\<lparr>es_drawers := map (\<lambda>d. if drawer_id d = iid then f d else d) (es_drawers s),
       es_audit := es_audit s @ [ev]\<rparr>) = Inr (a, s')"
    then have "s' = s\<lparr>es_drawers := map (\<lambda>d. if drawer_id d = iid then f d else d) (es_drawers s),
       es_audit := es_audit s @ [ev]\<rparr>" by simp
    then have "core s' = core (s\<lparr>es_drawers := map (\<lambda>d. if drawer_id d = iid then f d else d) (es_drawers s)\<rparr>)"
      by (simp add: core_def quiet_def)
    then show "I s'" by (rule drawers_tameD [OF assms(1) \<open>I s\<close> assms(2)])
  qed
qed

lemma tame_writes [simp]:
  "tame (scrub after now)" "tame (\<lambda>d. d\<lparr>content := []\<rparr>)" "tame (set_anchor la)"
  "c \<noteq> Operational \<Longrightarrow> tame (set_column c after)"
  by (auto simp: tame_def scrub_def set_anchor_def set_column_def live_def split: bitmap_column.splits prod.splits)

lemma tame_sets_parent: "tame (\<lambda>d. case la of Some a \<Rightarrow> set_anchor a d | None \<Rightarrow> d)"
  by (cases la) (auto simp: tame_def set_anchor_def live_def)

section \<open>Verbs that move no drawer\<close>

lemmas keeps_simp = Let_def split_def option.case_eq_if

lemma keeps_if [intro!]: "(c \<Longrightarrow> keeps I m) \<Longrightarrow> (\<not> c \<Longrightarrow> keeps I n) \<Longrightarrow> keeps I (if c then m else n)"
  by simp

lemma keeps_case_sum [intro!]:
  "(\<And>a. x = Inl a \<Longrightarrow> keeps I (f a)) \<Longrightarrow> (\<And>b. x = Inr b \<Longrightarrow> keeps I (g b)) \<Longrightarrow> keeps I (case x of Inl a \<Rightarrow> f a | Inr b \<Rightarrow> g b)"
  by (cases x) auto

lemma keeps_case_option [intro!]:
  "(x = None \<Longrightarrow> keeps I m) \<Longrightarrow> (\<And>b. x = Some b \<Longrightarrow> keeps I (g b)) \<Longrightarrow> keeps I (case x of None \<Rightarrow> m | Some b \<Rightarrow> g b)"
  by (cases x) auto

lemma keeps_gated:
  assumes I: "drawers_tame I"
  shows "c \<noteq> Operational \<Longrightarrow> keeps I (gated_column_write env iid c v by reason)"
    "c \<noteq> Operational \<Longrightarrow> keeps I (mutate_column env c iid v by reason)"
    "keeps I (mutate_state env iid st via by reason)"
proof -
  note [intro!] = keeps_reads [OF drawers_tame_core [OF I]] keeps_read_drawer [OF drawers_tame_core [OF I]]
    keeps_update [OF I]
  show g: "keeps I (gated_column_write env iid c v by reason)" if "c \<noteq> Operational" for c
    using that by (auto simp: gated_column_write_def Let_def)
  show "keeps I (mutate_column env c iid v by reason)" if "c \<noteq> Operational"
    using g [OF that] by (auto simp: mutate_column_def)
  show "keeps I (mutate_state env iid st via by reason)" by (auto simp: mutate_state_def Let_def)
qed

lemma keeps_moves:
  assumes I: "drawers_tame I"
  shows "keeps I (move_state env iid st via reason)" "keeps I (move_adjective env iid v reason)"
    "keeps I (withdraw env iid reason)"
  using keeps_gated [OF I] drawers_tame_core [OF I]
  by (auto simp: move_state_def move_adjective_def withdraw_def mutate_adjective_def)

lemma keeps_mutate:
  assumes I: "drawers_tame I"
  shows "keeps I (mutate env iid kind payload)"
proof -
  note [intro!] = keeps_read_drawer [OF drawers_tame_core [OF I]] keeps_moves [OF I]
  have p: "keeps I (mutate_provenance env i v by reason)" for i v "by" reason
    by (simp add: mutate_provenance_def keeps_gated [OF I])
  show ?thesis
    by (cases kind) (auto simp: mutate_def Let_def revive_refusal_def p split: State.split)
qed

lemma keeps_expunge:
  assumes I: "drawers_tame I"
  shows "keeps I (expunge_gated env iid by reason now seal)" "keeps I (expunge env iid r confirmed now seal)"
proof -
  note [intro!] = keeps_reads [OF drawers_tame_core [OF I]] keeps_read_drawer [OF drawers_tame_core [OF I]]
    keeps_update [OF I]
  have "keeps I (tombstone_sibling env iid sib adj by now seal)" for sib adj "by"
    by (auto simp: tombstone_sibling_def Let_def)
  then have "keeps I (scrub_sibling env iid by now seal sib)" for sib "by"
    by (auto simp: scrub_sibling_def)
  then show g: "keeps I (expunge_gated env iid by reason now seal)" for "by" reason
    by (auto simp: expunge_gated_def Let_def)
  show "keeps I (expunge env iid r confirmed now seal)" using g by (auto simp: expunge_def Let_def)
qed

lemma keeps_reanchor_anchor:
  assumes I: "drawers_tame I"
  shows "keeps I (reanchor_anchor env iid la by reason now)"
proof -
  note [intro!] = keeps_reads [OF drawers_tame_core [OF I]] keeps_read_drawer [OF drawers_tame_core [OF I]]
    keeps_update [OF I]
  show ?thesis by (auto simp: reanchor_anchor_def reanchor_gated_def new_parent_def Let_def)
qed

lemma keeps_tunnels:
  assumes I: "core_only I"
  shows "keeps I (add_tunnel t)" "keeps I (max_sensitivity env ids best)" "keeps I (capture_tunnel env f now)"
    "keeps I (reparent_drawer env child parent key wing room by now)"
proof -
  note [intro!] = keeps_reads [OF I] keeps_read_drawer [OF I] keeps_draws [OF I]
  show a: "keeps I (add_tunnel t)" for t
    by (auto simp: add_tunnel_def parent_tunnel_of_def split: TunnelKind.split option.split)
  show m: "keeps I (max_sensitivity env ids best)" for ids best
    by (induction ids arbitrary: best) auto
  show "keeps I (capture_tunnel env f now)" using a m by (auto simp: capture_tunnel_def Let_def)
  show "keeps I (reparent_drawer env child parent key wing room by now)"
    using a by (auto simp: reparent_drawer_def parent_tunnel_of_def)
qed

section \<open>The invariant under drawer writes\<close>

text \<open>
  The invariant between the insert of a drawer and the write of its aggregates: the drawer of the id
  may be uncovered, and the ids of the drawers are known.
\<close>

definition mid_ok :: "env \<Rightarrow> bool \<Rightarrow> string option \<Rightarrow> string list \<Rightarrow> node list \<Rightarrow> estate \<Rightarrow> bool" where
  "mid_ok env c iid ids ns s \<longleftrightarrow> base_ok env s \<and> (c \<longrightarrow> covered_but iid s) \<and> map drawer_id (es_drawers s) = ids \<and> es_nodes s = ns"

lemma base_ok_core: "core s' = core s \<Longrightarrow> base_ok env s' = base_ok env s"
  by (simp add: core_def base_ok_def)

lemma covered_but_core: "core s' = core s \<Longrightarrow> covered_but iid s' = covered_but iid s"
  by (simp add: core_def covered_but_def covered_def)

lemma mid_ok_core: "core_only (mid_ok env c iid ids ns)"
  unfolding core_only_def
proof (intro conjI allI impI)
  fix s s' assume c: "core s = core s'" and m: "mid_ok env c iid ids ns s"
  then have "es_drawers s' = es_drawers s" "es_nodes s' = es_nodes s" by (simp_all add: core_def)
  then show "mid_ok env c iid ids ns s'"
    using m base_ok_core [OF c] covered_but_core [OF c] by (simp add: mid_ok_def)
qed (simp add: mid_ok_def base_ok_def)

lemma tame_if: "tame f \<Longrightarrow> tame (\<lambda>d. if p d then f d else d)"
  by (auto simp: tame_def)

lemma base_ok_tame:
  assumes "base_ok env s" "tame f"
  shows "base_ok env (s\<lparr>es_drawers := map f (es_drawers s)\<rparr>)" "map drawer_id (map f ds) = map drawer_id ds"
proof -
  show ids: "map drawer_id (map f ds) = map drawer_id ds" for ds using assms(2) by (simp add: tame_def)
  show "base_ok env (s\<lparr>es_drawers := map f (es_drawers s)\<rparr>)"
    using assms ids [of "es_drawers s"] by (simp only: base_ok_def) (simp add: tame_def o_def)
qed

lemma covered_but_tame:
  "covered_but iid s \<Longrightarrow> tame f \<Longrightarrow> covered_but iid (s\<lparr>es_drawers := map f (es_drawers s)\<rparr>)"
  by (simp add: covered_but_def covered_def covered_at_def tame_def)

lemma mid_ok_tame: "drawers_tame (mid_ok env c iid ids ns)"
  unfolding drawers_tame_def
proof (intro conjI allI impI)
  fix s p f assume m: "mid_ok env c iid ids ns s" and f: "tame f"
  have b: "base_ok env s" "c \<Longrightarrow> covered_but iid s" "map drawer_id (es_drawers s) = ids" "es_nodes s = ns"
    using m by (simp_all add: mid_ok_def)
  show "mid_ok env c iid ids ns (s\<lparr>es_drawers := map (\<lambda>d. if p d then f d else d) (es_drawers s)\<rparr>)"
    unfolding mid_ok_def
    using base_ok_tame(1) [OF b(1) tame_if [OF f]] base_ok_tame(2) [OF b(1) tame_if [OF f], of p "es_drawers s"]
      covered_but_tame [OF b(2) tame_if [OF f]] b(3,4) by simp
qed (rule mid_ok_core)

lemma estate_ok_mid: "estate_ok env c s \<longleftrightarrow> mid_ok env c None (map drawer_id (es_drawers s)) (es_nodes s) s"
  by (simp add: estate_ok_def mid_ok_def)

lemma estate_ok_tame: "drawers_tame (estate_ok env c)"
  unfolding drawers_tame_def core_only_def
proof (intro conjI allI impI)
  fix s s' assume c: "core s = core s'" and e: "estate_ok env c s"
  then show "estate_ok env c s'" using base_ok_core [OF c] covered_but_core [OF c] by (simp add: estate_ok_def)
next
  fix s p f assume e: "estate_ok env c s" and f: "tame f"
  show "estate_ok env c (s\<lparr>es_drawers := map (\<lambda>d. if p d then f d else d) (es_drawers s)\<rparr>)"
    using e base_ok_tame(1) [OF _ tame_if [OF f]] covered_but_tame [OF _ tame_if [OF f]]
    by (simp add: estate_ok_def)
qed (simp add: estate_ok_def base_ok_def)

section \<open>Names and aggregates\<close>

text \<open>A row with the id, the node and the operational bits of \<open>d\<close>.\<close>

definition like :: "drawer \<Rightarrow> estate \<Rightarrow> bool" where
  "like d s \<longleftrightarrow> (\<exists>e \<in> set (es_drawers s). drawer_id e = drawer_id d \<and> parent_node_id e = parent_node_id d
     \<and> operational_bitmap e = operational_bitmap d)"

lemma like_tame: "like d s \<Longrightarrow> tame f \<Longrightarrow> like d (s\<lparr>es_drawers := map (\<lambda>d. if p d then f d else d) (es_drawers s)\<rparr>)"
proof -
  assume "like d s" "tame f"
  then obtain e where "e \<in> set (es_drawers s)" "drawer_id e = drawer_id d" "parent_node_id e = parent_node_id d"
    "operational_bitmap e = operational_bitmap d" by (auto simp: like_def)
  then show ?thesis using \<open>tame f\<close> unfolding like_def
    by (intro bexI [of _ "if p e then f e else e"]) (auto simp: tame_def)
qed

lemma map_of_keyed:
  assumes "distinct (map f xs)" "x \<in> set xs"
  shows "map_of (map (\<lambda>x. (f x, g x)) xs) (f x) = Some (g x)"
    "map_of (rev (map (\<lambda>x. (f x, g x)) xs)) (f x) = Some (g x)"
proof -
  have "distinct (map fst (map (\<lambda>x. (f x, g x)) xs))" "(f x, g x) \<in> set (map (\<lambda>x. (f x, g x)) xs)"
    using assms by (simp_all add: o_def)
  then show "map_of (map (\<lambda>x. (f x, g x)) xs) (f x) = Some (g x)"
    "map_of (rev (map (\<lambda>x. (f x, g x)) xs)) (f x) = Some (g x)"
    by (simp_all add: rev_map [symmetric])
qed

lemma find_node: "tree_ok env ns \<Longrightarrow> r \<in> set ns \<Longrightarrow> List.find (\<lambda>n. node_id n = node_id r) ns = Some r"
  by (rule find_unique) (auto intro: tree_unique)

lemma place_names:
  assumes tree: "tree_ok env (es_nodes s)" and q: "quiet s" and i: "iid \<in> set ids" "place (es_nodes s) iid wr"
    and run: "resolve_node_names ids s = (r, s')"
  shows "\<exists>names. r = Inr names \<and> s' = s \<and> names iid = Some wr"
proof -
  let ?ns = "es_nodes s"
  obtain room w where n: "room \<in> set ?ns" "w \<in> set ?ns" "node_id room = iid" "is_child room w"
    "wr = (display_name w, display_name room)"
    using i(2) unfolding place_def by blast
  let ?rooms = "filter (\<lambda>n. node_id n \<in> set ids) ?ns"
  let ?wings = "filter (\<lambda>n. node_id n \<in> parent_text ` set ?rooms) ?ns"
  let ?wing_names = "map_of (rev (map (\<lambda>w. (node_id w, display_name w)) ?wings))"
  let ?g = "\<lambda>r. (case ?wing_names (parent_text r) of Some w \<Rightarrow> w | None \<Rightarrow> [], display_name r)"
  have dist: "distinct (map node_id ?ns)" using tree by (simp add: tree_ok_def)
  have room: "room \<in> set ?rooms" using n i by simp
  then have rooms: "?rooms \<noteq> []" by (metis empty_iff list.set(1))
  have ids: "ids \<noteq> []" using i(1) by auto
  have "resolve_node_names ids s = (Inr (map_of (rev (map (\<lambda>r. (node_id r, ?g r)) ?rooms))), s)"
    by (simp only: resolve_node_names_def ids rooms if_False query_bind(1) [OF q] Let_def act_simps(1))
  then have run: "r = Inr (map_of (rev (map (\<lambda>r. (node_id r, ?g r)) ?rooms)))" "s' = s"
    using run by (simp_all only: prod.inject)
  have pt: "parent_text room = node_id w" using n(4) by (simp add: parent_text_def is_child_def)
  then have "w \<in> set ?wings" using n room by force
  then have "?wing_names (node_id w) = Some (display_name w)"
    by (rule map_of_keyed(2) [OF distinct_map_filter [OF dist]])
  then have "?g room = wr" using pt n by simp
  then have "map_of (rev (map (\<lambda>r. (node_id r, ?g r)) ?rooms)) iid = Some wr"
    using map_of_keyed(2) [OF distinct_map_filter [OF dist] room, of ?g] n(3) by simp
  then show ?thesis using run by blast
qed

definition merged :: "env \<Rightarrow> string \<times> string \<Rightarrow> container_fingerprint \<Rightarrow> ((string \<times> string) \<times> container_fingerprint) list
    \<Rightarrow> ((string \<times> string) \<times> container_fingerprint) list" where
  "merged env key delta fps = AList.update key (merging env (case map_of fps key of Some fp \<Rightarrow> fp | None \<Rightarrow> cf_zero) delta) fps"

context estate_env
begin

lemma covers_merging [simp]:
  "covers fp op \<Longrightarrow> covers (merging env fp delta) op"
  "covers (merging env fp (drawer_fp d)) (operational_bitmap d)"
  by (auto simp: covers_def merging_def drawer_fp_def or_law bit_eq_iff bit_and_iff bit_or_iff bit_not_iff)

lemma or_into_quiet: "quiet s \<Longrightarrow> or_into env wing room delta s = (Inr (), s\<lparr>es_fps := merged env (wing, room) delta (es_fps s)\<rparr>)"
  by (simp add: or_into_def act_bind_Inr merged_def)

lemma map_of_merged:
  "map_of (merged env key delta fps) k = (if k = key then Some (merging env (case map_of fps key of Some fp \<Rightarrow> fp | None \<Rightarrow> cf_zero) delta)
     else map_of fps k)"
  by (simp add: merged_def update_conv')

lemma covered_at_merged: "covered_at fps wr d \<Longrightarrow> covered_at (merged env key delta fps) wr d"
  by (auto simp: covered_at_def map_of_merged)

lemma covered_at_own: "covered_at (merged env key (drawer_fp d) fps) key d"
  by (simp add: covered_at_def map_of_merged)

lemma merged_keys:
  "distinct (map fst fps) \<Longrightarrow> distinct (map fst (merged env key delta fps))"
  "(wr, fp) \<in> set (merged env key delta fps) \<Longrightarrow> wr = key \<or> wr \<in> fst ` set fps"
proof -
  show "distinct (map fst fps) \<Longrightarrow> distinct (map fst (merged env key delta fps))"
    unfolding merged_def by (rule distinct_update)
  assume "(wr, fp) \<in> set (merged env key delta fps)"
  then have "wr \<in> fst ` set (merged env key delta fps)" by force
  then show "wr = key \<or> wr \<in> fst ` set fps" by (simp add: merged_def dom_update)
qed

lemma base_ok_merged:
  assumes "base_ok env s" "snd key \<noteq> [] \<longrightarrow> (\<exists>iid. place (es_nodes s) iid key)"
  shows "base_ok env (s\<lparr>es_fps := merged env key delta (es_fps s)\<rparr>)"
proof -
  have "snd wr \<noteq> [] \<longrightarrow> (\<exists>iid. place (es_nodes s) iid wr)" if "(wr, fp) \<in> set (merged env key delta (es_fps s))" for wr fp
  proof -
    have "snd wr' \<noteq> [] \<longrightarrow> (\<exists>iid. place (es_nodes s) iid wr')" if "wr' \<in> fst ` set (es_fps s)" for wr'
      using assms(1) that unfolding base_ok_def by force
    then show ?thesis using merged_keys(2) [OF that] assms(2) by blast
  qed
  then have "\<forall>(wr, fp) \<in> set (merged env key delta (es_fps s)). snd wr \<noteq> [] \<longrightarrow> (\<exists>iid. place (es_nodes s) iid wr)"
    by blast
  then show ?thesis using assms(1) merged_keys(1) unfolding base_ok_def by simp
qed

lemma covered_but_merged: "covered_but iid s \<Longrightarrow> covered_but iid (s\<lparr>es_fps := merged env key delta (es_fps s)\<rparr>)"
  by (simp add: covered_but_def covered_def covered_at_merged)

text \<open>The aggregates of a drawer's containers make it covered.\<close>

lemma or_in_drawer_ok:
  assumes mid: "base_ok env s" "c \<Longrightarrow> covered_but (Some (drawer_id d)) s" and d: "like d s"
    and run: "or_in_drawer env d s = (r, s')"
  shows "r = Inr () \<and> estate_ok env c s' \<and> es_drawers s' = es_drawers s \<and> es_nodes s' = es_nodes s"
proof -
  obtain e where e: "e \<in> set (es_drawers s)" "drawer_id e = drawer_id d" "parent_node_id e = parent_node_id d"
    "operational_bitmap e = operational_bitmap d" using d by (auto simp: like_def)
  have q: "quiet s" and tree: "tree_ok env (es_nodes s)" using mid by (simp_all add: base_ok_def)
  obtain wing room where p: "place (es_nodes s) (parent_node_id d) (wing, room)"
    using mid(1) e(1,3) unfolding base_ok_def by (metis surj_pair)
  obtain rn sn where "resolve_node_names [parent_node_id d] s = (rn, sn)" by force
  then obtain names where names: "resolve_node_names [parent_node_id d] s = (Inr names, s)"
      "names (parent_node_id d) = Some (wing, room)"
    using place_names [OF tree q _ p, of "[parent_node_id d]" rn sn] by auto
  let ?f1 = "merged env (wing, room) (drawer_fp d) (es_fps s)"
  let ?f2 = "merged env (wing, []) (drawer_fp d) ?f1"
  let ?s1 = "s\<lparr>es_fps := ?f1\<rparr>" and ?s2 = "s\<lparr>es_fps := ?f2\<rparr>"
  have run: "r = Inr ()" "s' = ?s2"
    using run q names by (simp_all add: or_in_drawer_def act_seq_Inr act_bind_Inr names_or_empty_def or_in_def
        or_into_quiet WING_ROLLUP_ROOM_def)
  have b1: "base_ok env ?s1" using base_ok_merged [OF mid(1)] p by blast
  have b2: "base_ok env ?s2" using base_ok_merged [OF b1, of "(wing, [])" "drawer_fp d"] by simp
  have c2: "covered_but (Some (drawer_id d)) ?s2" if c
    using that covered_but_merged [OF covered_but_merged [OF mid(2)], of "(wing, [])" "drawer_fp d" "(wing, room)" "drawer_fp d"]
    by simp
  have "covered ?s2 d"
    using place_unique [OF tree p] covered_at_own covered_at_merged by (auto simp: covered_def)
  then have own: "covered ?s2 e" using e by (simp add: covered_def covered_at_def)
  have "x = e" if "x \<in> set (es_drawers s)" "drawer_id x = drawer_id d" for x
    using that e mid(1) by (auto simp: base_ok_def distinct_map inj_on_def)
  then have "covered_but None ?s2" if c using that c2 own by (auto simp: covered_but_def)
  then show ?thesis using run b2 by (simp add: estate_ok_def)
qed

end

section \<open>Adding a drawer\<close>

lemma triple_conj: "triple P m Q E \<Longrightarrow> triple P m Q' E' \<Longrightarrow> triple P m (\<lambda>a s. Q a s \<and> Q' a s) (\<lambda>s. E s \<and> E' s)"
  by (fastforce simp: triple_def split: prod.splits sum.splits)

lemma triple_keeps: "keeps I m \<Longrightarrow> (\<And>s. P s \<Longrightarrow> I s) \<Longrightarrow> (\<And>s. I s \<Longrightarrow> E s) \<Longrightarrow> triple P m (\<lambda>_. I) E"
  unfolding keeps_def by (rule triple_weaken)

text \<open>
  Where an insert of \<open>d\<close> stands: not begun, done without the aggregates, or done. A failure leaves
  the invariant intact unless the drawer stays.
\<close>

definition before :: "env \<Rightarrow> bool \<Rightarrow> string list \<Rightarrow> node list \<Rightarrow> estate \<Rightarrow> bool" where
  "before env c ids ns = mid_ok env c None ids ns"

definition stored :: "env \<Rightarrow> bool \<Rightarrow> string list \<Rightarrow> node list \<Rightarrow> drawer \<Rightarrow> estate \<Rightarrow> bool" where
  "stored env c ids ns d s \<longleftrightarrow> mid_ok env c (Some (drawer_id d)) (ids @ [drawer_id d]) ns s \<and> like d s"

definition refused :: "env \<Rightarrow> bool \<Rightarrow> string list \<Rightarrow> node list \<Rightarrow> estate \<Rightarrow> bool" where
  "refused env c ids ns s \<longleftrightarrow> base_ok env s \<and> es_nodes s = ns \<and> (map drawer_id (es_drawers s) = ids \<longrightarrow> estate_ok env c s)"

lemma before_refused: "before env c ids ns s \<Longrightarrow> refused env c ids ns s"
  by (simp add: before_def refused_def mid_ok_def estate_ok_def)

lemma stored_refused: "stored env c ids ns d s \<Longrightarrow> refused env c ids ns s"
  by (simp add: stored_def refused_def mid_ok_def)

lemma insert_stored:
  assumes b: "before env c ids ns s" and p: "place ns (parent_node_id d) wr" and new: "drawer_id d \<notin> set ids"
  shows "stored env c ids ns d (s\<lparr>es_drawers := es_drawers s @ [d], es_audit := a\<rparr>)"
proof -
  have s: "base_ok env s" "c \<Longrightarrow> covered_but None s" "map drawer_id (es_drawers s) = ids" "es_nodes s = ns"
    using b by (simp_all add: before_def mid_ok_def)
  have "distinct (ids @ [drawer_id d])" using s(1,3) new by (auto simp: base_ok_def)
  then have "base_ok env (s\<lparr>es_drawers := es_drawers s @ [d], es_audit := a\<rparr>)"
    using s p by (cases wr) (auto simp: base_ok_def quiet_def)
  moreover have "covered_but (Some (drawer_id d)) (s\<lparr>es_drawers := es_drawers s @ [d], es_audit := a\<rparr>)" if c
    using s(2) [OF that] by (auto simp: covered_but_def covered_def)
  ultimately show ?thesis using s by (simp add: stored_def mid_ok_def like_def)
qed

lemma insert_audited_ok:
  assumes "place ns (parent_node_id d) wr"
  shows "triple (before env c ids ns) (insert_audited d ev) (\<lambda>_. stored env c ids ns d) (refused env c ids ns)"
  unfolding triple_def
proof (intro allI impI)
  fix s assume b: "before env c ids ns s"
  then have q: "quiet s" and ids: "ids = map drawer_id (es_drawers s)"
    by (simp_all add: before_def mid_ok_def base_ok_def)
  show "case insert_audited d ev s of (Inl _, s') \<Rightarrow> refused env c ids ns s' | (Inr _, s') \<Rightarrow> stored env c ids ns d s'"
  proof (cases "drawer_id d \<in> set ids")
    case True
    then have "insert_audited d ev s = (Inl (DatabaseUnavailable ''duplicate primary key''), s)"
      using q by (simp add: insert_audited_def storage_quiet ids)
    then show ?thesis using before_refused [OF b] by simp
  next
    case False
    then have "insert_audited d ev s = (Inr (), s\<lparr>es_drawers := es_drawers s @ [d], es_audit := es_audit s @ [ev]\<rparr>)"
      using q by (simp add: insert_audited_def storage_quiet ids)
    then show ?thesis using insert_stored [OF b assms False] by simp
  qed
qed

lemma drawers_tame_conj:
  assumes "drawers_tame I" "\<And>s s'. core s = core s' \<Longrightarrow> J s \<Longrightarrow> J s'"
    "\<And>s p f. J s \<Longrightarrow> tame f \<Longrightarrow> J (s\<lparr>es_drawers := map (\<lambda>d. if p d then f d else d) (es_drawers s)\<rparr>)"
  shows "drawers_tame (\<lambda>s. I s \<and> J s)"
  using assms unfolding drawers_tame_def core_only_def by blast

lemma before_keeps: "drawers_tame (before env c ids ns)" "core_only (before env c ids ns)"
  by (simp_all add: before_def mid_ok_tame)

lemma stored_keeps: "drawers_tame (stored env c ids ns d)" "core_only (stored env c ids ns d)"
proof -
  show "drawers_tame (stored env c ids ns d)"
    unfolding stored_def [abs_def]
    by (rule drawers_tame_conj, rule mid_ok_tame, simp add: like_def core_def, rule like_tame)
  then show "core_only (stored env c ids ns d)" by simp
qed

lemma triple_before: "keeps (before env c ids ns) m \<Longrightarrow> triple (before env c ids ns) m (\<lambda>_. before env c ids ns) (refused env c ids ns)"
  by (rule triple_keeps) (auto intro: before_refused)

lemma triple_stored: "keeps (stored env c ids ns d) m \<Longrightarrow> triple (stored env c ids ns d) m (\<lambda>_. stored env c ids ns d) (refused env c ids ns)"
  by (rule triple_keeps) (auto intro: stored_refused)

lemma before_bind:
  "keeps (before env c ids ns) m \<Longrightarrow> (\<And>a. triple (before env c ids ns) (f a) Q (refused env c ids ns)) \<Longrightarrow>
    triple (before env c ids ns) (act_bind m f) Q (refused env c ids ns)"
  by (rule triple_bind [OF triple_before])

lemma before_seq:
  "keeps (before env c ids ns) m \<Longrightarrow> triple (before env c ids ns) n Q (refused env c ids ns) \<Longrightarrow>
    triple (before env c ids ns) (act_seq m n) Q (refused env c ids ns)"
  by (rule triple_seq [OF triple_before])

lemma gated_capture_ok:
  assumes "place ns (parent_node_id d) wr"
  shows "triple (before env c ids ns) (gated_capture env d) (\<lambda>_. stored env c ids ns d) (refused env c ids ns)"
  unfolding gated_capture_def Let_def
  by (intro before_bind keeps_pure insert_audited_ok [OF assms])

lemma delete_stored:
  "triple (stored env c ids ns d) (attempt (delete_rows es_drawers_update (\<lambda>r. drawer_id r = drawer_id d))) (\<lambda>_. refused env c ids ns) E"
  unfolding triple_def
proof (intro allI impI)
  fix s assume b: "stored env c ids ns d s"
  let ?s = "s\<lparr>es_drawers := filter (\<lambda>r. drawer_id r \<noteq> drawer_id d) (es_drawers s)\<rparr>"
  have s: "base_ok env s" "c \<Longrightarrow> covered_but (Some (drawer_id d)) s" "es_nodes s = ns" "quiet s"
    using b unfolding stored_def mid_ok_def base_ok_def by blast+
  have "base_ok env ?s" using s(1) by (auto simp: base_ok_def distinct_map_filter)
  moreover have "covered_but None ?s" if c using s(2) [OF that] by (auto simp: covered_but_def covered_def)
  moreover have "attempt (delete_rows es_drawers_update (\<lambda>r. drawer_id r = drawer_id d)) s = (Inr (Inr ()), ?s)"
    using s(4) by (simp add: attempt_def delete_rows_def storage_quiet)
  ultimately show "case attempt (delete_rows es_drawers_update (\<lambda>r. drawer_id r = drawer_id d)) s of
      (Inl _, s') \<Rightarrow> E s' | (Inr _, s') \<Rightarrow> refused env c ids ns s'"
    using s(3) by (simp add: refused_def estate_ok_def)
qed

lemma cascade_ok:
  assumes "place ns (parent_node_id d) wr"
  shows "triple (before env c ids ns) (add_drawer_with_cascade env d prior) (\<lambda>_. stored env c ids ns d) (refused env c ids ns)"
  unfolding add_drawer_with_cascade_def
proof (intro before_bind)
  fix parent names
  show "keeps (before env c ids ns) (read_drawer prior parent_node_id)"
    "keeps (before env c ids ns) (resolve_node_names [parent_node_id d, parent])"
    by (rule keeps_read_drawer, rule before_keeps)+
  let ?tunnel = "attempt (insert_tunnel (supersedes_tunnel d prior
       (names_or_empty names (parent_node_id d)) (names_or_empty names parent)))"
  let ?after = "\<lambda>r :: estate_error + unit. case r of
        Inl e \<Rightarrow> act_bind (attempt (delete_rows es_drawers_update (\<lambda>r. drawer_id r = drawer_id d))) (\<lambda>_. act_fail e)
      | Inr _ \<Rightarrow> mutate_state env prior State_Superseded VSupersede (drawer_added_by d)
          (Some (''supersession cascade, lineageID '' @ env_lineage_text env (lineage_id d)))"
  have "triple (stored env c ids ns d) (?after r) (\<lambda>_. stored env c ids ns d) (refused env c ids ns)" for r
  proof (cases r)
    case (Inl e)
    then show ?thesis by (auto intro!: triple_bind delete_stored triple_fail)
  next
    case (Inr u)
    then show ?thesis using triple_stored [OF keeps_gated(3) [OF stored_keeps(1)]] by simp
  qed
  moreover have "triple (stored env c ids ns d) ?tunnel (\<lambda>_. stored env c ids ns d) (refused env c ids ns)"
    by (rule triple_stored, rule keeps_attempt, rule keeps_read_drawer, rule stored_keeps)
  ultimately show "triple (before env c ids ns) (act_seq (gated_capture env d) (act_bind ?tunnel ?after))
      (\<lambda>_. stored env c ids ns d) (refused env c ids ns)"
    by (intro triple_seq [OF gated_capture_ok [OF assms]] triple_bind)
qed

definition added :: "env \<Rightarrow> bool \<Rightarrow> string list \<Rightarrow> node list \<Rightarrow> drawer \<Rightarrow> estate \<Rightarrow> bool" where
  "added env c ids ns d s \<longleftrightarrow> estate_ok env c s \<and> es_nodes s = ns \<and> map drawer_id (es_drawers s) = ids @ [drawer_id d] \<and> like d s"

context estate_env
begin

lemma or_in_stored: "triple (stored env c ids ns d) (or_in_drawer env d) (\<lambda>_. added env c ids ns d) E"
  unfolding triple_def
proof (intro allI impI)
  fix s assume s: "stored env c ids ns d s"
  obtain r s' where run: "or_in_drawer env d s = (r, s')" by force
  show "case or_in_drawer env d s of (Inl _, s') \<Rightarrow> E s' | (Inr _, s') \<Rightarrow> added env c ids ns d s'"
    using or_in_drawer_ok [OF _ _ _ run] s run by (simp add: stored_def mid_ok_def added_def like_def)
qed

lemma add_drawer_ok:
  assumes "place ns (parent_node_id d) wr"
  shows "triple (before env c ids ns) (add_drawer env d) (\<lambda>_. added env c ids ns d) (refused env c ids ns)"
  unfolding add_drawer_def
proof (intro before_seq [OF keeps_pure(1)] before_bind)
  fix found
  show "keeps (before env c ids ns) (find_active_predecessor (lineage_id d) (drawer_id d))"
    by (rule keeps_read_drawer, rule before_keeps)
  have "triple (before env c ids ns) (case found of None \<Rightarrow> gated_capture env d
      | Some prior \<Rightarrow> add_drawer_with_cascade env d prior) (\<lambda>_. stored env c ids ns d) (refused env c ids ns)"
    using gated_capture_ok [OF assms] cascade_ok [OF assms] by (cases found) simp_all
  then show "triple (before env c ids ns) (act_seq (case found of None \<Rightarrow> gated_capture env d
      | Some prior \<Rightarrow> add_drawer_with_cascade env d prior) (or_in_drawer env d)) (\<lambda>_. added env c ids ns d) (refused env c ids ns)"
    by (rule triple_seq [OF _ or_in_stored])
qed

end

section \<open>Capture\<close>

definition good :: "env \<Rightarrow> bool \<Rightarrow> string list \<Rightarrow> estate \<Rightarrow> bool" where
  "good env c ids s \<longleftrightarrow> estate_ok env c s \<and> map drawer_id (es_drawers s) = ids"

definition bad :: "env \<Rightarrow> bool \<Rightarrow> string list \<Rightarrow> estate \<Rightarrow> bool" where
  "bad env c ids s \<longleftrightarrow> base_ok env s \<and> (map drawer_id (es_drawers s) = ids \<longrightarrow> estate_ok env c s)"

definition at_place :: "string \<Rightarrow> estate \<Rightarrow> bool" where
  "at_place iid s \<longleftrightarrow> (\<exists>wr. place (es_nodes s) iid wr)"

definition good_with :: "env \<Rightarrow> bool \<Rightarrow> string list \<Rightarrow> node \<Rightarrow> estate \<Rightarrow> bool" where
  "good_with env c ids n s \<longleftrightarrow> good env c ids s \<and> n \<in> set (es_nodes s)"

definition good_at :: "env \<Rightarrow> bool \<Rightarrow> string list \<Rightarrow> string \<Rightarrow> estate \<Rightarrow> bool" where
  "good_at env c ids iid s \<longleftrightarrow> good env c ids s \<and> at_place iid s"

definition grown :: "env \<Rightarrow> bool \<Rightarrow> string list \<Rightarrow> drawer \<Rightarrow> estate \<Rightarrow> bool" where
  "grown env c ids d s \<longleftrightarrow> good env c (ids @ [drawer_id d]) s \<and> like d s"

lemma core_only_conj:
  "core_only I \<Longrightarrow> (\<And>s s'. core s = core s' \<Longrightarrow> J s \<Longrightarrow> J s') \<Longrightarrow> core_only (\<lambda>s. I s \<and> J s)"
  unfolding core_only_def by blast

lemma good_core: "core_only (good env c ids)" "core_only (good_with env c ids n)" "core_only (good_at env c ids iid)"
proof -
  show g: "core_only (good env c ids)" unfolding good_def [abs_def]
    by (rule core_only_conj [OF drawers_tame_core [OF estate_ok_tame]]) (simp add: core_def)
  show "core_only (good_with env c ids n)" unfolding good_with_def [abs_def]
    by (rule core_only_conj [OF g]) (simp add: core_def)
  show "core_only (good_at env c ids iid)" unfolding good_at_def [abs_def]
    by (rule core_only_conj [OF g]) (simp add: core_def at_place_def)
qed

lemma good_bad: "good env c ids s \<Longrightarrow> bad env c ids s" "good_with env c ids n s \<Longrightarrow> bad env c ids s"
  "good_at env c ids iid s \<Longrightarrow> bad env c ids s"
  by (simp_all add: good_def good_with_def good_at_def bad_def estate_ok_def)

lemma triple_good:
  "keeps (good env c ids) m \<Longrightarrow> triple (good env c ids) m (\<lambda>_. good env c ids) (bad env c ids)"
  "keeps (good_with env c ids n) m \<Longrightarrow> triple (good_with env c ids n) m (\<lambda>_. good_with env c ids n) (bad env c ids)"
  "keeps (good_at env c ids iid) m \<Longrightarrow> triple (good_at env c ids iid) m (\<lambda>_. good_at env c ids iid) (bad env c ids)"
  by (rule triple_keeps; auto intro: good_bad)+

lemma root_good:
  "triple (good env c ids) (estate_root v) (\<lambda>n s. good_with env c ids n s \<and> node_depth n = 0) (bad env c ids)"
  unfolding triple_def
proof (intro allI impI)
  fix s assume s: "good env c ids s"
  then have q: "quiet s" by (simp add: good_def estate_ok_def base_ok_def)
  show "case estate_root v s of (Inl _, s') \<Rightarrow> bad env c ids s' | (Inr n, s') \<Rightarrow> good_with env c ids n s' \<and> node_depth n = 0"
  proof (cases "List.find (\<lambda>n. node_parent n = None \<and> node_depth n = 0 \<and> node_lifecycle n = 0) (es_nodes s)")
    case None
    then show ?thesis using q good_bad(1) [OF s] by (simp add: estate_root_def root_node_def)
  next
    case (Some n)
    then show ?thesis using q s find_SomeD [OF Some] by (simp add: estate_root_def root_node_def good_with_def)
  qed
qed

context estate_env
begin

lemma create_good:
  assumes "node_depth p = 1 \<longrightarrow> name \<noteq> []"
  shows "triple (good_with env c ids p) (create_node env name (node_id p) now)
    (\<lambda>n s. good_with env c ids p s \<and> good_with env c ids n s \<and> is_child n p \<and> lookup_name n = env_lookup env name)
    (bad env c ids)"
  unfolding triple_def
proof (intro allI impI)
  fix s assume s: "good_with env c ids p s"
  obtain r s' where run: "create_node env name (node_id p) now s = (r, s')" by force
  have "estate_ok env c s' \<and> es_drawers s' = es_drawers s \<and> set (es_nodes s) \<subseteq> set (es_nodes s')
    \<and> (\<forall>n. r = Inr n \<longrightarrow> n \<in> set (es_nodes s') \<and> is_child n p \<and> lookup_name n = env_lookup env name)"
    using create_node_ok [of c, OF _ _ refl assms run] s by (simp add: good_with_def good_def)
  then show "case create_node env name (node_id p) now s of (Inl _, s') \<Rightarrow> bad env c ids s'
      | (Inr n, s') \<Rightarrow> good_with env c ids p s' \<and> good_with env c ids n s' \<and> is_child n p
        \<and> lookup_name n = env_lookup env name"
    using s run by (auto simp: good_with_def good_def bad_def estate_ok_def split: sum.split)
qed

lemma room_good:
  assumes "room \<noteq> []" "node_depth top_node = 0"
  shows "triple (good_with env c ids top_node) (resolve_room env wing room (node_id top_node) now)
    (\<lambda>n. good_at env c ids (node_id n)) (bad env c ids)"
  unfolding resolve_room_def
proof (rule triple_bind)
  show "triple (good_with env c ids top_node) (create_node env wing (node_id top_node) now)
    (\<lambda>w s. good_with env c ids w s \<and> node_depth w = 1) (bad env c ids)"
    by (rule triple_weaken [OF create_good]) (use assms(2) in \<open>auto simp: is_child_def\<close>)
  fix w
  show "triple (\<lambda>s. good_with env c ids w s \<and> node_depth w = 1) (create_node env room (node_id w) now)
    (\<lambda>n. good_at env c ids (node_id n)) (bad env c ids)"
  proof (cases "node_depth w = 1")
    case True
    have "good_at env c ids (node_id n) s" if "good_with env c ids w s" "good_with env c ids n s" "is_child n w" for n s
    proof -
      have "place (es_nodes s) (node_id n) (display_name w, display_name n)"
        using that True unfolding place_def good_with_def is_child_def by force
      then show ?thesis using that by (auto simp: good_at_def good_with_def at_place_def)
    qed
    then show ?thesis
      by (intro triple_weaken [OF create_good [of w room c ids now]]) (use assms(1) in auto)
  qed (simp add: triple_def)
qed

lemma add_good:
  "triple (good_at env c ids (parent_node_id d)) (add_drawer env d) (\<lambda>_. grown env c ids d) (bad env c ids)"
  unfolding triple_def
proof (intro allI impI)
  fix s assume s: "good_at env c ids (parent_node_id d) s"
  then obtain wr where p: "place (es_nodes s) (parent_node_id d) wr" by (auto simp: good_at_def at_place_def)
  have b: "before env c ids (es_nodes s) s"
    using s by (simp add: before_def mid_ok_def good_at_def good_def estate_ok_def)
  obtain r s' where run: "add_drawer env d s = (r, s')" by force
  show "case add_drawer env d s of (Inl _, s') \<Rightarrow> bad env c ids s' | (Inr _, s') \<Rightarrow> grown env c ids d s'"
    using triple_result [OF add_drawer_ok [OF p] b run] run
    by (auto simp: added_def grown_def good_def refused_def bad_def split: sum.split)
qed

lemma store_good:
  "triple (good_at env c ids room) (store_captured env f room now) (grown env c ids) (bad env c ids)"
  unfolding store_captured_def Let_def
proof (intro triple_bind)
  note keep = keeps_draws [OF good_core(3)]
  show "triple (good_at env c ids room) (case cap_lineage f of Some l \<Rightarrow> act_ok l | None \<Rightarrow> draw_lineage env)
    (\<lambda>_. good_at env c ids room) (bad env c ids)"
    by (rule triple_good(3)) (auto intro!: keep)
  show "triple (good_at env c ids room) (draw_uuid env) (\<lambda>_. good_at env c ids room) (bad env c ids)"
    by (rule triple_good(3)) (rule keep)
  fix l iid
  have "parent_node_id (captured_drawer env f l iid room now) = room"
    by (simp add: captured_drawer_def set_anchor_def drawer_new_def)
  then show "triple (good_at env c ids room) (act_seq (add_drawer env (captured_drawer env f l iid room now))
     (act_ok (captured_drawer env f l iid room now))) (grown env c ids) (bad env c ids)"
    using add_good [of c ids "captured_drawer env f l iid room now"] by (auto intro!: triple_seq triple_ok)
qed

lemma validate_good:
  "triple (good env c ids) (validate_capture f) (\<lambda>_ s. good env c ids s \<and> cap_room f \<noteq> []) (bad env c ids)"
  unfolding validate_capture_def require_def
  by (cases "cap_room f = []") (auto simp: triple_def intro: good_bad(1))

lemma capture_good: "triple (good env c ids) (capture env f now) (grown env c ids) (bad env c ids)"
  unfolding capture_def
proof (rule triple_seq [OF validate_good])
  show "triple (\<lambda>s. good env c ids s \<and> cap_room f \<noteq> []) (act_bind (estate_root ''capture'') (\<lambda>est.
      act_bind (resolve_room env (or_current (cap_wing f) DEFAULT_WING_NAME) (cap_room f) (node_id est) now) (\<lambda>room.
      store_captured env f (node_id room) now))) (grown env c ids) (bad env c ids)"
  proof (cases "cap_room f = []")
    case False
    have "triple (\<lambda>s. good_with env c ids n s \<and> node_depth n = 0)
        (resolve_room env wing (cap_room f) (node_id n) now) (\<lambda>n. good_at env c ids (node_id n)) (bad env c ids)" for n wing
      using room_good [OF False, of n c ids wing now] by (cases "node_depth n = 0") (simp_all add: triple_def)
    with False show ?thesis
      by (auto intro!: triple_bind [OF root_good] triple_bind store_good)
  qed (simp add: triple_def)
qed

lemma seed_good: "triple (good env c ids) (seed_wing env wing hint model now) (grown env c ids) (bad env c ids)"
  unfolding seed_wing_def Let_def
proof (intro triple_seq triple_bind)
  note keep = keeps_draws [OF good_core(3)]
  show "triple (good env c ids) (require (wing \<noteq> []) ''seed_wing: wing_name must not be empty'')
      (\<lambda>_. good env c ids) (bad env c ids)"
    by (rule triple_good(1)) (rule keeps_pure)
  show "triple (good env c ids) (estate_root ''seed_wing'') (\<lambda>n s. good_with env c ids n s \<and> node_depth n = 0) (bad env c ids)"
    by (rule root_good)
  fix est
  show "triple (\<lambda>s. good_with env c ids est s \<and> node_depth est = 0)
      (resolve_room env wing HINT_ROOM (node_id est) now) (\<lambda>n. good_at env c ids (node_id n)) (bad env c ids)"
    using room_good [of HINT_ROOM est c ids wing now] by (cases "node_depth est = 0") (simp_all add: triple_def HINT_ROOM_def)
  fix room iid l
  show "triple (good_at env c ids (node_id room)) (draw_uuid env) (\<lambda>_. good_at env c ids (node_id room)) (bad env c ids)"
    "triple (good_at env c ids (node_id room)) (draw_lineage env) (\<lambda>_. good_at env c ids (node_id room)) (bad env c ids)"
    by (rule triple_good(3), rule keep)+
  let ?d = "(drawer_new l iid hint (node_id room) HINT_ADDED_BY now model)\<lparr>udc_code := HINT_UDC_CODE\<rparr>"
  have "parent_node_id ?d = node_id room" by (simp add: drawer_new_def)
  then show "triple (good_at env c ids (node_id room)) (add_drawer env ?d) (\<lambda>_. grown env c ids ?d) (bad env c ids)"
    using add_good [of c ids ?d] by simp
  show "triple (grown env c ids ?d) (act_ok ?d) (grown env c ids) (bad env c ids)"
    by (rule triple_ok)
qed

end

end
