(* ===== verification/Noun_Store.thy ===== *)
theory Noun_Store
  imports Estate_Verbs
begin

text \<open>
  The other tables of an estate (\<open>drawer_store_inmemory.rs\<close>): reads and retirement of tunnels, facts,
  proposals, associations, learned references with their source catalog, the diary, recall traces,
  summaries of wings and rooms, and the audit of a two-step expunge; and the verbs \<open>propose\<close>,
  \<open>associate\<close> and \<open>learn\<close> of \<open>estate_verbs.rs\<close>. \<open>noun_op\<close> collects the operations that write.
\<close>

section \<open>Tunnels\<close>

definition live_tunnels :: "(tunnel \<Rightarrow> bool) \<Rightarrow> tunnel list act" where
  "live_tunnels p = query_sorted es_tunnels tunnel_filed_at None (\<lambda>t. p t \<and> tunnel_tombstoned_at t = None)"

definition tunnels_from_wing :: "string \<Rightarrow> tunnel list act" where
  "tunnels_from_wing wing = live_tunnels (\<lambda>t. source_wing t = wing)"

definition tunnels_from_wing_room :: "string \<Rightarrow> string \<Rightarrow> tunnel list act" where
  "tunnels_from_wing_room wing room = live_tunnels (\<lambda>t. source_wing t = wing \<and> source_room t = room)"

definition tunnels_to_wing :: "string \<Rightarrow> tunnel list act" where
  "tunnels_to_wing wing = live_tunnels (\<lambda>t. target_wing t = wing)"

definition all_tunnels :: "tunnel list act" where
  "all_tunnels = live_tunnels (\<lambda>_. True)"

definition all_active_tunnels :: "extractor \<Rightarrow> tunnel list act" where
  "all_active_tunnels ext =
     act_bind all_tunnels (\<lambda>ts. act_ok (filter (\<lambda>t. \<not> is_retired t \<and> lifecycle ext t = TunnelLifecycle_Active) ts))"

definition tunnels_from_wing_with_ceiling :: "extractor \<Rightarrow> string \<Rightarrow> bool \<Rightarrow> tunnel list act" where
  "tunnels_from_wing_with_ceiling ext wing including_restricted =
     act_bind (tunnels_from_wing wing) (\<lambda>ts.
     act_ok (filter (\<lambda>t. case tunnel_adjective_sensitivity ext t of
         AdjectiveSensitivity_Restricted \<Rightarrow> including_restricted
       | AdjectiveSensitivity_Secret \<Rightarrow> False
       | _ \<Rightarrow> True) ts))"

definition found_tunnel :: "string \<Rightarrow> tunnel act" where
  "found_tunnel iid =
     act_bind (get_tunnel iid) (\<lambda>found.
     case found of None \<Rightarrow> act_fail (TunnelNotFound iid) | Some t \<Rightarrow> act_ok t)"

definition retire_tunnel :: "string \<Rightarrow> unit act" where
  "retire_tunnel iid =
     act_bind (found_tunnel iid) (\<lambda>t. set_tunnel_operational iid (tunnel_operational (with_retired t)))"

definition unretire_tunnel :: "string \<Rightarrow> unit act" where
  "unretire_tunnel iid =
     act_bind (found_tunnel iid) (\<lambda>t. set_tunnel_operational iid (tunnel_operational (with_unretired t)))"

text \<open>The name that \<open>{:?}\<close> prints, and the dash of the message in UTF-8.\<close>

fun lifecycle_name :: "TunnelLifecycle \<Rightarrow> string" where
  "lifecycle_name TunnelLifecycle_Active = ''Active''"
| "lifecycle_name TunnelLifecycle_Proposed = ''Proposed''"
| "lifecycle_name TunnelLifecycle_Superseded = ''Superseded''"
| "lifecycle_name TunnelLifecycle_Withdrawn = ''Withdrawn''"

definition EM_DASH :: string where "EM_DASH = [CHR 0xE2, CHR 0x80, CHR 0x94]"

definition respond_to_tunnel :: "env \<Rightarrow> string \<Rightarrow> bool \<Rightarrow> unit act" where
  "respond_to_tunnel env iid accept =
     act_bind (found_tunnel iid) (\<lambda>t.
     if lifecycle (env_extract env) t \<noteq> TunnelLifecycle_Proposed
     then act_fail (InvalidContent (''tunnel '' @ iid @ '' is '' @ lifecycle_name (lifecycle (env_extract env) t)
            @ '' '' @ EM_DASH @ '' only a proposed tunnel can be reviewed''))
     else set_tunnel_operational iid (tunnel_operational
       (with_lifecycle (env_write env) t (if accept then TunnelLifecycle_Active else TunnelLifecycle_Withdrawn))))"

section \<open>Facts\<close>

definition add_kg_fact :: "kg_fact \<Rightarrow> unit act" where
  "add_kg_fact f =
     act_seq (validate_non_empty (fact_subject f) ''subject'')
     (act_seq (validate_non_empty (fact_predicate f) ''predicate'')
     (act_seq (validate_non_empty (fact_object f) ''object'')
     (act_seq (validate_non_empty (fact_source_drawer_id f) ''sourceDrawerID'')
        (insert_row es_facts es_facts_update fact_id f))))"

definition get_kg_fact :: "string \<Rightarrow> kg_fact option act" where
  "get_kg_fact iid = query_one es_facts (\<lambda>f. fact_id f = iid)"

definition withdraw_kg_fact :: "string \<Rightarrow> unit act" where
  "withdraw_kg_fact iid =
     act_seq (validate_non_empty iid ''id'')
     (act_bind (get_kg_fact iid) (\<lambda>found.
      case found of
        None \<Rightarrow> act_fail (InvalidContent (''kgFact not found: '' @ iid))
      | Some f \<Rightarrow>
          let bits = (fact_adjective f AND NOT 0x3F) OR word_of_int (State_raw State_Withdrawn)
          in update_rows es_facts_update (\<lambda>f. fact_id f = iid) (\<lambda>f. f\<lparr>fact_adjective := bits\<rparr>)))"

text \<open>The generated column of the state is the raw field.\<close>

definition active_fact :: "kg_fact \<Rightarrow> bool" where
  "active_fact f \<longleftrightarrow> sint (fact_adjective f AND 0x3F) < ACTIVE_CLUSTER_UPPER_BOUND_RAW"

definition kg_facts_for_drawer :: "string \<Rightarrow> kg_fact list act" where
  "kg_facts_for_drawer iid =
     query_sorted es_facts fact_filed_at None (\<lambda>f. fact_source_drawer_id f = iid \<and> active_fact f)"

definition all_kg_facts :: "kg_fact list act" where
  "all_kg_facts = query_sorted es_facts fact_filed_at None active_fact"

definition all_kg_facts_including_retired :: "kg_fact list act" where
  "all_kg_facts_including_retired = query_sorted es_facts fact_filed_at None (\<lambda>_. True)"

section \<open>Proposals and associations\<close>

definition add_proposal :: "proposal \<Rightarrow> unit act" where
  "add_proposal p =
     act_seq (validate_non_empty (anchor_udc_code (proposal_anchor p)) ''latticeAnchor.udcCode'')
       (insert_row es_proposals es_proposals_update proposal_id p)"

definition get_proposal :: "string \<Rightarrow> proposal option act" where
  "get_proposal iid = query_one es_proposals (\<lambda>p. proposal_id p = iid)"

definition proposals_for_target :: "string \<Rightarrow> proposal list act" where
  "proposals_for_target iid = query_sorted es_proposals proposal_filed_at None (\<lambda>p. target_row_id p = iid)"

definition all_proposals :: "proposal list act" where
  "all_proposals = query_sorted es_proposals proposal_filed_at None (\<lambda>_. True)"

text \<open>
  The unique constraint on the endpoints and the label, which absent drawer ids never violate. The
  error of a duplicate key is taken for success.
\<close>

definition same_edge :: "association \<Rightarrow> association \<Rightarrow> bool" where
  "same_edge a b \<longleftrightarrow> assoc_source_drawer_id a \<noteq> None \<and> assoc_target_drawer_id a \<noteq> None
     \<and> assoc_source_wing a = assoc_source_wing b \<and> assoc_source_room a = assoc_source_room b
     \<and> assoc_source_drawer_id a = assoc_source_drawer_id b
     \<and> assoc_target_wing a = assoc_target_wing b \<and> assoc_target_room a = assoc_target_room b
     \<and> assoc_target_drawer_id a = assoc_target_drawer_id b \<and> assoc_label a = assoc_label b"

definition add_association :: "association \<Rightarrow> unit act" where
  "add_association a =
     act_seq (validate_non_empty (assoc_source_wing a) ''sourceWing'')
     (act_seq (validate_non_empty (assoc_source_room a) ''sourceRoom'')
     (act_seq (validate_non_empty (assoc_target_wing a) ''targetWing'')
     (act_seq (validate_non_empty (assoc_target_room a) ''targetRoom'')
     (act_seq (validate_non_empty (assoc_label a) ''label'')
     (act_seq (validate_non_empty (assoc_added_by a) ''addedBy'')
     (act_seq (validate_non_empty (anchor_udc_code (assoc_anchor a)) ''latticeAnchor.udcCode'')
        (storage (\<lambda>s.
           if list_ex (\<lambda>b. association_id b = association_id a \<or> same_edge a b) (es_associations s) then Inr ((), s)
           else Inr ((), s\<lparr>es_associations := es_associations s @ [a]\<rparr>)))))))))"

definition get_association :: "string \<Rightarrow> association option act" where
  "get_association iid = query_one es_associations (\<lambda>a. association_id a = iid)"

definition live_associations :: "(association \<Rightarrow> bool) \<Rightarrow> association list act" where
  "live_associations p =
     query_sorted es_associations assoc_filed_at None (\<lambda>a. p a \<and> assoc_tombstoned_at a = None)"

definition associations_from :: "string \<Rightarrow> string \<Rightarrow> association list act" where
  "associations_from wing room = live_associations (\<lambda>a. assoc_source_wing a = wing \<and> assoc_source_room a = room)"

definition associations_to :: "string \<Rightarrow> string \<Rightarrow> association list act" where
  "associations_to wing room = live_associations (\<lambda>a. assoc_target_wing a = wing \<and> assoc_target_room a = room)"

definition all_associations :: "association list act" where
  "all_associations = live_associations (\<lambda>_. True)"

section \<open>Learned references and their sources\<close>

definition add_learned_reference :: "learned_reference \<Rightarrow> unit act" where
  "add_learned_reference r =
     act_seq (validate_non_empty (reference_handle r) ''handle'')
     (act_seq (validate_non_empty (reference_added_by r) ''addedBy'')
     (act_seq (validate_non_empty (anchor_udc_code (reference_anchor r)) ''latticeAnchor.udcCode'')
        (insert_row es_references es_references_update reference_id r)))"

definition get_learned_reference :: "string \<Rightarrow> learned_reference option act" where
  "get_learned_reference iid = query_one es_references (\<lambda>r. reference_id r = iid)"

definition learned_references_from_source :: "string \<Rightarrow> learned_reference list act" where
  "learned_references_from_source cat =
     query_sorted es_references reference_filed_at None (\<lambda>r. source_catalog_id r = cat \<and> reference_tombstoned_at r = None)"

definition all_learned_references :: "learned_reference list act" where
  "all_learned_references = query_sorted es_references reference_filed_at None (\<lambda>r. reference_tombstoned_at r = None)"

definition add_source_catalog_entry :: "source_catalog_entry \<Rightarrow> unit act" where
  "add_source_catalog_entry c =
     act_seq (validate_non_empty (catalog_handle c) ''handle'')
     (act_seq (validate_non_empty (catalog_added_by c) ''addedBy'')
     (act_seq (validate_non_empty (anchor_udc_code (catalog_anchor c)) ''latticeAnchor.udcCode'')
        (insert_row es_sources es_sources_update catalog_id c)))"

definition get_source_catalog_entry :: "string \<Rightarrow> source_catalog_entry option act" where
  "get_source_catalog_entry iid = query_one es_sources (\<lambda>c. catalog_id c = iid)"

definition source_catalog_entry_for_handle :: "string \<Rightarrow> source_catalog_entry option act" where
  "source_catalog_entry_for_handle handle =
     act_bind (query_sorted es_sources first_seen (Some 1) (\<lambda>c. catalog_handle c = handle)) (\<lambda>rows.
     act_ok (case rows of [] \<Rightarrow> None | c # _ \<Rightarrow> Some c))"

section \<open>Diary\<close>

definition add_diary_entry :: "diary_entry \<Rightarrow> unit act" where
  "add_diary_entry e =
     act_seq (validate_non_empty (agent_name e) ''agentName'')
     (act_seq (validate_non_empty (diary_entry_text e) ''entry'')
     (act_seq (validate_non_empty (diary_topic e) ''topic'')
     (act_seq (validate_non_empty (diary_wing e) ''wing'')
     (act_seq (validate_non_empty (diary_room e) ''room'')
     (act_seq (validate_non_empty (diary_embedding_model_id e) ''embeddingModelID'')
        (insert_row es_diary es_diary_update diary_id e))))))"

definition get_diary_entry :: "string \<Rightarrow> diary_entry option act" where
  "get_diary_entry iid = query_one es_diary (\<lambda>e. diary_id e = iid)"

text \<open>The newest first; rows of the same time stay in insertion order.\<close>

definition diary_desc :: "(diary_entry \<Rightarrow> bool) \<Rightarrow> nat \<Rightarrow> diary_entry list act" where
  "diary_desc p last_n =
     query_sorted es_diary (\<lambda>e. - diary_filed_at e) (Some last_n) (\<lambda>e. p e \<and> diary_tombstoned_at e = None)"

definition read_diary :: "string \<Rightarrow> nat \<Rightarrow> diary_entry list act" where
  "read_diary agent last_n = diary_desc (\<lambda>e. agent_name e = agent) last_n"

definition read_diary_in_wing :: "string \<Rightarrow> string \<Rightarrow> nat \<Rightarrow> diary_entry list act" where
  "read_diary_in_wing agent wing last_n = diary_desc (\<lambda>e. agent_name e = agent \<and> diary_wing e = wing) last_n"

definition all_diary_entries :: "diary_entry list act" where
  "all_diary_entries = query_sorted es_diary diary_filed_at None (\<lambda>e. diary_tombstoned_at e = None)"

section \<open>Recall traces\<close>

definition FLAG_USED :: i64 where "FLAG_USED = 1"

definition trace_used :: "recall_trace \<Rightarrow> bool" where
  "trace_used t \<longleftrightarrow> trace_operational t AND FLAG_USED \<noteq> 0"

definition with_used :: "recall_trace \<Rightarrow> recall_trace" where
  "with_used t = t\<lparr>trace_operational := trace_operational t OR FLAG_USED\<rparr>"

definition insert_recall_trace :: "recall_trace \<Rightarrow> unit act" where
  "insert_recall_trace = insert_row es_traces es_traces_update trace_id"

definition get_recall_trace :: "string \<Rightarrow> recall_trace option act" where
  "get_recall_trace iid = query_one es_traces (\<lambda>t. trace_id t = iid)"

definition recall_trace_since :: "string \<Rightarrow> recall_trace list act" where
  "recall_trace_since since = query_sorted es_traces trace_recalled_at None (\<lambda>t. since \<le> trace_recalled_at t)"

definition recent_recall_traces :: "string \<Rightarrow> string \<Rightarrow> recall_trace list act" where
  "recent_recall_traces since now =
     query_sorted es_traces trace_recalled_at None (\<lambda>t. since \<le> trace_recalled_at t \<and> trace_recalled_at t \<le> now)"

definition mark_trace :: "recall_trace \<Rightarrow> unit act" where
  "mark_trace t =
     (if trace_used t then act_ok ()
      else update_rows es_traces_update (\<lambda>r. trace_id r = trace_id t) (\<lambda>_. with_used t))"

definition mark_recall_trace_used :: "string \<Rightarrow> unit act" where
  "mark_recall_trace_used iid =
     act_bind (get_recall_trace iid) (\<lambda>found.
     case found of None \<Rightarrow> act_fail (RecallTraceItemNotFound iid) | Some t \<Rightarrow> mark_trace t)"

definition mark_recall_traces_used :: "string \<Rightarrow> string \<Rightarrow> string \<Rightarrow> nat act" where
  "mark_recall_traces_used target since now =
     act_bind (query_rows es_traces (\<lambda>t. trace_target t = target \<and> since \<le> trace_recalled_at t \<and> trace_recalled_at t \<le> now)) (\<lambda>rows.
     act_seq (for_each mark_trace rows) (act_ok (length (filter (\<lambda>t. \<not> trace_used t) rows))))"

definition prune_recall_traces :: "string \<Rightarrow> nat act" where
  "prune_recall_traces cutoff =
     storage (\<lambda>s. Inr (length (filter (\<lambda>t. trace_recalled_at t < cutoff) (es_traces s)),
       s\<lparr>es_traces := filter (\<lambda>t. \<not> trace_recalled_at t < cutoff) (es_traces s)\<rparr>))"

definition count_recall_traces :: "nat act" where
  "count_recall_traces = act_bind (query_rows es_traces (\<lambda>_. True)) (\<lambda>rows. act_ok (length rows))"

definition count_drawer_rows :: "nat act" where
  "count_drawer_rows = storage (\<lambda>s. Inr (length (es_drawers s), s))"

definition count_tunnel_rows :: "nat act" where
  "count_tunnel_rows = storage (\<lambda>s. Inr (length (es_tunnels s), s))"

definition count_kg_fact_rows :: "nat act" where
  "count_kg_fact_rows = storage (\<lambda>s. Inr (length (es_facts s), s))"

section \<open>Summaries\<close>

record wing_summary =
  wing_name :: string
  wing_drawers :: int
  wing_rooms :: int

record room_summary =
  room_wing :: string
  room_name :: string
  room_drawers :: int

definition live_rooms :: "string \<Rightarrow> node list act" where
  "live_rooms wing_id = query_rows es_nodes (\<lambda>n. node_parent n = Some wing_id \<and> node_depth n = 2 \<and> node_tombstoned_at n = None)"

definition live_in_rooms :: "string list \<Rightarrow> drawer list act" where
  "live_in_rooms ids = query_rows es_drawers (\<lambda>d. parent_node_id d \<in> set ids \<and> drawer_tombstoned_at d = None)"

fun map_act :: "('a \<Rightarrow> 'b act) \<Rightarrow> 'a list \<Rightarrow> 'b list act" where
  "map_act f [] = act_ok []"
| "map_act f (x # xs) = act_bind (f x) (\<lambda>y. act_bind (map_act f xs) (\<lambda>ys. act_ok (y # ys)))"

definition summarize_wing :: "node \<Rightarrow> wing_summary act" where
  "summarize_wing w =
     act_bind (live_rooms (node_id w)) (\<lambda>rooms.
     act_bind (if rooms = [] then act_ok [] else live_in_rooms (map node_id rooms)) (\<lambda>ds.
     act_ok \<lparr>wing_name = display_name w, wing_drawers = int (length ds), wing_rooms = int (length rooms)\<rparr>))"

definition list_wings :: "wing_summary list act" where
  "list_wings =
     act_bind (query_rows es_nodes (\<lambda>n. node_depth n = 1 \<and> node_tombstoned_at n = None)) (\<lambda>wings.
     act_bind (map_act summarize_wing wings) (\<lambda>ws. act_ok (sort_key wing_name ws)))"

definition summarize_rooms :: "node \<Rightarrow> room_summary list act" where
  "summarize_rooms w =
     act_bind (live_rooms (node_id w)) (\<lambda>rooms.
     map_act (\<lambda>r. act_bind (live_in_rooms [node_id r]) (\<lambda>ds.
       act_ok \<lparr>room_wing = display_name w, room_name = display_name r, room_drawers = int (length ds)\<rparr>)) rooms)"

definition list_rooms :: "env \<Rightarrow> string option \<Rightarrow> room_summary list act" where
  "list_rooms env wing =
     act_bind (query_rows es_nodes (\<lambda>n. (case wing of Some w \<Rightarrow> lookup_name n = env_lookup env w | None \<Rightarrow> True)
         \<and> node_depth n = 1 \<and> node_tombstoned_at n = None)) (\<lambda>wings.
     act_bind (map_act summarize_rooms wings) (\<lambda>rs.
     act_ok (sort_key (\<lambda>r. room_wing r @ [CHR 0x00] @ room_name r) (concat rs))))"

section \<open>The audit of a two-step expunge\<close>

definition seal_expunge_audit :: "audit_event \<Rightarrow> unit act" where
  "seal_expunge_audit ev = append_audit ev"

definition EXPUNGE_ORPHAN :: audit_verb where "EXPUNGE_ORPHAN = Named ''expungeOrphan''"

definition seal_expunge_orphan_audit :: "audit_event \<Rightarrow> unit act" where
  "seal_expunge_orphan_audit ev =
     act_bind changed_by_or_estate (\<lambda>by.
     append_audit (ev\<lparr>ev_verb := EXPUNGE_ORPHAN, ev_actor := by, ev_reason := None\<rparr>))"

definition seal_expunge_orphan_for_sweep :: "env \<Rightarrow> string \<Rightarrow> string \<Rightarrow> unit act" where
  "seal_expunge_orphan_for_sweep env iid by =
     act_bind (the_uuid env iid ''drawerId'') (\<lambda>uuid.
     act_bind (read_bitmaps iid) (\<lambda>after.
     act_bind (read_drawer_udc iid) (\<lambda>udc.
     append_audit \<lparr>ev_row = uuid, ev_verb = EXPUNGE_ORPHAN, ev_before = None, ev_after = after,
       ev_before_anchor = None, ev_after_anchor = (udc, []), ev_actor = by, ev_reason = None\<rparr>)))"

definition seal_expunge_orphan_audit_synthetic :: "env \<Rightarrow> string \<Rightarrow> unit act" where
  "seal_expunge_orphan_audit_synthetic env iid =
     act_bind changed_by_or_estate (\<lambda>by. seal_expunge_orphan_for_sweep env iid by)"

definition append_supplementary_audit :: "audit_event \<Rightarrow> string \<Rightarrow> string \<Rightarrow> unit act" where
  "append_supplementary_audit ev verb reason =
     seal_expunge_audit (ev\<lparr>ev_verb := Named verb, ev_before := None, ev_before_anchor := None, ev_reason := Some reason\<rparr>)"

definition audit_events_for_row :: "env \<Rightarrow> string \<Rightarrow> audit_event list act" where
  "audit_events_for_row env iid =
     act_bind (the_uuid env iid ''rowID'') (\<lambda>uuid. query_rows es_audit (\<lambda>ev. ev_row ev = uuid))"

text \<open>The verb of a gated tombstone is spelled \<open>tombstone\<close> in the log.\<close>

definition expunge_verbs :: "audit_verb list" where
  "expunge_verbs = [By_row VTombstone, EXPUNGE_ORPHAN]"

definition tombstoned_rows_without_expunge_audit :: "env \<Rightarrow> drawer list act" where
  "tombstoned_rows_without_expunge_audit env =
     act_bind (query_sorted es_drawers drawer_tombstoned_at None (\<lambda>d. drawer_tombstoned_at d \<noteq> None)) (\<lambda>ds.
     if ds = [] then act_ok []
     else act_bind (map_act (\<lambda>d. the_uuid env (drawer_id d) ''drawerId'') ds) (\<lambda>keys.
       act_bind (query_rows es_audit (\<lambda>ev. ev_row ev \<in> set keys \<and> ev_verb ev \<in> set expunge_verbs)) (\<lambda>covered.
       act_ok (map fst (filter (\<lambda>(_, key). key \<notin> ev_row ` set covered) (zip ds keys))))))"

definition wipe_all_content :: "unit act" where
  "wipe_all_content = update_rows es_drawers_update (\<lambda>_. True) (\<lambda>d. d\<lparr>content := []\<rparr>)"

section \<open>Propose\<close>

record propose_frame =
  propose_target :: string
  propose_kind :: ProposalKind
  propose_justification :: "string option"
  propose_confirmation :: ProposalConfirmationSource
  propose_generated_by :: ProposalGeneratedByClass
  propose_confidence :: ProposalConfidenceBucket

definition propose_frame_new :: "string \<Rightarrow> ProposalKind \<Rightarrow> propose_frame" where
  "propose_frame_new target kind =
     \<lparr>propose_target = target, propose_kind = kind, propose_justification = None,
      propose_confirmation = ProposalConfirmationSource_Human,
      propose_generated_by = ProposalGeneratedByClass_DreamingDaemon,
      propose_confidence = ProposalConfidenceBucket_Null\<rparr>"

definition propose_operational :: "env \<Rightarrow> propose_frame \<Rightarrow> i64" where
  "propose_operational env f =
     env_write env (word_of_int (ProposalConfidenceBucket_raw (propose_confidence f)))
       (env_write env (word_of_int (ProposalGeneratedByClass_raw (propose_generated_by f)))
         (env_write env (word_of_int (ProposalConfirmationSource_raw (propose_confirmation f)))
           (env_write env (word_of_int (ProposalTargetObjectType_raw ProposalTargetObjectType_Drawer))
             (env_write env (word_of_int (ProposalKind_raw (propose_kind f))) 0 0 6) 6 6) 12 6) 18 6) 24 6"

definition drawer_anchor :: "drawer \<Rightarrow> lattice_anchor" where
  "drawer_anchor d =
     \<lparr>anchor_udc_code = udc_code d, anchor_udc_facets = udc_facets d, anchor_wikidata_qid = wikidata_qid d,
      anchor_wikidata_qids_secondary = wikidata_qids_secondary d\<rparr>"

definition propose :: "env \<Rightarrow> propose_frame \<Rightarrow> int \<Rightarrow> proposal act" where
  "propose env f now =
     act_seq (require (propose_target f \<noteq> []) ''propose target must not be empty'')
     (act_bind (found_drawer (propose_target f)) (\<lambda>target.
      act_bind (draw_uuid env) (\<lambda>iid.
      let p = \<lparr>proposal_id = iid, target_row_id = propose_target f, justification = propose_justification f,
               candidate_state = sint (adjective_bitmap target), proposal_anchor = drawer_anchor target,
               proposal_adjective = env_write env (word_of_int (State_raw State_Pending)) 0 0 6,
               proposal_operational = propose_operational env f, proposal_provenance = 0, proposal_filed_at = now\<rparr>
      in act_seq (add_proposal p) (act_ok p))))"

section \<open>Associate\<close>

text \<open>The weight of the frame is not stored.\<close>

record associate_frame =
  end_a :: string
  end_b :: string

definition node_of :: "string option \<Rightarrow> node option act" where
  "node_of iid =
     (case iid of
        None \<Rightarrow> act_ok None
      | Some i \<Rightarrow> act_bind (attempt (get_node i)) (\<lambda>r. act_ok (case r of Inr n \<Rightarrow> n | Inl _ \<Rightarrow> None)))"

definition name_or_empty :: "node option \<Rightarrow> string" where
  "name_or_empty n = (case n of Some n \<Rightarrow> display_name n | None \<Rightarrow> [])"

definition endpoint_names :: "env \<Rightarrow> string \<Rightarrow> (string \<times> string) act" where
  "endpoint_names env parent =
     act_bind (node_of (if env_is_uuid env parent then Some parent else None)) (\<lambda>room.
     act_bind (node_of (Option.bind room node_parent)) (\<lambda>wing.
     act_ok (name_or_empty wing, name_or_empty room)))"

text \<open>The arrow of a label, in UTF-8.\<close>

definition ARROW :: string where "ARROW = [CHR 0xE2, CHR 0x86, CHR 0x92]"

definition associate :: "env \<Rightarrow> associate_frame \<Rightarrow> int \<Rightarrow> association act" where
  "associate env f now =
     act_seq (require (end_a f \<noteq> []) ''associate endpoint a must not be empty'')
     (act_seq (require (end_b f \<noteq> []) ''associate endpoint b must not be empty'')
     (act_bind (found_drawer (end_a f)) (\<lambda>a.
      act_bind (found_drawer (end_b f)) (\<lambda>b.
      act_bind (endpoint_names env (parent_node_id a)) (\<lambda>src.
      act_bind (endpoint_names env (parent_node_id b)) (\<lambda>tgt.
      act_bind (draw_uuid env) (\<lambda>iid.
      let r = (association_new iid (fst src) (snd src) (fst tgt) (snd tgt) (snd src @ ARROW @ snd tgt)
                 (drawer_anchor a) ''associate'' now)
              \<lparr>assoc_source_drawer_id := Some (drawer_id a), assoc_target_drawer_id := Some (drawer_id b)\<rparr>
      in act_seq (add_association r) (act_ok r))))))))"

section \<open>Learn\<close>

record learn_frame =
  learn_source :: source_catalog_entry
  learn_handle :: string
  learn_frame_mode :: LearnMode
  learn_refresh :: RefreshPolicy

definition learn_frame_new :: "source_catalog_entry \<Rightarrow> string \<Rightarrow> learn_frame" where
  "learn_frame_new source handle =
     \<lparr>learn_source = source, learn_handle = handle, learn_frame_mode = ByReference, learn_refresh = RefreshPolicy_Weekly\<rparr>"

definition learn_operational :: "env \<Rightarrow> learn_frame \<Rightarrow> source_catalog_entry \<Rightarrow> i64" where
  "learn_operational env f c =
     env_write env (word_of_int (SourceKind_raw (catalog_kind c)))
       (env_write_flag env (learn_frame_mode f = ByIngestion)
         (env_write env (word_of_int (RefreshPolicy_raw (learn_refresh f))) 0 0 6) 12) 13 6"

definition learn :: "env \<Rightarrow> learn_frame \<Rightarrow> int \<Rightarrow> learned_reference act" where
  "learn env f now =
     act_seq (require (learn_handle f \<noteq> []) ''learn: handle must not be empty'')
     (act_bind (source_catalog_entry_for_handle (catalog_handle (learn_source f))) (\<lambda>found.
      act_bind (case found of
          Some c \<Rightarrow> act_ok c
        | None \<Rightarrow> act_seq (add_source_catalog_entry (learn_source f)) (act_ok (learn_source f))) (\<lambda>c.
      act_bind (draw_uuid env) (\<lambda>iid.
      let r = (learned_reference_new iid (catalog_id c) (learn_handle f) (catalog_anchor c) ''learn'' now)
              \<lparr>reference_operational := learn_operational env f c\<rparr>
      in act_seq (add_learned_reference r) (act_ok r)))))"

section \<open>Operations\<close>

datatype noun_op = Retire string | Unretire string | Respond string bool
  | Add_fact kg_fact | Withdraw_fact string | Add_proposal proposal | Add_association association
  | Add_reference learned_reference | Add_source source_catalog_entry | Add_diary diary_entry
  | Insert_trace recall_trace | Mark_used string | Mark_all_used string string string | Prune_traces string
  | Seal_audit audit_event | Seal_orphan audit_event | Seal_sweep string
  | Supplement audit_event string string | Wipe | Propose propose_frame int | Associate associate_frame int
  | Learn learn_frame int

definition ignoring :: "'a act \<Rightarrow> unit act" where
  "ignoring m = act_bind m (\<lambda>_. act_ok ())"

fun run_noun :: "env \<Rightarrow> noun_op \<Rightarrow> unit act" where
  "run_noun env (Retire iid) = retire_tunnel iid"
| "run_noun env (Unretire iid) = unretire_tunnel iid"
| "run_noun env (Respond iid accept) = respond_to_tunnel env iid accept"
| "run_noun env (Add_fact f) = add_kg_fact f"
| "run_noun env (Withdraw_fact iid) = withdraw_kg_fact iid"
| "run_noun env (Add_proposal p) = add_proposal p"
| "run_noun env (Add_association a) = add_association a"
| "run_noun env (Add_reference r) = add_learned_reference r"
| "run_noun env (Add_source c) = add_source_catalog_entry c"
| "run_noun env (Add_diary e) = add_diary_entry e"
| "run_noun env (Insert_trace t) = insert_recall_trace t"
| "run_noun env (Mark_used iid) = mark_recall_trace_used iid"
| "run_noun env (Mark_all_used target since now) = ignoring (mark_recall_traces_used target since now)"
| "run_noun env (Prune_traces cutoff) = ignoring (prune_recall_traces cutoff)"
| "run_noun env (Seal_audit ev) = seal_expunge_audit ev"
| "run_noun env (Seal_orphan ev) = seal_expunge_orphan_audit ev"
| "run_noun env (Seal_sweep iid) = seal_expunge_orphan_audit_synthetic env iid"
| "run_noun env (Supplement ev verb reason) = append_supplementary_audit ev verb reason"
| "run_noun env Wipe = wipe_all_content"
| "run_noun env (Propose f now) = ignoring (propose env f now)"
| "run_noun env (Associate f now) = ignoring (associate env f now)"
| "run_noun env (Learn f now) = ignoring (learn env f now)"

end
