(* ===== verification/Noun_Laws.thy ===== *)
theory Noun_Laws
  imports Estate_Laws Noun_Store
begin

text \<open>
  What the operations on the other tables of an estate keep, and what they do: none of them moves a
  drawer, a node or an aggregate; facts that are withdrawn leave the active reads, a learned reference is
  grounded in a catalogued source, an association is stored once per natural key, and the sweep for
  unaudited tombstones.
\<close>

section \<open>Writes outside the drawers\<close>

lemma core_outside [simp]:
  "core (es_tunnels_update g1 s) = core s" "core (es_facts_update g2 s) = core s"
  "core (es_proposals_update g3 s) = core s" "core (es_associations_update g4 s) = core s"
  "core (es_references_update g5 s) = core s" "core (es_sources_update g6 s) = core s"
  "core (es_diary_update g7 s) = core s" "core (es_traces_update g8 s) = core s" "core (es_audit_update g9 s) = core s"
  by (simp_all add: core_def quiet_def)

lemma keeps_outside:
  assumes "core_only I" "\<And>g s. core (upd g s) = core s"
  shows "keeps I (insert_row t upd k row)" "keeps I (update_rows upd p f)" "keeps I (delete_rows upd p)"
  unfolding insert_row_def update_rows_def delete_rows_def
  by (rule keeps_core_storage [OF assms(1)], auto simp: assms(2) split: if_splits)+

lemma keeps_Pair [intro!]: "keeps I (Pair r)"
  by (simp add: keeps_iff)

lemma keeps_wipe: "drawers_tame I \<Longrightarrow> keeps I wipe_all_content"
  unfolding wipe_all_content_def update_rows_def
proof (rule keeps_storage)
  fix s a s'
  assume I: "drawers_tame I" "I s"
    and "Inr ((), es_drawers_update (map (\<lambda>r. if True then r\<lparr>content := []\<rparr> else r)) s) = Inr (a, s')"
  then have "core s' = core (s\<lparr>es_drawers := map (\<lambda>d. if True then d\<lparr>content := []\<rparr> else d) (es_drawers s)\<rparr>)"
    by (auto simp: core_def quiet_def)
  then show "I s'" by (rule drawers_tameD [OF I tame_writes(2)])
qed (auto intro: drawers_tame_core core_only_quiet)

lemma keeps_nouns:
  assumes I: "drawers_tame I"
  shows "keeps I (found_tunnel i)" "keeps I (set_tunnel_operational i v)" "keeps I (add_kg_fact f)"
    "keeps I (withdraw_kg_fact i)" "keeps I (add_proposal p)" "keeps I (add_association a)"
    "keeps I (add_learned_reference r)" "keeps I (add_source_catalog_entry c)"
    "keeps I (source_catalog_entry_for_handle h)" "keeps I (mark_trace t)" "keeps I (seal_expunge_audit ev)"
    "keeps I (endpoint_names env i)"
proof -
  note C = drawers_tame_core [OF I]
  note [intro!] = keeps_reads [OF C] keeps_read_drawer [OF C] keeps_outside [OF C]
  show "keeps I (found_tunnel i)" "keeps I (set_tunnel_operational i v)" "keeps I (add_kg_fact f)"
    "keeps I (withdraw_kg_fact i)" "keeps I (add_proposal p)"
    "keeps I (add_learned_reference r)" "keeps I (add_source_catalog_entry c)"
    "keeps I (source_catalog_entry_for_handle h)" "keeps I (mark_trace t)" "keeps I (seal_expunge_audit ev)"
    "keeps I (endpoint_names env i)"
    by (auto simp: found_tunnel_def get_tunnel_def set_tunnel_operational_def add_kg_fact_def withdraw_kg_fact_def
        get_kg_fact_def add_proposal_def add_learned_reference_def add_source_catalog_entry_def
        source_catalog_entry_for_handle_def mark_trace_def seal_expunge_audit_def endpoint_names_def node_of_def Let_def)
  show "keeps I (add_association a)"
    unfolding add_association_def
    by (intro keeps_seq keeps_pure keeps_core_storage [OF C]) (auto split: if_splits)
qed

text \<open>The invariants of the drawers survive every operation on the other tables.\<close>

lemma keeps_run_noun:
  assumes I: "drawers_tame I"
  shows "keeps I (run_noun env op)"
proof -
  note C = drawers_tame_core [OF I]
  note [intro!] = keeps_nouns [OF I] keeps_reads [OF C] keeps_read_drawer [OF C] keeps_outside [OF C] keeps_draws [OF C]
    keeps_wipe [OF I]
  have prune: "keeps I (prune_recall_traces cutoff)" for cutoff
    unfolding prune_recall_traces_def by (rule keeps_core_storage [OF C]) auto
  have verbs: "keeps I (propose env pf now)" "keeps I (associate env af now)" "keeps I (learn env lf now)" for pf af lf now
    by (auto simp: propose_def associate_def learn_def Let_def)
  have marks: "keeps I (mark_recall_trace_used i)" "keeps I (mark_recall_traces_used i since now)" for i since now
    by (auto simp: mark_recall_trace_used_def get_recall_trace_def mark_recall_traces_used_def)
  have seals: "keeps I (seal_expunge_orphan_audit_synthetic env i)" for i
    by (auto simp: seal_expunge_orphan_audit_synthetic_def seal_expunge_orphan_for_sweep_def)
  show ?thesis
    by (cases op) (auto simp: ignoring_def retire_tunnel_def unretire_tunnel_def respond_to_tunnel_def Let_def
        add_diary_entry_def insert_recall_trace_def seal_expunge_orphan_audit_def append_supplementary_audit_def
        intro: prune verbs marks seals)
qed

section \<open>The sweep for unaudited tombstones\<close>

lemma map_act_ok: "(\<And>x. x \<in> set xs \<Longrightarrow> f x s = (Inr (g x), s)) \<Longrightarrow> map_act f xs s = (Inr (map g xs), s)"
  by (induction xs) (simp_all add: act_bind_Inr)

lemma filter_zip_map: "map fst (filter (\<lambda>(_, k). P k) (zip xs (map g xs))) = filter (\<lambda>x. P (g x)) xs"
  by (induction xs) auto

text \<open>A tombstoned row without an event of an expunge.\<close>

definition expunge_recorded :: "estate \<Rightarrow> string \<Rightarrow> bool" where
  "expunge_recorded s iid \<longleftrightarrow> (\<exists>ev \<in> set (es_audit s). ev_row ev = iid \<and> ev_verb ev \<in> set expunge_verbs)"

definition orphans :: "estate \<Rightarrow> drawer list" where
  "orphans s = filter (\<lambda>d. \<not> expunge_recorded s (drawer_id d))
     (sort_key drawer_tombstoned_at (filter (\<lambda>d. drawer_tombstoned_at d \<noteq> None) (es_drawers s)))"

definition drawer_uuids :: "env \<Rightarrow> estate \<Rightarrow> bool" where
  "drawer_uuids env s \<longleftrightarrow> (\<forall>d \<in> set (es_drawers s). env_is_uuid env (drawer_id d))"

lemma the_uuid_ok: "env_is_uuid env i \<Longrightarrow> the_uuid env i label s = (Inr i, s)"
  by (simp add: the_uuid_def require_uuid_def)

lemma sweep_quiet:
  assumes "quiet s" "drawer_uuids env s"
  shows "tombstoned_rows_without_expunge_audit env s = (Inr (orphans s), s)"
proof -
  let ?ds = "sort_key drawer_tombstoned_at (filter (\<lambda>d. drawer_tombstoned_at d \<noteq> None) (es_drawers s))"
  have "map_act (\<lambda>d. the_uuid env (drawer_id d) ''drawerId'') ?ds s = (Inr (map drawer_id ?ds), s)"
    by (rule map_act_ok, rule the_uuid_ok) (use assms(2) in \<open>auto simp: drawer_uuids_def\<close>)
  moreover have "k \<in> set (map drawer_id ?ds) \<Longrightarrow>
      k \<in> ev_row ` {ev \<in> set (es_audit s). ev_row ev \<in> set (map drawer_id ?ds) \<and> ev_verb ev \<in> set expunge_verbs} \<longleftrightarrow> expunge_recorded s k"
    for k by (force simp: expunge_recorded_def)
  then have "filter (\<lambda>d. drawer_id d \<notin> ev_row ` {ev \<in> set (es_audit s).
      ev_row ev \<in> set (map drawer_id ?ds) \<and> ev_verb ev \<in> set expunge_verbs}) ?ds = orphans s"
    unfolding orphans_def by (intro filter_cong) auto
  ultimately show ?thesis using assms(1)
    by (cases "?ds = []")
      (auto simp: tombstoned_rows_without_expunge_audit_def act_bind_Inr filter_zip_map orphans_def)
qed

lemma seal_quiet:
  assumes "quiet s" "d \<in> set (es_drawers s)" "env_is_uuid env (drawer_id d)"
  shows "\<exists>ev. seal_expunge_orphan_audit_synthetic env (drawer_id d) s = (Inr (), s\<lparr>es_audit := es_audit s @ [ev]\<rparr>)
    \<and> ev_row ev = drawer_id d \<and> ev_verb ev = EXPUNGE_ORPHAN"
proof -
  obtain x where x: "List.find (\<lambda>r. drawer_id r = drawer_id d) (es_drawers s) = Some x"
    using assms(2) by (cases "List.find (\<lambda>r. drawer_id r = drawer_id d) (es_drawers s)") (auto simp: find_None_iff)
  obtain b where b: "changed_by_or_estate s = (Inr b, s)"
    using assms(1) by (cases "es_owner s = []") (simp_all add: changed_by_or_estate_def attempt_def act_bind_def storage_quiet)
  have r: "read_drawer (drawer_id d) f s = (Inr (f x), s)" for f :: "drawer \<Rightarrow> 'z"
    using x assms(1) by (simp add: read_drawer_def)
  have bm: "read_bitmaps (drawer_id d) s = (Inr (adjective_bitmap x, operational_bitmap x, provenance x), s)"
    using x assms(1) by (simp add: read_bitmaps_def read_drawer_bitmap_def read_drawer_def act_bind_Inr)
  have u: "read_drawer_udc (drawer_id d) s = (Inr (udc_code x), s)"
    using x assms(1) by (simp add: read_drawer_udc_def read_drawer_def)
  let ?ev = "\<lparr>ev_row = drawer_id d, ev_verb = EXPUNGE_ORPHAN, ev_before = None,
    ev_after = (adjective_bitmap x, operational_bitmap x, provenance x), ev_before_anchor = None,
    ev_after_anchor = (udc_code x, []), ev_actor = b, ev_reason = None\<rparr>"
  have "seal_expunge_orphan_audit_synthetic env (drawer_id d) s = (Inr (), s\<lparr>es_audit := es_audit s @ [?ev]\<rparr>)"
    using assms(1) the_uuid_ok [OF assms(3)]
    by (simp add: seal_expunge_orphan_audit_synthetic_def seal_expunge_orphan_for_sweep_def act_bind_Inr b bm u
        append_audit_def storage_quiet)
  then show ?thesis by (intro exI [of _ ?ev]) simp
qed

lemma seals_quiet:
  assumes "quiet s" "drawer_uuids env s" "set ds \<subseteq> set (es_drawers s)"
  shows "\<exists>evs. for_each (\<lambda>d. seal_expunge_orphan_audit_synthetic env (drawer_id d)) ds s
      = (Inr (), s\<lparr>es_audit := es_audit s @ evs\<rparr>)
    \<and> map ev_row evs = map drawer_id ds \<and> (\<forall>ev \<in> set evs. ev_verb ev = EXPUNGE_ORPHAN)"
  using assms
proof (induction ds arbitrary: s)
  case Nil
  have "s = s\<lparr>es_audit := es_audit s @ []\<rparr>" by simp
  then show ?case by (metis act_simps(1) empty_iff for_each.simps(1) list.set(1) list.simps(8))
next
  case (Cons d ds)
  obtain ev where ev: "seal_expunge_orphan_audit_synthetic env (drawer_id d) s = (Inr (), s\<lparr>es_audit := es_audit s @ [ev]\<rparr>)"
    "ev_row ev = drawer_id d" "ev_verb ev = EXPUNGE_ORPHAN"
    using seal_quiet [OF Cons.prems(1), of d env] Cons.prems by (auto simp: drawer_uuids_def)
  let ?s = "s\<lparr>es_audit := es_audit s @ [ev]\<rparr>"
  have "quiet ?s" "drawer_uuids env ?s" "set ds \<subseteq> set (es_drawers ?s)"
    using Cons.prems by (simp_all add: drawer_uuids_def)
  from Cons.IH [OF this] obtain evs where
    "for_each (\<lambda>d. seal_expunge_orphan_audit_synthetic env (drawer_id d)) ds ?s = (Inr (), ?s\<lparr>es_audit := es_audit ?s @ evs\<rparr>)"
    "map ev_row evs = map drawer_id ds" "\<forall>ev \<in> set evs. ev_verb ev = EXPUNGE_ORPHAN" by blast
  then show ?case using ev by (intro exI [of _ "ev # evs"]) (simp add: act_seq_Inr)
qed

text \<open>Sealing what the sweep reports leaves nothing for the next sweep.\<close>

lemma orphans_sealed:
  assumes "map ev_row evs = map drawer_id (orphans s)" "\<forall>ev \<in> set evs. ev_verb ev = EXPUNGE_ORPHAN"
  shows "orphans (s\<lparr>es_audit := es_audit s @ evs\<rparr>) = []"
proof -
  have "expunge_recorded (s\<lparr>es_audit := es_audit s @ evs\<rparr>) (drawer_id d)"
    if d: "d \<in> set (es_drawers s)" "drawer_tombstoned_at d \<noteq> None" for d
  proof (cases "expunge_recorded s (drawer_id d)")
    case False
    then have "drawer_id d \<in> set (map ev_row evs)" using d by (auto simp: assms(1) orphans_def)
    then show ?thesis using assms(2) by (auto simp: expunge_recorded_def expunge_verbs_def)
  qed (auto simp: expunge_recorded_def)
  then show ?thesis by (auto simp: orphans_def filter_empty_conv)
qed

section \<open>Facts, associations and learned references\<close>

lemma insert_row_Inr:
  "quiet s \<Longrightarrow> insert_row t upd k row s = (Inr u, s') \<longleftrightarrow> k row \<notin> k ` set (t s) \<and> s' = upd (\<lambda>rows. rows @ [row]) s"
  by (auto simp: insert_row_def storage_quiet)

lemma validate_seq: "act_seq (validate_non_empty v label) m s = (if v = [] then (Inl (InvalidContent (label @ '' must not be empty'')), s) else m s)"
  by (simp add: validate_non_empty_def)

lemma withdrawn_fact_inactive: "\<not> active_fact (f\<lparr>fact_adjective := (b AND NOT 0x3F) OR word_of_int (State_raw State_Withdrawn)\<rparr>)"
proof -
  let ?w = "word_of_int (State_raw State_Withdrawn) :: i64"
  have "((b AND NOT 0x3F) OR ?w) AND 0x3F = ((b AND NOT 0x3F) AND 0x3F) OR (?w AND 0x3F)"
    by (rule bit.conj_disj_distrib2)
  moreover have "(b AND NOT 0x3F) AND 0x3F = 0" by (simp add: and.assoc)
  ultimately have "((b AND NOT 0x3F) OR ?w) AND 0x3F = ?w AND 0x3F" by (simp only: or.left_neutral)
  then show ?thesis by (simp add: active_fact_def ACTIVE_CLUSTER_UPPER_BOUND_RAW_def)
qed

text \<open>A withdrawn fact leaves the active reads and stays in the timeline.\<close>

lemma withdraw_fact_effect:
  assumes "quiet s" "withdraw_kg_fact iid s = (Inr (), s')"
  shows "length (es_facts s') = length (es_facts s) \<and> map fact_id (es_facts s') = map fact_id (es_facts s)
    \<and> (\<forall>f \<in> set (es_facts s'). fact_id f = iid \<longrightarrow> \<not> active_fact f)
    \<and> filter (\<lambda>f. fact_id f \<noteq> iid) (es_facts s') = filter (\<lambda>f. fact_id f \<noteq> iid) (es_facts s)"
proof -
  obtain f where f: "iid \<noteq> []" "List.find (\<lambda>f. fact_id f = iid) (es_facts s) = Some f"
    using assms by (cases "List.find (\<lambda>f. fact_id f = iid) (es_facts s)")
      (simp_all add: withdraw_kg_fact_def validate_seq get_kg_fact_def split: if_splits)
  let ?b = "(fact_adjective f AND NOT 0x3F) OR word_of_int (State_raw State_Withdrawn)"
  have "withdraw_kg_fact iid s = update_rows es_facts_update (\<lambda>f. fact_id f = iid) (\<lambda>f. f\<lparr>fact_adjective := ?b\<rparr>) s"
    using assms(1) f by (simp only: withdraw_kg_fact_def validate_seq get_kg_fact_def query_bind if_False option.case Let_def)
  then have "s' = es_facts_update (map (\<lambda>x. if fact_id x = iid then x\<lparr>fact_adjective := ?b\<rparr> else x)) s"
    using assms by (simp only: update_rows_def storage_quiet) simp
  then have e: "es_facts s' = map (\<lambda>x. if fact_id x = iid then x\<lparr>fact_adjective := ?b\<rparr> else x) (es_facts s)" by simp
  have "\<not> active_fact x" if x: "x \<in> set (es_facts s')" "fact_id x = iid" for x
  proof -
    obtain y where "x = (if fact_id y = iid then y\<lparr>fact_adjective := ?b\<rparr> else y)"
      using x(1) unfolding e set_map image_iff by blast
    then show ?thesis using x(2) withdrawn_fact_inactive [where f = y and b = "fact_adjective f"]
      by (cases "fact_id y = iid") (simp_all only: simp_thms if_True if_False)
  qed
  moreover have "map fact_id (map (\<lambda>f. if fact_id f = iid then f\<lparr>fact_adjective := x\<rparr> else f) fs) = map fact_id fs"
    "filter (\<lambda>f. fact_id f \<noteq> iid) (map (\<lambda>f. if fact_id f = iid then f\<lparr>fact_adjective := x\<rparr> else f) fs)
      = filter (\<lambda>f. fact_id f \<noteq> iid) fs" for x fs
    by (induction fs) auto
  ultimately show ?thesis by (simp only: e length_map) blast
qed

text \<open>Storing an association again, by its id or its natural key, changes nothing.\<close>

lemma association_again:
  assumes "quiet s" "add_association a s = (Inr (), s')"
  shows "add_association a s' = (Inr (), s')"
proof -
  have "quiet s' \<and> list_ex (\<lambda>b. association_id b = association_id a \<or> same_edge a b) (es_associations s')"
    using assms by (auto simp: add_association_def validate_seq storage_quiet quiet_def list_ex_iff split: if_splits)
  moreover have "add_association a s' = storage (\<lambda>s.
      if list_ex (\<lambda>b. association_id b = association_id a \<or> same_edge a b) (es_associations s) then Inr ((), s)
      else Inr ((), s\<lparr>es_associations := es_associations s @ [a]\<rparr>)) s'"
    using assms(2) by (auto simp: add_association_def validate_seq split: if_splits)
  ultimately show ?thesis by (simp add: storage_quiet)
qed

text \<open>A learned reference is grounded in a catalogued source of its handle, and the catalog keeps one entry per handle.\<close>

lemma learn_grounded:
  assumes "quiet s" "learn env f now s = (Inr r, s')" "distinct (map catalog_handle (es_sources s))"
  shows "r \<in> set (es_references s') \<and> distinct (map catalog_handle (es_sources s'))
    \<and> (\<exists>c \<in> set (es_sources s'). source_catalog_id r = catalog_id c \<and> reference_anchor r = catalog_anchor c
      \<and> catalog_handle c = catalog_handle (learn_source f))"
proof -
  let ?h = "catalog_handle (learn_source f)"
  let ?rows = "take 1 (sort_key first_seen (filter (\<lambda>c. catalog_handle c = ?h) (es_sources s)))"
  let ?found = "case ?rows of [] \<Rightarrow> None | c # _ \<Rightarrow> Some c"
  have found: "source_catalog_entry_for_handle ?h s = (Inr ?found, s)"
    using assms(1) by (simp add: source_catalog_entry_for_handle_def act_bind_Inr)
  let ?K = "\<lambda>c. act_bind (draw_uuid env) (\<lambda>iid.
      let r = (learned_reference_new iid (catalog_id c) (learn_handle f) (catalog_anchor c) ''learn'' now)
          \<lparr>reference_operational := learn_operational env f c\<rparr>
      in act_seq (add_learned_reference r) (act_ok r))"
  have run: "act_bind (case ?found of Some c \<Rightarrow> act_ok c
      | None \<Rightarrow> act_seq (add_source_catalog_entry (learn_source f)) (act_ok (learn_source f))) ?K s = (Inr r, s')"
    using assms(2) by (simp add: learn_def require_def act_bind_Inr found split: if_splits)
  have "\<exists>c s1. c \<in> set (es_sources s1) \<and> catalog_handle c = ?h \<and> distinct (map catalog_handle (es_sources s1)) \<and> quiet s1
      \<and> ?K c s1 = (Inr r, s')"
  proof (cases ?found)
    case None
    then have "sort_key first_seen (filter (\<lambda>c. catalog_handle c = ?h) (es_sources s)) = []"
      by (cases "sort_key first_seen (filter (\<lambda>c. catalog_handle c = ?h) (es_sources s))") simp_all
    then have "filter (\<lambda>c. catalog_handle c = ?h) (es_sources s) = []" by (metis set_empty set_sort)
    then have new: "?h \<notin> catalog_handle ` set (es_sources s)" by (auto simp: filter_empty_conv)
    obtain q s1 where q: "add_source_catalog_entry (learn_source f) s = (q, s1)" by force
    then obtain u where u: "q = Inr u" using run None by (cases q) (simp_all add: act_bind_def act_seq_def)
    then have s1: "s1 = es_sources_update (\<lambda>rows. rows @ [learn_source f]) s"
      using q assms(1) by (simp add: add_source_catalog_entry_def validate_seq insert_row_Inr split: if_splits)
    have "?K (learn_source f) s1 = (Inr r, s')" using run None q u by (simp add: act_bind_def act_seq_def)
    then show ?thesis using s1 new assms(1,3)
      by (intro exI [of _ "learn_source f"] exI [of _ s1]) (simp add: quiet_def)
  next
    case (Some c)
    then obtain cs where "sort_key first_seen (filter (\<lambda>c. catalog_handle c = ?h) (es_sources s)) = c # cs"
      by (cases "sort_key first_seen (filter (\<lambda>c. catalog_handle c = ?h) (es_sources s))") simp_all
    then have "c \<in> set (sort_key first_seen (filter (\<lambda>c. catalog_handle c = ?h) (es_sources s)))" by simp
    then have c: "c \<in> set (es_sources s)" "catalog_handle c = ?h" by simp_all
    have "?K c s = (Inr r, s')" using run Some by simp
    then show ?thesis using c assms(1,3) by (intro exI [of _ c] exI [of _ s]) simp
  qed
  then obtain c s1 where c: "c \<in> set (es_sources s1)" "catalog_handle c = ?h" "distinct (map catalog_handle (es_sources s1))"
    "quiet s1" "?K c s1 = (Inr r, s')" by blast
  let ?r = "(learned_reference_new (env_fresh env (es_drawn s1)) (catalog_id c) (learn_handle f) (catalog_anchor c) ''learn'' now)
          \<lparr>reference_operational := learn_operational env f c\<rparr>"
  let ?s = "s1\<lparr>es_drawn := es_drawn s1 + 1\<rparr>"
  have K: "act_seq (add_learned_reference ?r) (act_ok ?r) ?s = (Inr r, s')"
    using c(5) by (simp add: act_bind_def draw_uuid_def Let_def)
  obtain q s2 where q: "add_learned_reference ?r ?s = (q, s2)" by force
  then obtain u where "q = Inr u" using K by (cases q) (simp_all add: act_seq_Inl)
  then have "r = ?r" "s2 = s'" "add_learned_reference ?r ?s = (Inr u, s')"
    using K q by (simp_all add: act_seq_Inr)
  moreover from this have "s' = es_references_update (\<lambda>rows. rows @ [?r]) ?s"
    using c(4) by (simp add: add_learned_reference_def validate_seq insert_row_Inr split: if_splits)
  ultimately show ?thesis using c by (auto simp: learned_reference_new_def)
qed

end
