(* ===== verification/Estate_History.thy ===== *)
theory Estate_History
  imports Noun_Laws
begin

text \<open>
  The histories of an estate: opening it, its verbs and the operations on its other tables, their failures, and the rebuilding of the
  aggregates, which restores their coverage after a reanchoring or a failed capture.
\<close>

section \<open>Rebuilding the aggregates\<close>

lemma rebuild_room_quiet:
  "quiet s \<Longrightarrow> act_bind (rebuild_room env wing room ds) (\<lambda>_. act_ok ()) s =
    (Inr (), s\<lparr>es_fps := AList.update (wing, room) (fold (\<lambda>d acc. merging env acc (drawer_fp d)) ds cf_zero) (es_fps s)\<rparr>)"
  by (simp add: rebuild_room_def act_bind_def act_seq_Inr Let_def)

definition rolled :: "env \<Rightarrow> string \<Rightarrow> ((string \<times> string) \<times> container_fingerprint) list
    \<Rightarrow> ((string \<times> string) \<times> container_fingerprint) list" where
  "rolled env wing fps = AList.update (wing, [])
     (fold (\<lambda>row acc. merging env acc (snd row)) (filter (\<lambda>((w, room), _). w = wing \<and> room \<noteq> []) fps) cf_zero) fps"

lemma roll_up_quiet:
  "quiet s \<Longrightarrow> act_bind (roll_up_wing env wing) (\<lambda>_. act_ok ()) s = (Inr (), s\<lparr>es_fps := rolled env wing (es_fps s)\<rparr>)"
  by (simp add: roll_up_wing_def rolled_def act_bind_def act_seq_Inr Let_def WING_ROLLUP_ROOM_def)

text \<open>Actions that only rewrite the aggregates.\<close>

definition sets_fps :: "unit act \<Rightarrow> (((string \<times> string) \<times> container_fingerprint) list
    \<Rightarrow> ((string \<times> string) \<times> container_fingerprint) list) \<Rightarrow> bool" where
  "sets_fps m g \<longleftrightarrow> (\<forall>s. quiet s \<longrightarrow> m s = (Inr (), s\<lparr>es_fps := g (es_fps s)\<rparr>))"

lemma sets_fps_seq: "sets_fps m g \<Longrightarrow> sets_fps n h \<Longrightarrow> sets_fps (act_seq m n) (h \<circ> g)"
  by (simp add: sets_fps_def act_seq_Inr)

lemma sets_fps_each: "(\<And>x. sets_fps (f x) (g x)) \<Longrightarrow> sets_fps (for_each f xs) (fold g xs)"
proof (induction xs)
  case Nil
  have "s = s\<lparr>es_fps := es_fps s\<rparr>" for s by simp
  then show ?case by (simp add: sets_fps_def)
next
  case (Cons x xs)
  show ?case using sets_fps_seq [OF Cons.prems Cons.IH [OF Cons.prems]] by (simp add: o_def)
qed

definition member_rows :: "((string \<times> string) \<times> drawer) list \<Rightarrow> string \<times> string \<Rightarrow> drawer list" where
  "member_rows rows wr = map snd (filter (\<lambda>(k, _). k = wr) rows)"

definition room_names :: "((string \<times> string) \<times> drawer) list \<Rightarrow> string \<Rightarrow> string list" where
  "room_names rows wing = sort (remdups (map (snd \<circ> fst) (filter (\<lambda>((w, _), _). w = wing) rows)))"

definition wing_names :: "((string \<times> string) \<times> drawer) list \<Rightarrow> string list" where
  "wing_names rows = sort (remdups (map (fst \<circ> fst) rows))"

definition room_fps :: "env \<Rightarrow> ((string \<times> string) \<times> drawer) list \<Rightarrow> string \<Rightarrow> string
    \<Rightarrow> ((string \<times> string) \<times> container_fingerprint) list \<Rightarrow> ((string \<times> string) \<times> container_fingerprint) list" where
  "room_fps env rows wing room =
     AList.update (wing, room) (fold (\<lambda>d acc. merging env acc (drawer_fp d)) (member_rows rows (wing, room)) cf_zero)"

definition wing_fps :: "env \<Rightarrow> ((string \<times> string) \<times> drawer) list \<Rightarrow> string
    \<Rightarrow> ((string \<times> string) \<times> container_fingerprint) list \<Rightarrow> ((string \<times> string) \<times> container_fingerprint) list" where
  "wing_fps env rows wing = rolled env wing \<circ> fold (room_fps env rows wing) (room_names rows wing)"

lemma rebuild_all_sets:
  "sets_fps (rebuild_all env ds names) (fold (wing_fps env (placed names ds)) (wing_names (placed names ds)))"
  unfolding rebuild_all_def Let_def wing_names_def wing_fps_def room_names_def
proof (intro sets_fps_each sets_fps_seq)
  show "sets_fps (act_bind (rebuild_room env wing room
          (map snd (filter (\<lambda>(wr, _). wr = (wing, room)) (placed names ds)))) (\<lambda>_. act_ok ()))
        (room_fps env (placed names ds) wing room)" for wing room
    using rebuild_room_quiet by (simp add: sets_fps_def room_fps_def member_rows_def)
  show "sets_fps (act_bind (roll_up_wing env wing) (\<lambda>_. act_ok ())) (rolled env wing)" for wing
    using roll_up_quiet by (simp add: sets_fps_def)
qed

text \<open>The keys written are containers of rows, or the key of a wing.\<close>

definition fps_ok :: "node list \<Rightarrow> ((string \<times> string) \<times> container_fingerprint) list \<Rightarrow> bool" where
  "fps_ok ns fps \<longleftrightarrow> distinct (map fst fps) \<and> (\<forall>wr \<in> fst ` set fps. snd wr \<noteq> [] \<longrightarrow> (\<exists>iid. place ns iid wr))"

lemma fps_ok_update:
  "fps_ok ns fps \<Longrightarrow> (snd key \<noteq> [] \<longrightarrow> (\<exists>iid. place ns iid key)) \<Longrightarrow> fps_ok ns (AList.update key fp fps)"
  by (auto simp: fps_ok_def distinct_update dom_update)

lemma base_ok_fps: "base_ok env s \<Longrightarrow> fps_ok (es_nodes s) fps \<Longrightarrow> base_ok env (s\<lparr>es_fps := fps\<rparr>)"
  by (force simp: base_ok_def fps_ok_def)

lemma base_ok_fps_ok: "base_ok env s \<Longrightarrow> fps_ok (es_nodes s) (es_fps s)"
  by (force simp: base_ok_def fps_ok_def)

lemma fps_ok_fold: "(\<And>x fps. x \<in> set xs \<Longrightarrow> fps_ok ns fps \<Longrightarrow> fps_ok ns (g x fps)) \<Longrightarrow> fps_ok ns fps \<Longrightarrow> fps_ok ns (fold g xs fps)"
  by (induction xs arbitrary: fps) auto

lemma fps_ok_wing:
  assumes "\<forall>wr \<in> fst ` set rows. \<exists>iid. place ns iid wr" "fps_ok ns fps"
  shows "fps_ok ns (wing_fps env rows wing fps)"
proof -
  have "fps_ok ns (fold (room_fps env rows wing) (room_names rows wing) fps)"
  proof (rule fps_ok_fold [OF _ assms(2)])
    fix room fps assume "room \<in> set (room_names rows wing)" "fps_ok ns fps"
    moreover from this have "(wing, room) \<in> fst ` set rows" by (force simp: room_names_def)
    ultimately show "fps_ok ns (room_fps env rows wing room fps)"
      using assms(1) unfolding room_fps_def by (blast intro: fps_ok_update)
  qed
  then show ?thesis by (simp add: wing_fps_def rolled_def fps_ok_update)
qed

context estate_env
begin

lemma covers_right [simp]: "covers delta op \<Longrightarrow> covers (merging env fp delta) op"
  by (auto simp: covers_def merging_def or_law bit_eq_iff bit_and_iff bit_or_iff bit_not_iff)

lemma covers_own [simp]: "covers (drawer_fp d) (operational_bitmap d)"
  by (simp add: covers_def drawer_fp_def)

lemma covers_fold:
  "covers acc op \<or> (\<exists>x \<in> set xs. covers (g x) op) \<Longrightarrow> covers (fold (\<lambda>x acc. merging env acc (g x)) xs acc) op"
  by (induction xs arbitrary: acc) auto

text \<open>What processing a wing leaves for the drawers placed in it, and for those of other wings.\<close>

lemma room_fps_other: "fst k \<noteq> wing \<Longrightarrow> map_of (fold (room_fps env rows wing) rooms fps) k = map_of fps k"
  by (induction rooms arbitrary: fps) (auto simp: room_fps_def update_conv')

lemma wing_fps_other: "fst k \<noteq> wing \<Longrightarrow> map_of (wing_fps env rows wing fps) k = map_of fps k"
  using room_fps_other by (auto simp: wing_fps_def rolled_def update_conv')

lemma room_fps_own:
  "room \<in> set rooms \<Longrightarrow> map_of (fold (room_fps env rows wing) rooms fps) (wing, room) =
    Some (fold (\<lambda>d acc. merging env acc (drawer_fp d)) (member_rows rows (wing, room)) cf_zero)"
proof (induction rooms arbitrary: fps)
  case (Cons x rooms)
  have keep: "map_of (fold (room_fps env rows wing) rooms fps) (wing, room) = map_of fps (wing, room)"
    if "room \<notin> set rooms" for fps
    using that by (induction rooms arbitrary: fps) (auto simp: room_fps_def update_conv')
  show ?case
  proof (cases "room \<in> set rooms")
    case True
    then show ?thesis using Cons.IH by simp
  next
    case False
    then have "room = x" using Cons.prems by simp
    then show ?thesis using keep [OF False] by simp (simp add: room_fps_def update_conv')
  qed
qed simp

lemma wing_fps_covers:
  assumes row: "((wing, room), d) \<in> set rows" and room: "room \<noteq> []"
  shows "covered_at (wing_fps env rows wing fps) (wing, room) d \<and> covered_at (wing_fps env rows wing fps) (wing, []) d"
proof -
  let ?fps = "fold (room_fps env rows wing) (room_names rows wing) fps"
  let ?fp = "fold (\<lambda>d acc. merging env acc (drawer_fp d)) (member_rows rows (wing, room)) cf_zero"
  have "d \<in> set (member_rows rows (wing, room))" using row by (force simp: member_rows_def)
  then have c: "covers ?fp (operational_bitmap d)" using covers_own by (intro covers_fold) blast
  have "room \<in> set (room_names rows wing)" using row by (force simp: room_names_def)
  then have own: "map_of ?fps (wing, room) = Some ?fp" by (rule room_fps_own)
  then have "((wing, room), ?fp) \<in> set (filter (\<lambda>((w, room), _). w = wing \<and> room \<noteq> []) ?fps)"
    using room by (auto dest: map_of_SomeD)
  then have "covers (fold (\<lambda>row acc. merging env acc (snd row))
      (filter (\<lambda>((w, room), _). w = wing \<and> room \<noteq> []) ?fps) cf_zero) (operational_bitmap d)"
    using c by (intro covers_fold) force
  then show ?thesis using c own room
    by (auto simp: covered_at_def wing_fps_def rolled_def update_conv')
qed

lemma wings_cover:
  assumes "((wing, room), d) \<in> set rows" "room \<noteq> []" "wing \<in> set wings" "distinct wings"
  shows "covered_at (fold (wing_fps env rows) wings fps) (wing, room) d
    \<and> covered_at (fold (wing_fps env rows) wings fps) (wing, []) d"
  using assms(3,4)
proof (induction wings arbitrary: fps)
  case (Cons w wings)
  have keep: "map_of (fold (wing_fps env rows) wings fps) k = map_of fps k" if "fst k \<notin> set wings" for k fps
    using that by (induction wings arbitrary: fps) (auto simp: wing_fps_other)
  show ?case
  proof (cases "w = wing")
    case True
    then show ?thesis using Cons.prems wing_fps_covers [OF assms(1,2)] keep by (simp add: covered_at_def)
  next
    case False
    then show ?thesis using Cons by simp
  qed
qed simp

lemma rebuild_ok:
  assumes "base_ok env s"
  shows "\<exists>s'. rebuild_container_fingerprints env s = (Inr (), s') \<and> estate_ok env True s'
    \<and> es_drawers s' = es_drawers s \<and> es_nodes s' = es_nodes s"
proof -
  have q: "quiet s" and tree: "tree_ok env (es_nodes s)" using assms by (simp_all add: base_ok_def)
  let ?all = "sort_key (\<lambda>d. (drawer_filed_at d, drawer_id d)) (es_drawers s)"
  let ?active = "filter (\<lambda>d. drawer_tombstoned_at d = None) ?all"
  obtain rn sn where nm: "resolve_node_names (map parent_node_id ?active) s = (rn, sn)" by force
  show ?thesis
  proof (cases "?active = []")
    case True
    then have "rebuild_container_fingerprints env s = (Inr (), s)" using q
      by (simp add: rebuild_container_fingerprints_def all_drawers_def act_bind_def act_seq_Inr resolve_node_names_def
          rebuild_all_def placed_def List.map_filter_def Let_def)
    moreover have "\<not> live d" if "d \<in> set (es_drawers s)" for d
      using True that by (auto simp: live_def filter_empty_conv)
    then have "estate_ok env True s" using assms by (auto simp: estate_ok_def covered_but_def)
    ultimately show ?thesis by blast
  next
    case False
    then obtain d0 where d0: "d0 \<in> set ?active" by (meson list.set_sel(1))
    obtain wr0 where "place (es_nodes s) (parent_node_id d0) wr0"
      using assms d0 by (auto simp: base_ok_def)
    then obtain names where names: "resolve_node_names (map parent_node_id ?active) s = (Inr names, s)"
      using place_names [OF tree q _ _ nm, of "parent_node_id d0" wr0] d0 nm by auto
    let ?rows = "placed names ?active"
    let ?fps = "fold (wing_fps env ?rows) (wing_names ?rows) (es_fps s)"
    have place: "names (parent_node_id d) = Some wr" if "d \<in> set ?active" "place (es_nodes s) (parent_node_id d) wr" for d wr
      using place_names [OF tree q _ that(2) names] that(1) by auto
    have run: "rebuild_container_fingerprints env s = (Inr (), s\<lparr>es_fps := ?fps\<rparr>)"
      using q names rebuild_all_sets [of env ?active names, unfolded sets_fps_def]
      by (simp add: rebuild_container_fingerprints_def all_drawers_def act_bind_def act_seq_Inr Let_def)
    have rows: "\<exists>d \<in> set ?active. names (parent_node_id d) = Some wr" if "wr \<in> fst ` set ?rows" for wr
      using that by (auto simp: placed_def map_filter_def)
    have "\<exists>iid. place (es_nodes s) iid wr" if wr: "wr \<in> fst ` set ?rows" for wr
    proof -
      obtain d where d: "d \<in> set ?active" "names (parent_node_id d) = Some wr" using rows [OF wr] by blast
      moreover obtain wr' where "place (es_nodes s) (parent_node_id d) wr'" using assms d(1) by (auto simp: base_ok_def)
      ultimately show ?thesis using place by fastforce
    qed
    then have "fps_ok (es_nodes s) ?fps"
      by (intro fps_ok_fold fps_ok_wing base_ok_fps_ok [OF assms]) auto
    then have base: "base_ok env (s\<lparr>es_fps := ?fps\<rparr>)" by (rule base_ok_fps [OF assms])
    have "covered (s\<lparr>es_fps := ?fps\<rparr>) d" if d: "d \<in> set (es_drawers s)" "live d" for d
    proof -
      have act: "d \<in> set ?active" using d by (simp add: live_def)
      have "covered_at ?fps (wing, room) d \<and> covered_at ?fps (wing, []) d"
        if p: "place (es_nodes s) (parent_node_id d) (wing, room)" for wing room
      proof (rule wings_cover)
        show row: "((wing, room), d) \<in> set ?rows"
          using place [OF act p] act by (force simp: placed_def map_filter_def)
        show "room \<noteq> []" using p tree by (auto simp: place_def tree_ok_def)
        show "wing \<in> set (wing_names ?rows)" using row by (force simp: wing_names_def)
        show "distinct (wing_names ?rows)" by (simp add: wing_names_def)
      qed
      then show ?thesis by (simp add: covered_def)
    qed
    then have "estate_ok env True (s\<lparr>es_fps := ?fps\<rparr>)" using base by (simp add: estate_ok_def covered_but_def)
    then show ?thesis using run by simp
  qed
qed

end

section \<open>Reanchoring\<close>

lemma act_bind_assoc: "act_bind (act_bind m f) g = act_bind m (\<lambda>a. act_bind (f a) g)"
  by (auto simp: act_bind_def fun_eq_iff split: prod.split sum.split)

lemma good_base: "good env False ids s \<longleftrightarrow> base_ok env s \<and> map drawer_id (es_drawers s) = ids"
  by (simp add: good_def estate_ok_def)

lemma bad_base: "bad env False ids s \<longleftrightarrow> base_ok env s"
  by (auto simp: bad_def estate_ok_def)

lemma found_good: "triple (good env c ids) (found_drawer iid) (\<lambda>_ s. good env c ids s \<and> iid \<in> set ids) (bad env c ids)"
  unfolding triple_def
proof (intro allI impI)
  fix s assume s: "good env c ids s"
  then have q: "quiet s" by (simp add: good_def estate_ok_def base_ok_def)
  show "case found_drawer iid s of (Inl _, s') \<Rightarrow> bad env c ids s' | (Inr _, s') \<Rightarrow> good env c ids s' \<and> iid \<in> set ids"
  proof (cases "List.find (\<lambda>d. drawer_id d = iid) (es_drawers s)")
    case None
    then show ?thesis using q good_bad(1) [OF s] by (simp add: found_drawer_def get_drawer_def)
  next
    case (Some d)
    then show ?thesis using q s find_SomeD [OF Some] by (auto simp: found_drawer_def get_drawer_def good_def)
  qed
qed

definition moved :: "drawer \<Rightarrow> lattice_anchor option \<Rightarrow> string option \<Rightarrow> drawer" where
  "moved d la parent = (let d = (case la of Some la \<Rightarrow> set_anchor la d | None \<Rightarrow> d)
     in case parent of Some p \<Rightarrow> d\<lparr>parent_node_id := p\<rparr> | None \<Rightarrow> d)"

lemma moved_simps [simp]:
  "drawer_id (moved d la parent) = drawer_id d"
  "parent_node_id (moved d la parent) = (case parent of Some p \<Rightarrow> p | None \<Rightarrow> parent_node_id d)"
  by (simp_all add: moved_def set_anchor_def Let_def split: option.split)

lemma move_good:
  "triple (\<lambda>s. good env False ids s \<and> (\<forall>p. parent = Some p \<longrightarrow> at_place p s))
    (update_drawer iid (\<lambda>d. moved d la parent)) (\<lambda>_. good env False ids) E"
  unfolding triple_def
proof (intro allI impI)
  fix s assume s: "good env False ids s \<and> (\<forall>p. parent = Some p \<longrightarrow> at_place p s)"
  let ?f = "\<lambda>d. if drawer_id d = iid then moved d la parent else d"
  have ids: "drawer_id \<circ> ?f = drawer_id" by (simp add: fun_eq_iff)
  have b: "base_ok env s" using s by (simp add: good_base)
  have "\<exists>wr. place (es_nodes s) (parent_node_id (?f d)) wr" if "d \<in> set (es_drawers s)" for d
    using that s b by (cases parent) (auto simp: base_ok_def at_place_def)
  then have "\<forall>d \<in> set (map ?f (es_drawers s)). \<exists>wr. place (es_nodes s) (parent_node_id d) wr"
    by (simp only: set_map) blast
  then have "base_ok env (s\<lparr>es_drawers := map ?f (es_drawers s)\<rparr>)"
    using b by (simp only: base_ok_def) (simp add: ids)
  then have "good env False ids (s\<lparr>es_drawers := map ?f (es_drawers s)\<rparr>)"
    using s ids by (simp add: good_base)
  moreover have "quiet s" using b by (simp add: base_ok_def)
  then have "update_drawer iid (\<lambda>d. moved d la parent) s = (Inr (), s\<lparr>es_drawers := map ?f (es_drawers s)\<rparr>)"
    by (simp add: update_drawer_def update_rows_def storage_quiet)
  ultimately show "case update_drawer iid (\<lambda>d. moved d la parent) s of (Inl _, s') \<Rightarrow> E s' | (Inr _, s') \<Rightarrow> good env False ids s'"
    by simp
qed

context estate_env
begin

lemma new_parent_good:
  assumes iid: "iid \<in> set ids" and room: "to_room \<noteq> Some []"
  shows "triple (good env False ids) (new_parent env iid to_room to_wing now)
    (\<lambda>p s. good env False ids s \<and> (\<forall>i. p = Some i \<longrightarrow> at_place i s)) (bad env False ids)"
  unfolding triple_def
proof (intro allI impI)
  fix s assume s: "good env False ids s"
  then have b: "base_ok env s" "map drawer_id (es_drawers s) = ids" by (simp_all add: good_base)
  then have q: "quiet s" and tree: "tree_ok env (es_nodes s)" by (simp_all add: base_ok_def)
  let ?find = "List.find (\<lambda>d. drawer_id d = iid) (es_drawers s)"
  obtain d0 where "d0 \<in> set (es_drawers s)" "drawer_id d0 = iid" using iid b(2) by auto
  then have "?find \<noteq> None" by (auto simp: find_None_iff)
  then obtain d where d: "?find = Some d" by blast
  then have "d \<in> set (es_drawers s)" by (simp add: find_SomeD)
  then obtain wr where p: "place (es_nodes s) (parent_node_id d) wr" using b(1) unfolding base_ok_def by blast
  obtain rn sn where "resolve_node_names [parent_node_id d] s = (rn, sn)" by force
  then obtain names where n: "resolve_node_names [parent_node_id d] s = (Inr names, s)" "names (parent_node_id d) = Some wr"
    using place_names [OF tree q _ p, of "[parent_node_id d]" rn sn] by auto
  have "snd wr \<noteq> []" using p tree unfolding place_def tree_ok_def by auto
  then have ne: "or_current to_room (snd wr) \<noteq> []" using room by (cases to_room) (auto simp: or_current_def)
  let ?p = "\<lambda>n. node_parent n = None \<and> node_depth n = 0 \<and> node_lifecycle n = 0"
  let ?rest = "\<lambda>est. act_bind (resolve_room env (or_current to_wing (fst wr)) (or_current to_room (snd wr)) (node_id est) now)
      (\<lambda>room. act_ok (Some (node_id room)))"
  have run: "new_parent env iid to_room to_wing now s = (if to_room = None \<and> to_wing = None then (Inr None, s)
      else case List.find ?p (es_nodes s) of None \<Rightarrow> (Inr None, s) | Some est \<Rightarrow> ?rest est s)"
    using q d n by (simp add: new_parent_def Let_def act_bind_Inr names_or_empty_def root_node_def resolve_room_def act_bind_assoc
        split: option.split)
  show "case new_parent env iid to_room to_wing now s of (Inl _, s') \<Rightarrow> bad env False ids s'
      | (Inr p, s') \<Rightarrow> good env False ids s' \<and> (\<forall>i. p = Some i \<longrightarrow> at_place i s')"
  proof (cases "(to_room = None \<and> to_wing = None) \<or> List.find ?p (es_nodes s) = None")
    case True
    then show ?thesis using run s by auto
  next
    case False
    then obtain est where est: "List.find ?p (es_nodes s) = Some est" by blast
    then have e: "good_with env False ids est s" "node_depth est = 0" using s find_SomeD [OF est] by (auto simp: good_with_def)
    have "triple (good_with env False ids est) (?rest est)
      (\<lambda>p s. good env False ids s \<and> (\<forall>i. p = Some i \<longrightarrow> at_place i s)) (bad env False ids)"
      by (rule triple_bind [OF room_good [OF ne e(2)]]) (auto intro!: triple_ok simp: good_at_def)
    then show ?thesis using run est False e(1) by (auto simp: triple_def)
  qed
qed

lemma good_bind:
  "keeps (good env c ids) m \<Longrightarrow> (\<And>a. triple (good env c ids) (f a) Q (bad env c ids)) \<Longrightarrow>
    triple (good env c ids) (act_bind m f) Q (bad env c ids)"
  by (rule triple_bind [OF triple_good(1)])

lemma good_seq:
  "keeps (good env c ids) m \<Longrightarrow> triple (good env c ids) n Q (bad env c ids) \<Longrightarrow>
    triple (good env c ids) (act_seq m n) Q (bad env c ids)"
  by (rule triple_seq [OF triple_good(1)])

lemma reanchor_gated_good:
  assumes "iid \<in> set ids" "to_room \<noteq> Some []"
  shows "triple (good env False ids) (reanchor_gated env iid to_room to_wing la by reason now)
    (\<lambda>_. good env False ids) (bad env False ids)"
proof -
  note I = good_core(1) [of env False ids]
  have set: "triple (\<lambda>s. good env False ids s \<and> (\<forall>i. parent = Some i \<longrightarrow> at_place i s))
      (if la = None \<and> parent = None then act_ok () else act_seq (recomputed_fingerprint iid)
        (update_drawer iid (\<lambda>d. moved d la parent))) (\<lambda>_. good env False ids) (bad env False ids)" for parent
  proof (cases "la = None \<and> parent = None")
    case False
    have "core_only (\<lambda>s. good env False ids s \<and> (\<forall>i. parent = Some i \<longrightarrow> at_place i s))"
      by (rule core_only_conj [OF I]) (auto simp: at_place_def core_def)
    then have "triple (\<lambda>s. good env False ids s \<and> (\<forall>i. parent = Some i \<longrightarrow> at_place i s)) (recomputed_fingerprint iid)
        (\<lambda>_ s. good env False ids s \<and> (\<forall>i. parent = Some i \<longrightarrow> at_place i s)) (bad env False ids)"
      by (intro triple_keeps keeps_read_drawer(4)) (auto intro: good_bad(1))
    from triple_seq [OF this move_good] False show ?thesis by (simp only: if_False)
  qed (simp add: triple_def)
  have last: "triple (good env False ids) (append_audit ev) (\<lambda>_. good env False ids) (bad env False ids)" for ev
    by (rule triple_good(1), rule keeps_reads [OF I])
  show ?thesis
    unfolding reanchor_gated_def Let_def
    by (intro good_seq good_bind keeps_pure keeps_read_drawer I triple_bind [OF new_parent_good [OF assms]]
        triple_seq [OF set [unfolded moved_def Let_def] last])
qed

lemma reanchor_good:
  "triple (good env False ids) (reanchor env white iid to_room to_wing la now) (\<lambda>_. good env False ids) (bad env False ids)"
proof -
  note I = good_core(1) [of env False ids]
  have "triple (good env False ids) (act_bind (found_drawer iid) (\<lambda>_. act_bind changed_by_or_estate (\<lambda>by.
      reanchor_gated env iid to_room to_wing la by (Some ''reanchored via Estate.reanchor'') now)))
      (\<lambda>_. good env False ids) (bad env False ids)" if "to_room \<noteq> Some []"
  proof (cases "iid \<in> set ids")
    case True
    have "triple (good env False ids) (found_drawer iid) (\<lambda>_. good env False ids) (bad env False ids)"
      by (rule triple_good(1), rule keeps_read_drawer, rule I)
    then show ?thesis
      by (rule triple_bind) (intro good_bind keeps_read_drawer I reanchor_gated_good [OF True that])
  next
    case False
    then show ?thesis by (intro triple_bind [OF found_good]) (simp add: triple_def)
  qed
  then show ?thesis
    unfolding reanchor_def
    by (cases "to_room = Some []") (auto intro!: good_seq simp: require_def triple_def intro: good_bad(1))
qed

end

section \<open>Batches\<close>

definition cache_ok :: "(string \<rightharpoonup> node) \<Rightarrow> estate \<Rightarrow> bool" where
  "cache_ok cache s \<longleftrightarrow> (\<forall>n \<in> ran cache. at_place (node_id n) s)"

lemma cache_core: "core s = core s' \<Longrightarrow> cache_ok cache s \<Longrightarrow> cache_ok cache s'"
  by (simp add: cache_ok_def at_place_def core_def)

context estate_env
begin

lemma add_nodes: "add_drawer env d s = (r, s') \<Longrightarrow> good_at env c ids (parent_node_id d) s \<Longrightarrow> es_nodes s' = es_nodes s"
proof -
  assume run: "add_drawer env d s = (r, s')" and s: "good_at env c ids (parent_node_id d) s"
  then obtain wr where p: "place (es_nodes s) (parent_node_id d) wr" by (auto simp: good_at_def at_place_def)
  have b: "before env c ids (es_nodes s) s"
    using s by (simp add: before_def mid_ok_def good_at_def good_def estate_ok_def)
  show ?thesis using triple_result [OF add_drawer_ok [OF p] b run]
    by (cases r) (auto simp: added_def refused_def)
qed

text \<open>A store changes no node.\<close>

lemma store_cached:
  "triple (\<lambda>s. good_at env c ids (node_id n) s \<and> K (es_nodes s)) (store_captured env f (node_id n) now)
    (\<lambda>d s. good env c (ids @ [drawer_id d]) s \<and> K (es_nodes s) \<and> parent_node_id d = node_id n) (bad env c ids)"
proof -
  let ?P = "\<lambda>s. good_at env c ids (node_id n) s \<and> K (es_nodes s)"
  have core: "core_only ?P"
    by (rule core_only_conj [OF good_core(3)]) (auto simp: core_def)
  have pre: "triple ?P m (\<lambda>_. ?P) (bad env c ids)" if "keeps ?P m" for m :: "'z act"
    by (rule triple_keeps [OF that]) (auto intro: good_bad(3))
  have add: "triple ?P (act_seq (add_drawer env (captured_drawer env f l iid (node_id n) now))
      (act_ok (captured_drawer env f l iid (node_id n) now)))
    (\<lambda>d s. good env c (ids @ [drawer_id d]) s \<and> K (es_nodes s) \<and> parent_node_id d = node_id n) (bad env c ids)" for l iid
    unfolding triple_def
  proof (intro allI impI)
    let ?d = "captured_drawer env f l iid (node_id n) now"
    fix s assume s: "?P s"
    obtain r s' where run: "add_drawer env ?d s = (r, s')" by force
    have par: "parent_node_id ?d = node_id n" by (simp add: captured_drawer_def set_anchor_def drawer_new_def)
    then have g: "good_at env c ids (parent_node_id ?d) s" using s by simp
    have n: "es_nodes s' = es_nodes s" by (rule add_nodes [OF run g])
    show "case act_seq (add_drawer env ?d) (act_ok ?d) s of (Inl _, s') \<Rightarrow> bad env c ids s'
      | (Inr d, s') \<Rightarrow> good env c (ids @ [drawer_id d]) s' \<and> K (es_nodes s') \<and> parent_node_id d = node_id n"
      using triple_result [OF add_good g run] run n s par
      by (cases r) (auto simp: act_seq_Inr act_seq_Inl grown_def)
  qed
  show ?thesis unfolding store_captured_def Let_def
  proof (intro triple_bind)
    show "triple ?P (case cap_lineage f of Some l \<Rightarrow> act_ok l | None \<Rightarrow> draw_lineage env) (\<lambda>_. ?P) (bad env c ids)"
      by (rule pre) (auto intro!: keeps_draws [OF core])
    show "triple ?P (draw_uuid env) (\<lambda>_. ?P) (bad env c ids)" by (rule pre, rule keeps_draws, rule core)
  qed (rule add)
qed

lemma room_cached:
  assumes room: "room \<noteq> []"
  shows "triple (\<lambda>s. good_with env c ids est s \<and> node_depth est = 0 \<and> cache_ok cache s)
    (resolve_room env wing room (node_id est) now)
    (\<lambda>n s. good_at env c ids (node_id n) s \<and> good_with env c ids est s \<and> node_depth est = 0 \<and> cache_ok cache s)
    (bad env c ids)"
  unfolding triple_def
proof (intro allI impI)
  fix s assume s: "good_with env c ids est s \<and> node_depth est = 0 \<and> cache_ok cache s"
  obtain r s' where run: "resolve_room env wing room (node_id est) now s = (r, s')" by force
  have g: "good_with env c ids est s" using s by simp
  have 1: "case r of Inr n \<Rightarrow> good_at env c ids (node_id n) s' | Inl _ \<Rightarrow> bad env c ids s'"
    using triple_result [OF room_good [OF room] g run] s by (auto split: sum.split)
  have sub: "set (es_nodes s) \<subseteq> set (es_nodes s')" if rn: "r = Inr n" for n
  proof -
    obtain rw s1 where w: "create_node env wing (node_id est) now s = (rw, s1)" by force
    then obtain wn where wn: "rw = Inr wn" using run rn by (cases rw) (auto simp: resolve_room_def act_bind_def)
    have d: "node_depth est = 1 \<longrightarrow> wing \<noteq> []" using s by simp
    have ok: "estate_ok env c s" "est \<in> set (es_nodes s)" using g by (simp_all add: good_with_def good_def)
    note w1 = create_node_ok [OF ok refl d w]
    have "create_node env room (node_id wn) now s1 = (r, s')"
      using run w wn by (simp add: resolve_room_def act_bind_def)
    then show ?thesis
      using create_node_ok [of c s1 wn "node_id wn" room now r s'] w1 wn room by blast
  qed
  have mono: "at_place i s'" if "at_place i s" "r = Inr n" for i n
    using that sub place_mono unfolding at_place_def by blast
  show "case resolve_room env wing room (node_id est) now s of (Inl _, s') \<Rightarrow> bad env c ids s'
    | (Inr n, s') \<Rightarrow> good_at env c ids (node_id n) s' \<and> good_with env c ids est s' \<and> node_depth est = 0 \<and> cache_ok cache s'"
    using run 1 mono sub s by (cases r) (auto simp: good_at_def good_with_def cache_ok_def)
qed

end

lemma ran_upd: "m \<in> ran (cache(k \<mapsto> n)) \<Longrightarrow> m = n \<or> m \<in> ran cache"
  by (auto simp: ran_def split: if_splits)

definition batch_ok :: "env \<Rightarrow> bool \<Rightarrow> string list \<Rightarrow> node \<Rightarrow> (string \<rightharpoonup> node) \<Rightarrow> estate \<Rightarrow> bool" where
  "batch_ok env c ids est cache s \<longleftrightarrow> good_with env c ids est s \<and> node_depth est = 0 \<and> cache_ok cache s"

context estate_env
begin

lemma each_good:
  "triple (batch_ok env c ids est cache) (capture_each env (node_id est) cache fs now)
    (\<lambda>ds. good env c (ids @ map drawer_id ds)) (base_ok env)"
proof (induction fs arbitrary: ids cache)
  case Nil
  then show ?case by (simp add: batch_ok_def good_with_def triple_def)
next
  case (Cons f fs)
  let ?wing = "or_current (cap_wing f) DEFAULT_WING_NAME"
  let ?key = "?wing @ [CHR 0x00] @ cap_room f"
  let ?B = "batch_ok env c ids est cache"
  have err: "\<And>s. bad env c ids s \<Longrightarrow> base_ok env s" for ids by (simp add: bad_def)
  show ?case
  proof (cases "cap_room f = []")
    case True
    have "\<exists>e. act_seq (validate_capture f) m s = (Inl e, s)" for s and m :: "'z act"
      using True by (cases "cap_content f = []") (simp_all add: validate_capture_def require_def)
    then have run: "\<exists>e. capture_each env (node_id est) cache (f # fs) now s = (Inl e, s)" for s by (simp add: Let_def)
    show ?thesis unfolding triple_def
    proof (intro allI impI)
      fix s assume s: "?B s"
      obtain e where "capture_each env (node_id est) cache (f # fs) now s = (Inl e, s)" using run by blast
      then show "case capture_each env (node_id est) cache (f # fs) now s of (Inl _, s') \<Rightarrow> base_ok env s'
          | (Inr ds, s') \<Rightarrow> good env c (ids @ map drawer_id ds) s'"
        using s by (simp add: batch_ok_def good_with_def good_def estate_ok_def)
    qed
  next
    case False
    have v: "triple ?B (validate_capture f) (\<lambda>_. ?B) (base_ok env)"
      unfolding validate_capture_def require_def
      by (auto simp: triple_def batch_ok_def good_with_def good_def estate_ok_def)
    let ?R = "\<lambda>n s. good_at env c ids (node_id n) s \<and> ?B s"
    have room: "triple ?B (case cache ?key of Some n \<Rightarrow> act_ok n
        | None \<Rightarrow> resolve_room env ?wing (cap_room f) (node_id est) now) ?R (base_ok env)"
    proof (cases "cache ?key")
      case None
      then show ?thesis using err
        by (simp only: option.case) (rule triple_weaken [OF room_cached [OF False]], auto simp: batch_ok_def)
    next
      case (Some n)
      then have "n \<in> ran cache" by (auto simp: ran_def)
      then show ?thesis using Some by (auto intro!: triple_ok simp: batch_ok_def cache_ok_def good_at_def good_with_def)
    qed
    have store: "triple (?R n) (store_captured env f (node_id n) now)
        (\<lambda>d. batch_ok env c (ids @ [drawer_id d]) est (cache(?key \<mapsto> n))) (base_ok env)" for n
      by (rule triple_weaken [OF store_cached [where K = "\<lambda>ns. est \<in> set ns \<and> node_depth est = 0
            \<and> (\<forall>m \<in> ran (cache(?key \<mapsto> n)). \<exists>wr. place ns (node_id m) wr)"]])
        (auto simp: batch_ok_def good_with_def good_at_def cache_ok_def at_place_def err dest: ran_upd)
    show ?thesis unfolding capture_each.simps Let_def
      by (rule triple_seq [OF v], rule triple_bind [OF room], rule triple_bind [OF store],
          rule triple_bind [OF Cons.IH]) (auto intro!: triple_ok)
  qed
qed

lemma batch_good:
  "triple (good env c ids) (capture_batch env fs now) (\<lambda>ds. good env c (ids @ map drawer_id ds)) (base_ok env)"
  unfolding capture_batch_def
proof (rule triple_bind)
  show "triple (good env c ids) (estate_root ''capture_batch'')
    (\<lambda>n. batch_ok env c ids n Map.empty) (base_ok env)"
    by (rule triple_weaken [OF root_good]) (auto simp: batch_ok_def cache_ok_def bad_def)
qed (rule each_good)

end

section \<open>Recall\<close>

lemma keeps_pair [intro!]: "keeps I (Pair (Inr a))"
  by (simp add: keeps_iff)

lemma keeps_fp_reads [intro!]:
  assumes "core_only I"
  shows "keeps I room_level_fingerprints" "keeps I (get_container_fingerprint wing room)"
    "keeps I (drawers_in_wing_room env wing room)" "keeps I (all_drawers_bounded_desc limit)"
    "keeps I (all_drawers_bounded_projected_desc limit)"
proof -
  note [intro!] = keeps_reads [OF assms] keeps_read_drawer [OF assms]
  have desc: "keeps I (all_drawers_bounded_desc limit)" for limit
    unfolding all_drawers_bounded_desc_def by (rule keeps_core_storage [OF assms]) (auto simp: Let_def)
  show "keeps I room_level_fingerprints" "keeps I (get_container_fingerprint wing room)"
    "keeps I (drawers_in_wing_room env wing room)" "keeps I (all_drawers_bounded_desc limit)"
    "keeps I (all_drawers_bounded_projected_desc limit)"
    using desc by (auto simp: room_level_fingerprints_def room_level_entries_def get_container_fingerprint_def fp_get_def
        drawers_in_wing_room_def room_node_id_def active_wing_def all_drawers_bounded_projected_desc_def)
qed

lemma keeps_resolve_each:
  assumes "core_only I"
  shows "keeps I (resolve_each env ids)"
proof (induction ids)
  case (Cons pid ids)
  then show ?case using assms by (auto split: sum.split option.split)
qed auto

lemma keeps_evaluate_candidates:
  assumes "core_only I"
  shows "keeps I (evaluate_candidates env pc history lower frame ds)"
  unfolding evaluate_candidates_def resolve_node_names_for_drawers_def
proof (rule keeps_bind)
  show "keeps I (resolve_each env (sort (remdups (filter (\<lambda>p. p \<noteq> []) (map parent_node_id ds)))))"
    by (rule keeps_resolve_each [OF assms])
qed (simp add: keeps_iff)

lemma keeps_scan_rooms:
  assumes "core_only I"
  shows "keeps I (scan_rooms env chain entries cache)"
proof (induction entries arbitrary: cache)
  case (Cons entry entries)
  obtain wing room fp where entry: "entry = ((wing, room), fp)" by (metis surj_pair)
  have "keeps I (wing_decision chain wing cache)"
    using assms by (auto simp: wing_decision_def split: option.split)
  then show ?case using Cons assms by (auto simp: entry Let_def)
qed auto

lemma keeps_traces:
  assumes "core_only I"
  shows "keeps I (write_traces env frame ds now)"
proof -
  note [intro!] = keeps_draws [OF assms] keeps_reads [OF assms]
  have "keeps I (new_traces env t ds)" for t ds
    by (induction ds) (auto simp: new_trace_def)
  then show ?thesis
    by (auto simp: write_traces_def insert_recall_traces_def Let_def split: option.split)
qed

lemma keeps_recall:
  assumes "core_only I"
  shows "keeps I (recall env pc history lower frame now)"
proof -
  have p: "keeps I (pruned_candidates env chain bound)" for chain bound
    using keeps_scan_rooms [OF assms] assms by (auto simp: pruned_candidates_def)
  have s: "keeps I (scanned_candidates frame bound)" for bound
    using assms by (auto simp: scanned_candidates_def)
  show ?thesis
    using p s keeps_evaluate_candidates [OF assms] keeps_traces [OF assms] by (auto simp: recall_def Let_def)
qed

section \<open>Histories\<close>

text \<open>An estate before its provisioning.\<close>

definition empty_estate :: "string \<Rightarrow> estate" where
  "empty_estate owner = \<lparr>es_drawers = [], es_nodes = [], es_fps = [], es_tunnels = [], es_audit = [], es_traces = [],
     es_facts = [], es_proposals = [], es_associations = [], es_references = [], es_sources = [], es_diary = [],
     es_owner = owner, es_drawn = 0, es_io = []\<rparr>"

text \<open>
  The states an estate reaches when its storage does not fail. The Boolean says that the aggregates are
  known to cover the drawers: it is lost by a reanchoring to another room, by a batch that fails and by a capture that
  fails after its drawer was stored, and gained by rebuilding them on open.
\<close>

inductive estate_history :: "env \<Rightarrow> 'h history \<Rightarrow> bool \<Rightarrow> estate \<Rightarrow> bool" for env hist where
  opened: "create_root env name now (empty_estate owner) = (Inr r, s) \<Longrightarrow> estate_history env hist True s"
| captured: "estate_history env hist c s \<Longrightarrow> capture env f now s = (Inr d, s') \<Longrightarrow> estate_history env hist c s'"
| capture_failed: "estate_history env hist c s \<Longrightarrow> capture env f now s = (Inl e, s') \<Longrightarrow>
    estate_history env hist (c \<and> map drawer_id (es_drawers s') = map drawer_id (es_drawers s)) s'"
| batch_captured: "estate_history env hist c s \<Longrightarrow> capture_batch env fs now s = (Inr ds, s') \<Longrightarrow> estate_history env hist c s'"
| batch_failed: "estate_history env hist c s \<Longrightarrow> capture_batch env fs now s = (Inl e, s') \<Longrightarrow> estate_history env hist False s'"
| wing_seeded: "estate_history env hist c s \<Longrightarrow> seed_wing env wing hint model now s = (Inr d, s') \<Longrightarrow> estate_history env hist c s'"
| mutated: "estate_history env hist c s \<Longrightarrow> estate_history env hist c (snd (mutate env iid kind payload s))"
| withdrawn: "estate_history env hist c s \<Longrightarrow> estate_history env hist c (snd (withdraw env iid reason s))"
| expunged: "estate_history env hist c s \<Longrightarrow> estate_history env hist c (snd (expunge env iid why confirmed now seal s))"
| anchor_set: "estate_history env hist c s \<Longrightarrow> estate_history env hist c (snd (reanchor_anchor env iid la by why now s))"
| reanchored: "estate_history env hist c s \<Longrightarrow>
    estate_history env hist False (snd (reanchor env white iid to_room to_wing to_lattice now s))"
| tunnelled: "estate_history env hist c s \<Longrightarrow> estate_history env hist c (snd (capture_tunnel env tf now s))"
| reparented: "estate_history env hist c s \<Longrightarrow>
    estate_history env hist c (snd (reparent_drawer env child parent key wing room by now s))"
| recalled: "estate_history env hist c s \<Longrightarrow> estate_history env hist c (snd (recall env pc hist lower frame now s))"
| noted: "estate_history env hist c s \<Longrightarrow> estate_history env hist c (snd (run_noun env op s))"
| reopened: "estate_history env hist c s \<Longrightarrow> estate_history env hist True (snd (rebuild_container_fingerprints env s))"

lemma opened_ok:
  assumes run: "create_root env name now (empty_estate owner) = (Inr r, s)" and uuid: "\<And>n. env_is_uuid env (env_fresh env n)" "\<And>n. env_fresh env n \<noteq> []"
  shows "estate_ok env True s"
proof -
  let ?n = "new_node (env_fresh env 0) None name (env_lookup env name) 0 now"
  have "s = (empty_estate owner)\<lparr>es_drawn := 1, es_nodes := [?n]\<rparr>"
    using run by (auto simp: create_root_def root_node_def empty_estate_def quiet_def draw_uuid_def act_bind_def
        act_seq_Inr insert_node_quiet new_node_def)
  then show ?thesis using uuid
    by (simp add: estate_ok_def base_ok_def covered_but_def empty_estate_def quiet_def tree_ok_def new_node_def)
qed

context estate_env
begin

lemma history_ok: "estate_history env hist c s \<Longrightarrow> estate_ok env c s"
proof (induction rule: estate_history.induct)
  case (opened name now owner r s)
  then show ?case using opened_ok fresh_uuid by blast
next
  case (captured c s f now d s')
  then show ?case using triple_result [OF capture_good [of c "map drawer_id (es_drawers s)"]]
    by (fastforce simp: good_def grown_def)
next
  case (capture_failed c s f now e s')
  then show ?case using triple_result [OF capture_good [of c "map drawer_id (es_drawers s)"]]
    by (fastforce simp: good_def bad_def estate_ok_def)
next
  case (batch_captured c s fs now ds s')
  then show ?case using triple_result [OF batch_good [of c "map drawer_id (es_drawers s)"]]
    by (fastforce simp: good_def)
next
  case (batch_failed c s fs now e s')
  then show ?case using triple_result [OF batch_good [of c "map drawer_id (es_drawers s)"]]
    by (fastforce simp: good_def estate_ok_def)
next
  case (wing_seeded c s wing hint model now d s')
  then show ?case using triple_result [OF seed_good [of c "map drawer_id (es_drawers s)"]]
    by (fastforce simp: good_def grown_def)
next
  case (mutated c s iid kind payload)
  then show ?case using keepsD [OF keeps_mutate [OF estate_ok_tame]] by blast
next
  case (withdrawn c s iid reason)
  then show ?case using keepsD [OF keeps_moves(3) [OF estate_ok_tame]] by blast
next
  case (expunged c s iid why confirmed now seal)
  then show ?case using keepsD [OF keeps_expunge(2) [OF estate_ok_tame]] by blast
next
  case (anchor_set c s iid la "by" why now)
  then show ?case using keepsD [OF keeps_reanchor_anchor [OF estate_ok_tame]] by blast
next
  case (reanchored c s white iid to_room to_wing to_lattice now)
  then have g: "good env False (map drawer_id (es_drawers s)) s" by (simp add: good_def estate_ok_def)
  obtain r s' where run: "reanchor env white iid to_room to_wing to_lattice now s = (r, s')" by force
  have "base_ok env s'" using triple_result [OF reanchor_good g run] by (cases r) (simp_all add: good_base bad_base)
  then show ?case by (simp add: run estate_ok_def)
next
  case (tunnelled c s tf now)
  then show ?case using keepsD [OF keeps_tunnels(3) [OF drawers_tame_core [OF estate_ok_tame]]] by blast
next
  case (reparented c s child parent key wing room "by" now)
  then show ?case using keepsD [OF keeps_tunnels(4) [OF drawers_tame_core [OF estate_ok_tame]]] by blast
next
  case (recalled c s pc lower frame now)
  then show ?case using keepsD [OF keeps_recall [OF drawers_tame_core [OF estate_ok_tame]]] by blast
next
  case (noted c s op)
  then show ?case using keepsD [OF keeps_run_noun [OF estate_ok_tame]] by blast
next
  case (reopened c s)
  then show ?case using rebuild_ok [of s] by (auto simp: estate_ok_def)
qed

end

end
