(* ===== verification/Recall_Complete.thy ===== *)
theory Recall_Complete
  imports Estate_History
begin

text \<open>
  Recall over an estate whose aggregates cover its drawers: the scan of the surviving containers
  finds every row the full scan finds, so that recall equals the evaluation of the frame over all
  live drawers.
\<close>

section \<open>Names of the nodes\<close>

text \<open>The wing and room of a node, as \<open>resolve_node_names_for_drawers\<close> finds them.\<close>

definition node_places :: "node list \<Rightarrow> node_names" where
  "node_places ns iid =
     (case List.find (\<lambda>n. node_id n = iid) ns of
        None \<Rightarrow> None
      | Some r \<Rightarrow> Some (case node_parent r of
            None \<Rightarrow> []
          | Some p \<Rightarrow> (case List.find (\<lambda>n. node_id n = p) ns of Some w \<Rightarrow> display_name w | None \<Rightarrow> []),
          display_name r))"

lemma attempt_bind: "m s = (r, s') \<Longrightarrow> act_bind (attempt m) f s = f r s'"
  by (simp add: attempt_def act_bind_def)

lemma get_node_quiet [simp]: "quiet s \<Longrightarrow> get_node i s = (Inr (List.find (\<lambda>n. node_id n = i) (es_nodes s)), s)"
  by (simp add: get_node_def)

lemma attempt_node [simp]:
  "quiet s \<Longrightarrow> act_bind (attempt (get_node i)) f s = f (Inr (List.find (\<lambda>n. node_id n = i) (es_nodes s))) s"
  by (rule attempt_bind) simp

lemma resolve_each_quiet:
  assumes q: "quiet s"
  shows "\<exists>names. resolve_each env ids s = (Inr names, s)
    \<and> (\<forall>i. names i = (if i \<in> set ids \<and> env_is_uuid env i then node_places (es_nodes s) i else None))"
proof (induction ids)
  case (Cons pid ids)
  then obtain names where n: "resolve_each env ids s = (Inr names, s)"
    "\<forall>i. names i = (if i \<in> set ids \<and> env_is_uuid env i then node_places (es_nodes s) i else None)" by blast
  show ?case
  proof (cases "env_is_uuid env pid \<and> List.find (\<lambda>n. node_id n = pid) (es_nodes s) \<noteq> None")
    case False
    then have "resolve_each env (pid # ids) s = (Inr names, s)"
      using n(1) q by auto
    moreover have "names i = (if i \<in> set (pid # ids) \<and> env_is_uuid env i then node_places (es_nodes s) i else None)" for i
      using n(2) False by (auto simp: node_places_def)
    ultimately show ?thesis by blast
  next
    case True
    then obtain room where room: "List.find (\<lambda>n. node_id n = pid) (es_nodes s) = Some room" by blast
    let ?wing = "case node_parent room of None \<Rightarrow> []
      | Some p \<Rightarrow> (case List.find (\<lambda>n. node_id n = p) (es_nodes s) of Some w \<Rightarrow> display_name w | None \<Rightarrow> [])"
    have "resolve_each env (pid # ids) s = (Inr (names(pid \<mapsto> (?wing, display_name room))), s)"
      using True room n(1) q
      by (auto simp: act_bind_def attempt_def split: option.split)
    moreover have "node_places (es_nodes s) pid = Some (?wing, display_name room)"
      using room by (simp add: node_places_def)
    ultimately show ?thesis using n(2) True
      by (intro exI [of _ "names(pid \<mapsto> (?wing, display_name room))"]) auto
  qed
qed auto

lemma place_node_places: "tree_ok env ns \<Longrightarrow> place ns i wr \<Longrightarrow> node_places ns i = Some wr"
  using find_node by (fastforce simp: place_def node_places_def is_child_def)

lemma place_uuid: "tree_ok env ns \<Longrightarrow> place ns i wr \<Longrightarrow> env_is_uuid env i \<and> i \<noteq> [] \<and> snd wr \<noteq> []"
  by (auto simp: place_def tree_ok_def)

section \<open>What a row's evaluation depends on\<close>

lemma structured_names:
  "names (parent_node_id d) = names' (parent_node_id d) \<Longrightarrow>
    evaluate_structured names d f = evaluate_structured names' d f"
  by (induction f) (auto simp: wing_room_def list_all_iff list_ex_iff)

lemma row_passes_names:
  "names (parent_node_id d) = names' (parent_node_id d) \<Longrightarrow>
    row_passes ext pc lower names chain d = row_passes ext pc lower names' chain d"
proof -
  assume "names (parent_node_id d) = names' (parent_node_id d)"
  then have "evaluate_structured names d = evaluate_structured names' d" by (intro ext structured_names)
  then show ?thesis by (simp only: row_passes_def evaluate_structured_tier_def)
qed

lemma structured_content: "evaluate_structured names (d\<lparr>content := t\<rparr>) f = evaluate_structured names d f"
  by (induction f) (auto simp: wing_room_def matches_concept_def list_all_iff list_ex_iff)

lemma insert_defaults_content: "chain_has_content_predicate (insert_defaults chain) = chain_has_content_predicate chain"
  by (auto simp: chain_has_content_predicate_def insert_defaults_def Let_def)

lemma row_passes_content:
  "\<not> chain_has_content_predicate chain \<Longrightarrow>
    row_passes ext pc lower names chain (d\<lparr>content := t\<rparr>) = row_passes ext pc lower names chain d"
  using non_content by (auto simp: row_passes_def evaluate_structured_tier_def evaluate_content_tier_def
      structured_content chain_has_content_predicate_def list_all_iff list_ex_iff)

section \<open>The order of the result\<close>

text \<open>The order key of a row ends with its id, so the ids of a sorted list follow from the keys.\<close>

lemma map_sort_key: "map f (sort_key f xs) = sort (map f xs)"
  by (rule properties_for_sort [symmetric]) simp_all

lemma sort_ids:
  assumes "\<And>d. drawer_id d = snd (f d)" "mset (map f xs) = mset (map g ys)" "\<And>d. drawer_id d = snd (g d)"
  shows "map drawer_id (sort_key f xs) = map drawer_id (sort_key g ys)"
proof -
  have "map drawer_id (sort_key f xs) = map snd (map f (sort_key f xs))" using assms(1) by simp
  also have "\<dots> = map snd (sort (map f xs))" by (simp only: map_sort_key)
  also have "sort (map f xs) = sort (map g ys)" by (rule properties_for_sort) (simp_all only: assms(2) mset_sort sorted_sort)
  also have "map snd (sort (map g ys)) = map snd (map g (sort_key g ys))" by (simp only: map_sort_key)
  also have "\<dots> = map drawer_id (sort_key g ys)" using assms(3) by simp
  finally show ?thesis .
qed

lemma mset_keys:
  assumes "mset xs = mset (map h ys)" "\<And>d. d \<in> set ys \<Longrightarrow> f (h d) = g d"
  shows "mset (map f xs) = mset (map g ys)"
proof -
  have "mset (map f xs) = image_mset f (mset (map h ys))" using assms(1) by simp
  also have "\<dots> = mset (map (f \<circ> h) ys)" by (simp add: multiset.map_comp)
  also have "map (f \<circ> h) ys = map g ys" using assms(2) by simp
  finally show ?thesis .
qed

lemma sort_drawers_ids:
  assumes "mset xs = mset (map h ys)" "\<And>d. d \<in> set ys \<Longrightarrow> names (parent_node_id d) = names' (parent_node_id d)"
    and h: "\<And>d. drawer_id (h d) = drawer_id d" "\<And>d. drawer_filed_at (h d) = drawer_filed_at d"
      "\<And>d. parent_node_id (h d) = parent_node_id d"
  shows "map drawer_id (sort_drawers names ord xs) = map drawer_id (sort_drawers names' ord ys)"
proof (cases ord)
  case ByCaptureTimeDesc
  show ?thesis unfolding ByCaptureTimeDesc sort_drawers_def recall_ordering.case
    by (rule sort_ids [OF _ mset_keys [OF assms(1)]]) (simp_all add: h)
next
  case ByCaptureTimeAsc
  show ?thesis unfolding ByCaptureTimeAsc sort_drawers_def recall_ordering.case
    by (rule sort_ids [OF _ mset_keys [OF assms(1)]]) (simp_all add: h)
next
  case ByRoomAsc
  show ?thesis unfolding ByRoomAsc sort_drawers_def recall_ordering.case
    by (rule sort_ids [OF _ mset_keys [OF assms(1)]]) (simp_all add: h assms(2))
qed

section \<open>Candidates\<close>

text \<open>The drawers a frame is evaluated over, with their names.\<close>

lemma evaluate_candidates_quiet:
  assumes base: "base_ok env s" and now_frame: "frame_as_of frame = None"
    and placed: "\<And>d. d \<in> set ds \<Longrightarrow> \<exists>wr. place (es_nodes s) (parent_node_id d) wr"
  shows "\<exists>names. evaluate_candidates env pc hist lower frame ds s =
      (Inr (sort_drawers names (frame_ordering frame)
        (filter (row_passes (env_extract env) pc lower (node_places (es_nodes s)) (insert_defaults (filter_chain frame))) ds)), s)
    \<and> (\<forall>d \<in> set ds. names (parent_node_id d) = node_places (es_nodes s) (parent_node_id d))"
proof -
  have q: "quiet s" and tree: "tree_ok env (es_nodes s)" using base by (simp_all add: base_ok_def)
  let ?ids = "sort (remdups (filter (\<lambda>p. p \<noteq> []) (map parent_node_id ds)))"
  obtain names where n: "resolve_each env ?ids s = (Inr names, s)"
    "\<forall>i. names i = (if i \<in> set ?ids \<and> env_is_uuid env i then node_places (es_nodes s) i else None)"
    using resolve_each_quiet [OF q] by blast
  have same: "names (parent_node_id d) = node_places (es_nodes s) (parent_node_id d)" if d: "d \<in> set ds" for d
  proof -
    obtain wr where "place (es_nodes s) (parent_node_id d) wr" using placed [OF d] by blast
    from place_uuid [OF tree this] n(2) d show ?thesis by simp
  qed
  have "filter (row_passes (env_extract env) pc lower names (insert_defaults (filter_chain frame))) ds =
      filter (row_passes (env_extract env) pc lower (node_places (es_nodes s)) (insert_defaults (filter_chain frame))) ds"
    by (rule filter_cong [OF refl], rule row_passes_names, rule same)
  then have "evaluate_candidates env pc hist lower frame ds s =
      (Inr (sort_drawers names (frame_ordering frame)
        (filter (row_passes (env_extract env) pc lower (node_places (es_nodes s)) (insert_defaults (filter_chain frame))) ds)), s)"
    using n(1) by (simp add: evaluate_candidates_def resolve_node_names_for_drawers_def act_bind_Inr
        evaluate_current [OF now_frame])
  then show ?thesis using same by blast
qed

section \<open>Container pruning\<close>

definition room_rows :: "env \<Rightarrow> estate \<Rightarrow> string \<times> string \<Rightarrow> drawer list" where
  "room_rows env s wr = (case fst (drawers_in_wing_room env (fst wr) (snd wr) s) of Inr ds \<Rightarrow> ds | Inl _ \<Rightarrow> [])"

definition wing_survives :: "filter list \<Rightarrow> estate \<Rightarrow> string \<Rightarrow> bool" where
  "wing_survives chain s wing = (case map_of (es_fps s) (wing, []) of Some fp \<Rightarrow> container_survives chain fp | None \<Rightarrow> True)"

lemma drawers_in_wing_room_quiet:
  "quiet s \<Longrightarrow> drawers_in_wing_room env wing room s = (Inr (room_rows env s (wing, room)), s)"
  by (simp add: room_rows_def drawers_in_wing_room_def room_node_id_def active_wing_def act_bind_assoc
      split: option.split)

lemma get_container_quiet: "quiet s \<Longrightarrow> get_container_fingerprint wing room s = (Inr (map_of (es_fps s) (wing, room)), s)"
  by (simp add: get_container_fingerprint_def act_seq_Inr)

lemma room_level_quiet:
  "quiet s \<Longrightarrow> room_level_fingerprints s =
    (Inr (sort_key (fst \<circ> fst) (filter (\<lambda>((_, room), _). room \<noteq> []) (es_fps s))), s)"
  by (simp add: room_level_fingerprints_def room_level_entries_def act_seq_Inr WING_ROLLUP_ROOM_def)

lemma wing_decision_quiet:
  assumes "quiet s" "\<forall>w ok. cache w = Some ok \<longrightarrow> ok = wing_survives chain s w"
  shows "wing_decision chain wing cache s = (Inr (wing_survives chain s wing), s)"
  using assms
  by (auto simp: wing_decision_def wing_survives_def attempt_bind [OF get_container_quiet] WING_ROLLUP_ROOM_def
      split: option.split)

lemma scan_rooms_quiet:
  assumes "quiet s" "\<forall>w ok. cache w = Some ok \<longrightarrow> ok = wing_survives chain s w"
  shows "scan_rooms env chain entries cache s =
    (Inr (concat (map (\<lambda>(wr, fp). if wing_survives chain s (fst wr) \<and> container_survives chain fp
        then room_rows env s wr else []) entries), False), s)"
  using assms(2)
proof (induction entries arbitrary: cache)
  case (Cons entry entries)
  obtain wing room fp where entry: "entry = ((wing, room), fp)" by (metis surj_pair)
  let ?cache = "cache(wing \<mapsto> wing_survives chain s wing)"
  have sound: "\<forall>w ok. ?cache w = Some ok \<longrightarrow> ok = wing_survives chain s w" using Cons.prems by auto
  have IH: "scan_rooms env chain entries ?cache s =
    (Inr (concat (map (\<lambda>(wr, fp). if wing_survives chain s (fst wr) \<and> container_survives chain fp
        then room_rows env s wr else []) entries), False), s)"
    by (rule Cons.IH [OF sound])
  have dec: "act_bind (wing_decision chain wing cache) f s = f (wing_survives chain s wing) s" for f :: "_ \<Rightarrow> (drawer list \<times> bool) act"
    by (rule act_bind_Inr, rule wing_decision_quiet [OF assms(1) Cons.prems])
  have rest: "act_bind (scan_rooms env chain entries ?cache) f s = f (concat (map (\<lambda>(wr, fp).
      if wing_survives chain s (fst wr) \<and> container_survives chain fp then room_rows env s wr else []) entries), False) s"
    for f :: "_ \<Rightarrow> (drawer list \<times> bool) act"
    by (rule act_bind_Inr, rule IH)
  have read: "act_bind (attempt (drawers_in_wing_room env wing room)) f s = f (Inr (room_rows env s (wing, room))) s"
    for f :: "_ \<Rightarrow> (drawer list \<times> bool) act"
    by (rule attempt_bind, rule drawers_in_wing_room_quiet [OF assms(1)])
  show ?case
  proof (cases "\<not> wing_survives chain s wing \<or> \<not> container_survives chain fp")
    case True
    show ?thesis by (simp only: entry scan_rooms.simps dec Let_def if_P [OF True] IH) (use True in auto)
  next
    case False
    show ?thesis by (simp only: entry scan_rooms.simps dec Let_def if_not_P [OF False] read rest) (use False in auto)
  qed
qed simp

section \<open>The rows of the surviving containers\<close>

lemma room_rows_place:
  assumes base: "base_ok env s" and p: "place (es_nodes s) iid (wing, room)"
  shows "room_rows env s (wing, room) =
    sort_key drawer_filed_at (filter (\<lambda>d. parent_node_id d = iid \<and> drawer_tombstoned_at d = None) (es_drawers s))"
proof -
  have q: "quiet s" and tree: "tree_ok env (es_nodes s)" using base by (simp_all add: base_ok_def)
  obtain r w where n: "r \<in> set (es_nodes s)" "w \<in> set (es_nodes s)" "node_id r = iid" "node_depth r = 2" "is_child r w"
    "wing = display_name w" "room = display_name r" using p unfolding place_def by blast
  have look: "lookup_name n = env_lookup env (display_name n)" "node_tombstoned_at n = None" if "n \<in> set (es_nodes s)" for n
    using that tree by (simp_all add: tree_ok_def)
  have "List.find (\<lambda>n. lookup_name n = env_lookup env wing \<and> node_depth n = 1 \<and> node_tombstoned_at n = None) (es_nodes s) = Some w"
  proof (rule find_unique)
    show "\<forall>y \<in> set (es_nodes s). lookup_name y = env_lookup env wing \<and> node_depth y = 1 \<and> node_tombstoned_at y = None \<longrightarrow> y = w"
      using wing_unique [OF tree _ n(2)] n look by (simp add: is_child_def)
  qed (use n look in \<open>simp_all add: is_child_def\<close>)
  moreover have "List.find (\<lambda>n. node_parent n = Some (node_id w) \<and> lookup_name n = env_lookup env room \<and> node_depth n = 2
      \<and> node_tombstoned_at n = None) (es_nodes s) = Some r"
  proof (rule find_unique)
    show "\<forall>y \<in> set (es_nodes s). node_parent y = Some (node_id w) \<and> lookup_name y = env_lookup env room \<and> node_depth y = 2
        \<and> node_tombstoned_at y = None \<longrightarrow> y = r"
    proof (intro ballI impI)
      fix y assume y: "y \<in> set (es_nodes s)" "node_parent y = Some (node_id w) \<and> lookup_name y = env_lookup env room
        \<and> node_depth y = 2 \<and> node_tombstoned_at y = None"
      then have "node_parent y = node_parent r" "lookup_name y = lookup_name r"
        using n look [OF n(1)] by (simp_all add: is_child_def)
      then show "y = r" using tree y(1) n(1) unfolding tree_ok_def by blast
    qed
  qed (use n look in \<open>simp_all add: is_child_def\<close>)
  ultimately show ?thesis
    using q n(3) by (simp add: room_rows_def drawers_in_wing_room_def room_node_id_def active_wing_def act_bind_assoc)
qed

lemma distinct_concat_map:
  "distinct xs \<Longrightarrow> (\<And>x. x \<in> set xs \<Longrightarrow> distinct (f x)) \<Longrightarrow>
    (\<And>x y. x \<in> set xs \<Longrightarrow> y \<in> set xs \<Longrightarrow> x \<noteq> y \<Longrightarrow> set (f x) \<inter> set (f y) = {}) \<Longrightarrow> distinct (concat (map f xs))"
  by (induction xs) fastforce+

definition pruned_rows :: "env \<Rightarrow> filter list \<Rightarrow> estate \<Rightarrow> drawer list" where
  "pruned_rows env chain s = concat (map (\<lambda>(wr, fp). if wing_survives chain s (fst wr) \<and> container_survives chain fp
     then room_rows env s wr else []) (sort_key (fst \<circ> fst) (filter (\<lambda>((_, room), _). room \<noteq> []) (es_fps s))))"

lemma pruned_candidates_quiet:
  assumes "quiet s"
  shows "pruned_candidates env chain bound s = (Inr (take bound (pruned_rows env chain s), []), s)"
proof -
  have "\<forall>w ok. Map.empty w = Some ok \<longrightarrow> ok = wing_survives chain s w" by simp
  note scan_rooms_quiet [OF assms this]
  then show ?thesis
    by (simp add: pruned_candidates_def attempt_bind room_level_quiet [OF assms] act_bind_Inr pruned_rows_def)
qed

text \<open>A row that fails its container's decision fails the chain.\<close>

lemma survives_row:
  assumes "covered_at fps key d" "map_of fps key = Some fp"
    and passes: "row_passes ext pc lower names (insert_defaults chain) d"
  shows "container_survives chain fp"
proof -
  have c: "covers fp (operational_bitmap d)" using assms(1,2) by (auto simp: covered_at_def)
  have "\<not> container_provably_excludes fp f" if "f \<in> set chain" for f
  proof -
    have "f \<in> set (insert_defaults chain)" using that by (simp add: insert_defaults_set)
    from row_passes_one [OF passes this] excluded_fails [OF c] show ?thesis by blast
  qed
  then show ?thesis by (auto simp: container_survives_def list_ex_iff)
qed

lemma pruned_rows_sound:
  assumes base: "base_ok env s"
  shows "distinct (pruned_rows env chain s)" "set (pruned_rows env chain s) \<subseteq> set (filter live (es_drawers s))"
proof -
  have tree: "tree_ok env (es_nodes s)" and keys: "distinct (map fst (es_fps s))"
    and ids: "distinct (es_drawers s)" using base by (auto simp: base_ok_def distinct_map)
  have placed: "\<exists>iid. place (es_nodes s) iid wr" if "(wr, fp) \<in> set (es_fps s)" "snd wr \<noteq> []" for wr fp
    using base that unfolding base_ok_def by blast
  let ?entries = "sort_key (fst \<circ> fst) (filter (\<lambda>((_, room), _). room \<noteq> []) (es_fps s))"
  let ?f = "\<lambda>(wr, fp). if wing_survives chain s (fst wr) \<and> container_survives chain fp then room_rows env s wr else []"
  have rows: "\<exists>iid. place (es_nodes s) iid wr \<and> set (?f (wr, fp)) \<subseteq> {d \<in> set (es_drawers s). parent_node_id d = iid \<and> live d}
      \<and> distinct (?f (wr, fp))" if e: "(wr, fp) \<in> set ?entries" for wr fp
  proof -
    obtain iid where p: "place (es_nodes s) iid wr" using placed [of wr fp] e by auto
    have "room_rows env s wr = sort_key drawer_filed_at
        (filter (\<lambda>d. parent_node_id d = iid \<and> drawer_tombstoned_at d = None) (es_drawers s))"
      using room_rows_place [OF base, of iid "fst wr" "snd wr"] p by simp
    then show ?thesis using p ids by (auto simp: live_def)
  qed
  show "distinct (pruned_rows env chain s)" unfolding pruned_rows_def
  proof (rule distinct_concat_map)
    show "distinct ?entries" using keys by (simp add: distinct_map)
    show "distinct (?f e)" if e: "e \<in> set ?entries" for e
      using rows [of "fst e" "snd e"] e by (simp only: prod.collapse split_def) blast
    fix e e' assume e: "e \<in> set ?entries" "e' \<in> set ?entries" "e \<noteq> e'"
    obtain iid iid' where p: "place (es_nodes s) iid (fst e)" "set (?f e) \<subseteq> {d. parent_node_id d = iid}"
      "place (es_nodes s) iid' (fst e')" "set (?f e') \<subseteq> {d. parent_node_id d = iid'}"
      using rows [of "fst e" "snd e"] rows [of "fst e'" "snd e'"] e by fastforce
    have "fst e \<noteq> fst e'" using e keys by (auto simp: distinct_map inj_on_def)
    then have "iid \<noteq> iid'" using place_unique [OF tree p(1)] p(3) by blast
    then show "set (?f e) \<inter> set (?f e') = {}" using p by blast
  qed
  show "set (pruned_rows env chain s) \<subseteq> set (filter live (es_drawers s))"
    using rows unfolding pruned_rows_def by fastforce
qed

lemma pruned_rows_complete:
  assumes ok: "estate_ok env True s" and d: "d \<in> set (es_drawers s)" "live d"
    and passes: "row_passes ext pc lower names (insert_defaults chain) d"
  shows "d \<in> set (pruned_rows env chain s)"
proof -
  have base: "base_ok env s" using ok by (simp add: estate_ok_def)
  have tree: "tree_ok env (es_nodes s)" using base by (simp add: base_ok_def)
  obtain wing room where p: "place (es_nodes s) (parent_node_id d) (wing, room)"
    using base d(1) unfolding base_ok_def by (metis surj_pair)
  then have c: "covered_at (es_fps s) (wing, room) d" "covered_at (es_fps s) (wing, []) d"
    using ok d by (simp_all add: estate_ok_def covered_but_def covered_def)
  obtain fp where fp: "map_of (es_fps s) (wing, room) = Some fp" using c(1) by (auto simp: covered_at_def)
  have "room \<noteq> []" using place_uuid [OF tree p] by simp
  then have e: "((wing, room), fp) \<in> set (sort_key (fst \<circ> fst) (filter (\<lambda>((_, room), _). room \<noteq> []) (es_fps s)))"
    using map_of_SomeD [OF fp] by simp
  have "wing_survives chain s wing"
    using survives_row [OF c(2) _ passes] c(2) by (auto simp: wing_survives_def covered_at_def)
  moreover have "container_survives chain fp" by (rule survives_row [OF c(1) fp passes])
  moreover have "d \<in> set (room_rows env s (wing, room))" using room_rows_place [OF base p] d by (simp add: live_def)
  ultimately show ?thesis using e by (force simp: pruned_rows_def)
qed

section \<open>Recall\<close>

definition recall_bound :: "'h recall_frame \<Rightarrow> nat" where
  "recall_bound frame = max (case frame_limit frame of Some n \<Rightarrow> n | None \<Rightarrow> 0) RECALL_CANDIDATE_CAP"

text \<open>The frame evaluated over every live drawer, with the places of the nodes.\<close>

definition full_result :: "env \<Rightarrow> (i64 \<Rightarrow> nat) \<Rightarrow> (string \<Rightarrow> string) \<Rightarrow> 'h recall_frame \<Rightarrow> estate \<Rightarrow> drawer list" where
  "full_result env pc lower frame s =
     sort_drawers (node_places (es_nodes s)) (frame_ordering frame)
       (filter (row_passes (env_extract env) pc lower (node_places (es_nodes s)) (insert_defaults (filter_chain frame)))
         (filter live (es_drawers s)))"

lemma filter_live: "filter live ds = filter (\<lambda>d. drawer_tombstoned_at d = None) ds"
  by (rule filter_cong) (simp_all add: live_def)

lemma scanned_candidates_quiet:
  assumes q: "quiet s" and few: "length (es_drawers s) \<le> bound"
  shows "\<exists>h rows. scanned_candidates frame bound s = (Inr (rows, []), s)
    \<and> mset rows = mset (map h (filter live (es_drawers s)))
    \<and> (h = id \<or> h = (\<lambda>d. d\<lparr>content := []\<rparr>) \<and> \<not> chain_has_content_predicate (filter_chain frame))"
proof -
  let ?rows = "rev (sort_key (\<lambda>d. (drawer_filed_at d, drawer_id d)) (es_drawers s))"
  let ?strip = "\<lambda>d::drawer. d\<lparr>content := []\<rparr>"
  have desc: "all_drawers_bounded_desc (Some bound) s = (Inr ?rows, s)"
    using q few by (simp add: all_drawers_bounded_desc_def storage_quiet Let_def)
  have proj: "all_drawers_bounded_projected_desc (Some bound) s = (Inr (map ?strip ?rows), s)"
    by (simp add: all_drawers_bounded_projected_desc_def act_bind_Inr desc)
  show ?thesis
  proof (cases "chain_has_content_predicate (filter_chain frame) \<or> frame_hydration frame = Full")
    case True
    then have "scanned_candidates frame bound s = (Inr (filter live ?rows, []), s)"
      by (simp add: scanned_candidates_def attempt_bind desc filter_live)
    moreover have "mset (filter live ?rows) = mset (map id (filter live (es_drawers s)))" by (simp add: rev_filter [symmetric])
    ultimately show ?thesis by blast
  next
    case False
    have "scanned_candidates frame bound s = (Inr (map ?strip (filter live ?rows), []), s)"
      using False by (simp add: scanned_candidates_def attempt_bind proj filter_live filter_map o_def)
    moreover have "mset (map ?strip (filter live ?rows)) = mset (map ?strip (filter live (es_drawers s)))"
      by (simp add: rev_filter [symmetric])
    ultimately show ?thesis using False by blast
  qed
qed

lemma recall_quiet:
  assumes ok: "estate_ok env True s" and current: "frame_as_of frame = None" "trace_limit frame = None"
    and few: "length (es_drawers s) \<le> recall_bound frame"
  shows "\<exists>st. recall env pc hist lower frame now s = (Inr st, s) \<and> rs_degraded st = []
    \<and> map drawer_id (rs_rows st) = map drawer_id (full_result env pc lower frame s)"
proof -
  have base: "base_ok env s" using ok by (simp add: estate_ok_def)
  have q: "quiet s" and ids: "distinct (es_drawers s)" using base by (auto simp: base_ok_def distinct_map)
  let ?bound = "recall_bound frame" and ?chain = "filter_chain frame"
  let ?passes = "row_passes (env_extract env) pc lower (node_places (es_nodes s)) (insert_defaults ?chain)"
  let ?find = "if chain_has_prunable_filter ?chain then pruned_candidates env ?chain ?bound else scanned_candidates frame ?bound"
  have "\<exists>h rows. ?find s = (Inr (rows, []), s) \<and> mset (filter ?passes rows) = mset (map h (filter ?passes (filter live (es_drawers s))))
      \<and> (\<forall>d \<in> set rows. \<exists>e \<in> set (es_drawers s). parent_node_id d = parent_node_id e)
      \<and> (h = id \<or> h = (\<lambda>d. d\<lparr>content := []\<rparr>))"
  proof (cases "chain_has_prunable_filter ?chain")
    case True
    note rows = pruned_rows_sound [OF base, of ?chain]
    have "length (pruned_rows env ?chain s) = card (set (pruned_rows env ?chain s))"
      using rows(1) by (simp add: distinct_card)
    also have "\<dots> \<le> card (set (filter live (es_drawers s)))" by (rule card_mono [OF _ rows(2)]) simp
    also have "\<dots> \<le> length (es_drawers s)" by (metis card_length le_trans length_filter_le)
    finally have "take ?bound (pruned_rows env ?chain s) = pruned_rows env ?chain s" using few by simp
    then have "?find s = (Inr (pruned_rows env ?chain s, []), s)"
      using True pruned_candidates_quiet [OF q] by simp
    moreover have "set (filter ?passes (pruned_rows env ?chain s)) = set (filter ?passes (filter live (es_drawers s)))"
      using rows(2) pruned_rows_complete [OF ok] by auto
    then have "mset (filter ?passes (pruned_rows env ?chain s)) = mset (map id (filter ?passes (filter live (es_drawers s))))"
      using rows(1) ids by (simp only: list.map_id) (subst set_eq_iff_mset_eq_distinct [symmetric]; simp)
    ultimately show ?thesis using rows(2) by fastforce
  next
    case False
    obtain h rows where r: "scanned_candidates frame ?bound s = (Inr (rows, []), s)"
      "mset rows = mset (map h (filter live (es_drawers s)))"
      "h = id \<or> h = (\<lambda>d. d\<lparr>content := []\<rparr>) \<and> \<not> chain_has_content_predicate ?chain"
      using scanned_candidates_quiet [OF q few] by blast
    have pass: "?passes (h d) = ?passes d" for d
      using r(3) row_passes_content [of "insert_defaults ?chain"] insert_defaults_content [of ?chain] by auto
    have "filter ?passes (map h (filter live (es_drawers s))) = map h (filter ?passes (filter live (es_drawers s)))"
      using pass by (simp add: filter_map o_def)
    then have "mset (filter ?passes rows) = mset (map h (filter ?passes (filter live (es_drawers s))))"
      using r(2) by (metis mset_filter)
    moreover have "\<exists>e \<in> set (es_drawers s). parent_node_id d = parent_node_id e" if "d \<in> set rows" for d
    proof -
      have "d \<in> h ` set (filter live (es_drawers s))" using that r(2) by (metis mset_eq_setD set_map)
      then show ?thesis using r(3) by auto
    qed
    ultimately show ?thesis using False r(1,3) by (intro exI [of _ h] exI [of _ rows]) auto
  qed
  then obtain h rows where r: "?find s = (Inr (rows, []), s)"
    "mset (filter ?passes rows) = mset (map h (filter ?passes (filter live (es_drawers s))))"
    "\<And>d. d \<in> set rows \<Longrightarrow> \<exists>e \<in> set (es_drawers s). parent_node_id d = parent_node_id e"
    "h = id \<or> h = (\<lambda>d. d\<lparr>content := []\<rparr>)" by blast
  have "\<exists>wr. place (es_nodes s) (parent_node_id d) wr" if "d \<in> set rows" for d
    using r(3) [OF that] base unfolding base_ok_def by metis
  then obtain names where ev: "evaluate_candidates env pc hist lower frame rows s =
      (Inr (sort_drawers names (frame_ordering frame) (filter ?passes rows)), s)"
    "\<forall>d \<in> set rows. names (parent_node_id d) = node_places (es_nodes s) (parent_node_id d)"
    using evaluate_candidates_quiet [OF base current(1), of rows] by blast
  let ?page = "case frame_limit frame of Some n \<Rightarrow> n | None \<Rightarrow> DEFAULT_PAGE_SIZE"
  let ?st = "with_degraded_stages [] (recall_stream_new (sort_drawers names (frame_ordering frame) (filter ?passes rows))
      ?page (frame_hydration frame))"
  have find: "act_bind ?find f s = f (rows, []) s" for f :: "_ \<Rightarrow> recall_stream act"
    by (rule act_bind_Inr, rule r(1))
  have eval: "attempt (evaluate_candidates env pc hist lower frame rows) s =
      (Inr (Inr (sort_drawers names (frame_ordering frame) (filter ?passes rows))), s)"
    by (rule attempt_eq, rule ev(1))
  have "recall env pc hist lower frame now s = (Inr ?st, s)"
    unfolding recall_def Let_def recall_bound_def [symmetric] find
    using current(2) by (simp add: eval act_bind_def write_traces_def)
  moreover have "map drawer_id (rs_rows ?st) = map drawer_id (full_result env pc lower frame s)"
  proof -
    have "names (parent_node_id d) = node_places (es_nodes s) (parent_node_id d)"
      if d: "d \<in> set (filter ?passes (filter live (es_drawers s)))" for d
    proof -
      have "h d \<in> set (filter ?passes rows)" using d r(2) by (metis image_eqI mset_eq_setD set_map)
      moreover have "parent_node_id (h d) = parent_node_id d" using r(4) by auto
      ultimately show ?thesis using ev(2) by (metis filter_is_subset subsetD)
    qed
    then have "map drawer_id (sort_drawers names (frame_ordering frame) (filter ?passes rows)) =
        map drawer_id (full_result env pc lower frame s)"
      unfolding full_result_def by (rule sort_drawers_ids [OF r(2)]) (use r(4) in auto)
    then show ?thesis by (simp add: with_degraded_stages_def recall_stream_new_def)
  qed
  ultimately show ?thesis by (intro exI [of _ ?st]) (simp add: with_degraded_stages_def)
qed

end
