(* ===== verification/Estate_Effects.thy ===== *)
theory Estate_Effects
  imports Recall_Complete
begin

text \<open>
  What the verbs of an estate achieve: the bitmaps of a capture read back, a captured drawer is stored,
  a withdrawn one leaves recall, an expunge scrubs the rows of the lineage that the gate lets go, the pages of a stream join to the
  hydrated rows, a child keeps one parent tunnel, and a failed read empties a recall and names its stage.
\<close>

section \<open>Captured bitmaps\<close>

sublocale estate_env \<subseteq> est: bit_field "env_extract env" ref_extract_flag "env_write env" ref_popcount
  by (rule bits)

lemma field_mask: "FIELD_MASK = push_bit 12 (mask 12)"
  by (simp add: FIELD_MASK_def mask_numeral)

lemma field_mask_bit: "bit FIELD_MASK n \<longleftrightarrow> 12 \<le> n \<and> n < 24"
  unfolding field_mask by (auto simp: bit_simps)

context estate_env
begin

lemma capture_operational_bit:
  "bit (capture_operational env f) n \<longleftrightarrow>
    (if n < 6 then bit (word_of_int (CaptureChannel_raw (cap_channel f)) :: i64) n
     else if n < 12 then bit (word_of_int (ContentKind_raw (cap_kind f)) :: i64) (n - 6)
     else n < 24 \<and> bit (cap_feature_flags f) n)"
  by (auto simp: capture_operational_def est.bit_write_field bit_simps field_mask_bit)

lemma capture_flags: "capture_operational env f AND FIELD_MASK = cap_feature_flags f AND FIELD_MASK"
  by (rule bit_eqI) (auto simp: bit_and_iff capture_operational_bit field_mask_bit)

lemma capture_op_fields:
  "env_extract env (capture_operational env f) 0 6 = env_extract env (env_write env (word_of_int (CaptureChannel_raw (cap_channel f))) 0 0 6) 0 6"
  "env_extract env (capture_operational env f) 6 6 = env_extract env (env_write env (word_of_int (ContentKind_raw (cap_kind f))) 0 6 6) 6 6"
  by (rule bit_eqI; auto simp: est.bit_extract_field est.bit_write_field capture_operational_bit)+

lemma captured_bits:
  assumes "operational_bitmap d = capture_operational env f" "adjective_bitmap d = capture_adjective env f"
    "provenance d = capture_provenance env f"
  shows "capture_channel (env_extract env) d = cap_channel f" "content_kind (env_extract env) d = cap_kind f"
    "feature_flags d = cap_feature_flags f AND FIELD_MASK"
    "drawer_state (env_extract env) d = State_Active" "trust (env_extract env) d = Trust_Verbatim"
    "adjective_sensitivity (env_extract env) d = cap_sensitivity f"
    "exportability (env_extract env) d = cap_exportability f"
    "source_type (env_extract env) d = cap_source_type f" "channel (env_extract env) d = cap_provenance_channel f"
    "confirmation (env_extract env) d = cap_confirmation f" "confidence (env_extract env) d = cap_confidence f"
    "sensitivity (env_extract env) d = cap_provenance_sensitivity f"
proof -
  have zero: "env_extract env 0 s 6 = 0" if "s + 6 \<le> 64" for s using that by (simp add: est.extract_field_spec)
  note [simp] = assms capture_adjective_def capture_provenance_def zero capture_flags
    est.AdjectiveSensitivity_field.read_written est.AdjectiveExportability_field.read_written
    est.AdjectiveSensitivity_field.keeps_others est.AdjectiveExportability_field.keeps_others
    est.CaptureChannel_field.read_written est.ContentKind_field.read_written
    est.SourceType_field.read_written est.Channel_field.read_written est.Confirmation_field.read_written
    est.Confidence_field.read_written est.Sensitivity_field.read_written
    est.SourceType_field.keeps_others est.Channel_field.keeps_others est.Confirmation_field.keeps_others
    est.Confidence_field.keeps_others est.Sensitivity_field.keeps_others
  show "capture_channel (env_extract env) d = cap_channel f" "content_kind (env_extract env) d = cap_kind f"
    "feature_flags d = cap_feature_flags f AND FIELD_MASK"
    by (simp_all add: capture_channel_def content_kind_def feature_flags_def capture_op_fields)
  show "drawer_state (env_extract env) d = State_Active" "trust (env_extract env) d = Trust_Verbatim"
    by (simp_all add: drawer_state_def trust_def State_from_raw_def Trust_from_raw_def)
  show "adjective_sensitivity (env_extract env) d = cap_sensitivity f"
    "exportability (env_extract env) d = cap_exportability f"
    by (simp_all add: adjective_sensitivity_def exportability_def)
  show "source_type (env_extract env) d = cap_source_type f" "channel (env_extract env) d = cap_provenance_channel f"
    "confirmation (env_extract env) d = cap_confirmation f" "confidence (env_extract env) d = cap_confidence f"
    "sensitivity (env_extract env) d = cap_provenance_sensitivity f"
    by (simp_all add: source_type_def channel_def confirmation_def confidence_def sensitivity_def)
qed

end

section \<open>A captured drawer is stored\<close>

definition holds :: "drawer \<Rightarrow> estate \<Rightarrow> bool" where
  "holds d s \<longleftrightarrow> quiet s \<and> d \<in> set (es_drawers s)"

lemma holds_core: "core_only (holds d)"
  by (simp add: core_only_def holds_def core_def)

lemma quiet_core: "core_only quiet"
  by (simp add: core_only_def core_def)

lemma triple_true: "keeps I m \<Longrightarrow> triple I m (\<lambda>_. I) (\<lambda>_. True)"
  by (rule triple_keeps) simp_all

text \<open>The state move of another row leaves the drawer.\<close>

lemma holds_update:
  assumes "iid \<noteq> drawer_id d"
  shows "keeps (holds d) (update_audited iid f ev)"
  unfolding update_audited_def
  by (rule keeps_storage) (use assms in \<open>force simp: holds_def quiet_def\<close>)+

lemma holds_mutate:
  assumes "iid \<noteq> drawer_id d"
  shows "keeps (holds d) (mutate_state env iid st via by reason)"
proof -
  note [intro!] = keeps_read_drawer [OF holds_core] holds_update [OF assms]
  show ?thesis by (auto simp: mutate_state_def Let_def)
qed

lemma capture_holds: "triple quiet (gated_capture env d) (\<lambda>_. holds d) (\<lambda>_. True)"
  unfolding gated_capture_def Let_def
proof (intro triple_bind)
  show "triple quiet (the_uuid env (drawer_id d) ''id'') (\<lambda>_. quiet) (\<lambda>_. True)"
    "triple quiet (admit env ''capture'' req) (\<lambda>_. quiet) (\<lambda>_. True)" for req
    by (rule triple_true, rule keeps_pure)+
  show "triple quiet (insert_audited d ev) (\<lambda>_. holds d) (\<lambda>_. True)" for ev
    by (auto simp: triple_def insert_audited_def storage_quiet holds_def quiet_def)
qed

lemma cascade_holds:
  assumes "prior \<noteq> drawer_id d"
  shows "triple quiet (add_drawer_with_cascade env d prior) (\<lambda>_. holds d) (\<lambda>_. True)"
  unfolding add_drawer_with_cascade_def
proof (intro triple_bind triple_seq)
  fix parent names and r :: "estate_error + unit"
  show "triple quiet (read_drawer prior parent_node_id) (\<lambda>_. quiet) (\<lambda>_. True)"
    "triple quiet (resolve_node_names [parent_node_id d, parent]) (\<lambda>_. quiet) (\<lambda>_. True)"
    by (rule triple_true, rule keeps_read_drawer, rule quiet_core)+
  show "triple quiet (gated_capture env d) (\<lambda>_. holds d) (\<lambda>_. True)" by (rule capture_holds)
  show "triple (holds d) (attempt (insert_tunnel (supersedes_tunnel d prior (names_or_empty names (parent_node_id d))
      (names_or_empty names parent)))) (\<lambda>_. holds d) (\<lambda>_. True)"
    by (rule triple_true, rule keeps_attempt, rule keeps_read_drawer, rule holds_core)
  show "triple (holds d) (case r of
        Inl e \<Rightarrow> act_bind (attempt (delete_rows es_drawers_update (\<lambda>r. drawer_id r = drawer_id d))) (\<lambda>_. act_fail e)
      | Inr _ \<Rightarrow> mutate_state env prior State_Superseded VSupersede (drawer_added_by d)
          (Some (''supersession cascade, lineageID '' @ env_lineage_text env (lineage_id d)))) (\<lambda>_. holds d) (\<lambda>_. True)"
  proof (cases r)
    case (Inl e)
    then show ?thesis by (auto simp: triple_def act_bind_def split: prod.split sum.split)
  next
    case (Inr u)
    then show ?thesis using triple_true [OF holds_mutate [OF assms]] by simp
  qed
qed

lemma keeps_or_in:
  assumes "core_only I" "\<And>s fps. I s \<Longrightarrow> I (s\<lparr>es_fps := fps\<rparr>)"
  shows "keeps I (or_in_drawer env d)"
proof -
  have p: "keeps I (fp_put wing room fp)" for wing room fp
    using assms core_only_quiet [OF assms(1)] by (intro keepsI) simp
  have "keeps I (or_into env wing room delta)" for wing room delta
    using p assms(1) by (auto simp: or_into_def fp_get_def)
  then show ?thesis using assms(1) by (auto simp: or_in_drawer_def or_in_def Let_def)
qed

lemma add_holds: "triple quiet (add_drawer env d) (\<lambda>_. holds d) (\<lambda>_. True)"
proof -
  have find: "triple quiet (find_active_predecessor (lineage_id d) (drawer_id d))
      (\<lambda>r s. quiet s \<and> r \<noteq> Some (drawer_id d)) (\<lambda>_. True)"
    by (auto simp: triple_def find_active_predecessor_def dest: find_SomeD)
  have store: "triple (\<lambda>s. quiet s \<and> r \<noteq> Some (drawer_id d)) (case r of Some prior \<Rightarrow> add_drawer_with_cascade env d prior
      | None \<Rightarrow> gated_capture env d) (\<lambda>_. holds d) (\<lambda>_. True)" for r
  proof (cases "r = Some (drawer_id d)")
    case False
    then show ?thesis using capture_holds [of env d] cascade_holds [of _ d env] by (cases r) auto
  qed (simp add: triple_def)
  have "triple (holds d) (or_in_drawer env d) (\<lambda>_. holds d) (\<lambda>_. True)"
    by (rule triple_true, rule keeps_or_in [OF holds_core]) (simp add: holds_def quiet_def)
  note rest = triple_bind [OF find triple_seq [OF store this]]
  show ?thesis unfolding add_drawer_def
    by (intro triple_seq [OF triple_true [OF keeps_pure(1)]] rest)
qed

text \<open>The drawer of a capture: its row, and the place its room names.\<close>

definition captured_as :: "env \<Rightarrow> capture_frame \<Rightarrow> int \<Rightarrow> drawer \<Rightarrow> bool" where
  "captured_as env f now d \<longleftrightarrow> (\<exists>l iid room. d = captured_drawer env f l iid room now
     \<and> (\<forall>l'. cap_lineage f = Some l' \<longrightarrow> l = l'))"

lemma store_holds:
  "triple quiet (store_captured env f room now) (\<lambda>d s. holds d s \<and> captured_as env f now d) (\<lambda>_. True)"
  unfolding store_captured_def Let_def
proof (intro triple_bind)
  show "triple quiet (case cap_lineage f of Some l \<Rightarrow> act_ok l | None \<Rightarrow> draw_lineage env)
      (\<lambda>l s. quiet s \<and> (\<forall>l'. cap_lineage f = Some l' \<longrightarrow> l = l')) (\<lambda>_. True)"
    by (cases "cap_lineage f") (auto simp: triple_def draw_lineage_def)
  fix l
  show "triple (\<lambda>s. quiet s \<and> (\<forall>l'. cap_lineage f = Some l' \<longrightarrow> l = l')) (draw_uuid env)
      (\<lambda>_ s. quiet s \<and> (\<forall>l'. cap_lineage f = Some l' \<longrightarrow> l = l')) (\<lambda>_. True)"
    by (auto simp: triple_def draw_uuid_def)
  fix iid
  let ?d = "captured_drawer env f l iid room now"
  show "triple (\<lambda>s. quiet s \<and> (\<forall>l'. cap_lineage f = Some l' \<longrightarrow> l = l')) (act_seq (add_drawer env ?d) (act_ok ?d))
      (\<lambda>d s. holds d s \<and> captured_as env f now d) (\<lambda>_. True)"
  proof (cases "\<forall>l'. cap_lineage f = Some l' \<longrightarrow> l = l'")
    case True
    then have "captured_as env f now ?d" by (auto simp: captured_as_def)
    then show ?thesis using True add_holds [of env ?d]
      by (auto intro!: triple_seq triple_ok)
  qed (auto simp: triple_def)
qed

lemma keeps_create: "keeps quiet (create_node env name pid now)"
proof -
  note [intro!] = keeps_read_drawer [OF quiet_core] keeps_draws [OF quiet_core] keeps_reads [OF quiet_core]
  have "keeps quiet (insert_node n)" for n by (rule keepsI) (simp add: insert_node_quiet)
  then show ?thesis by (auto simp: create_node_def find_active_node_def Let_def)
qed

lemma capture_stored:
  "triple quiet (capture env f now) (\<lambda>d s. holds d s \<and> captured_as env f now d) (\<lambda>_. True)"
proof -
  note bind = triple_bind [OF triple_true]
  show ?thesis unfolding capture_def resolve_room_def
  proof (intro triple_seq [OF triple_true] bind)
    show "keeps quiet (validate_capture f)" by (auto simp: validate_capture_def)
    show "keeps quiet (estate_root ''capture'')" by (rule keeps_read_drawer, rule quiet_core)
    show "keeps quiet (act_bind (create_node env wing pid now) (\<lambda>w. create_node env (cap_room f) (node_id w) now))" for wing pid
      by (intro keeps_bind keeps_create)
  qed (rule store_holds)
qed

text \<open>A place whose names normalise to the wing and room asked for.\<close>

definition named :: "env \<Rightarrow> string \<Rightarrow> string \<Rightarrow> string \<Rightarrow> node list \<Rightarrow> bool" where
  "named env wing room iid ns \<longleftrightarrow> (\<exists>w r. place ns iid (w, r) \<and> env_lookup env w = env_lookup env wing
     \<and> env_lookup env r = env_lookup env room)"

context estate_env
begin

lemma room_named:
  assumes "room \<noteq> []" "node_depth est = 0"
  shows "triple (good_with env c ids est) (resolve_room env wing room (node_id est) now)
    (\<lambda>n s. good_at env c ids (node_id n) s \<and> named env wing room (node_id n) (es_nodes s)) (bad env c ids)"
  unfolding resolve_room_def
proof (rule triple_bind)
  let ?W = "\<lambda>w s. good_with env c ids w s \<and> node_depth w = 1 \<and> lookup_name w = env_lookup env wing"
  show "triple (good_with env c ids est) (create_node env wing (node_id est) now) ?W (bad env c ids)"
    by (rule triple_weaken [OF create_good]) (use assms(2) in \<open>auto simp: is_child_def\<close>)
  fix w
  show "triple (?W w) (create_node env room (node_id w) now)
    (\<lambda>n s. good_at env c ids (node_id n) s \<and> named env wing room (node_id n) (es_nodes s)) (bad env c ids)"
  proof (cases "node_depth w = 1 \<and> lookup_name w = env_lookup env wing")
    case True
    have "good_at env c ids (node_id n) s \<and> named env wing room (node_id n) (es_nodes s)"
      if s: "good_with env c ids w s" "good_with env c ids n s" "is_child n w" "lookup_name n = env_lookup env room" for n s
    proof -
      have mem: "n \<in> set (es_nodes s)" "w \<in> set (es_nodes s)" using s by (simp_all add: good_with_def)
      then have p: "place (es_nodes s) (node_id n) (display_name w, display_name n)"
        using s(3) True unfolding place_def is_child_def by force
      have "tree_ok env (es_nodes s)" using s(1) by (simp add: good_with_def good_def estate_ok_def base_ok_def)
      then have "env_lookup env (display_name w) = env_lookup env wing" "env_lookup env (display_name n) = env_lookup env room"
        using mem s(4) True by (auto simp: tree_ok_def)
      then have "named env wing room (node_id n) (es_nodes s)" using p by (auto simp: named_def)
      then show ?thesis using s(1) p by (auto simp: good_at_def good_with_def at_place_def)
    qed
    then show ?thesis
      by (intro triple_weaken [OF create_good [of w room c ids now]]) (use assms(1) in auto)
  qed (auto simp: triple_def)
qed

lemma capture_named:
  "triple (good env c ids) (capture env f now)
    (\<lambda>d s. named env (or_current (cap_wing f) DEFAULT_WING_NAME) (cap_room f) (parent_node_id d) (es_nodes s)) (bad env c ids)"
  unfolding capture_def
proof (rule triple_seq [OF validate_good])
  let ?wing = "or_current (cap_wing f) DEFAULT_WING_NAME"
  let ?K = "\<lambda>i. named env ?wing (cap_room f) i"
  show "triple (\<lambda>s. good env c ids s \<and> cap_room f \<noteq> []) (act_bind (estate_root ''capture'') (\<lambda>est.
      act_bind (resolve_room env ?wing (cap_room f) (node_id est) now) (\<lambda>room.
      store_captured env f (node_id room) now))) (\<lambda>d s. ?K (parent_node_id d) (es_nodes s)) (bad env c ids)"
  proof (cases "cap_room f = []")
    case False
    have room: "triple (\<lambda>s. good_with env c ids n s \<and> node_depth n = 0) (resolve_room env ?wing (cap_room f) (node_id n) now)
        (\<lambda>n s. good_at env c ids (node_id n) s \<and> ?K (node_id n) (es_nodes s)) (bad env c ids)" for n
      using room_named [OF False, of n c ids ?wing now] by (cases "node_depth n = 0") (simp_all add: triple_def)
    have store: "triple (\<lambda>s. good_at env c ids (node_id n) s \<and> ?K (node_id n) (es_nodes s))
        (store_captured env f (node_id n) now) (\<lambda>d s. ?K (parent_node_id d) (es_nodes s)) (bad env c ids)" for n
      by (rule triple_weaken [OF store_cached [where K = "?K (node_id n)"]]) auto
    show ?thesis using False
      by (auto intro!: triple_bind [OF root_good] triple_bind [OF room] store)
  qed (simp add: triple_def)
qed

end

section \<open>Rows that recall returns\<close>

lemma room_rows_live: "set (room_rows env s wr) \<subseteq> set (filter live (es_drawers s))" if "quiet s"
  using that by (auto simp: room_rows_def drawers_in_wing_room_def room_node_id_def active_wing_def act_bind_assoc
      live_def split: option.splits)

lemma candidates_live:
  assumes q: "quiet s"
  shows "\<exists>rows. (if chain_has_prunable_filter (filter_chain frame)
      then pruned_candidates env (filter_chain frame) bound else scanned_candidates frame bound) s = (Inr (rows, []), s)
    \<and> (\<forall>r \<in> set rows. \<exists>d \<in> set (es_drawers s). live d
         \<and> (r = d \<or> r = d\<lparr>content := []\<rparr> \<and> \<not> chain_has_content_predicate (filter_chain frame)))"
proof (cases "chain_has_prunable_filter (filter_chain frame)")
  case True
  have "set (pruned_rows env (filter_chain frame) s) \<subseteq> set (filter live (es_drawers s))"
    using room_rows_live [OF q] by (fastforce simp: pruned_rows_def split: if_splits)
  then have "r \<in> set (filter live (es_drawers s))" if "r \<in> set (take bound (pruned_rows env (filter_chain frame) s))" for r
    using that by (meson in_set_takeD subsetD)
  then show ?thesis using True pruned_candidates_quiet [OF q, of env "filter_chain frame" bound] by auto
next
  case False
  let ?rows = "rev (sort_key (\<lambda>d. (drawer_filed_at d, drawer_id d)) (es_drawers s))"
  let ?strip = "\<lambda>d::drawer. d\<lparr>content := []\<rparr>"
  have desc: "all_drawers_bounded_desc (Some bound) s = (Inr (take bound ?rows), s)"
    using q by (simp add: all_drawers_bounded_desc_def storage_quiet Let_def)
  have proj: "all_drawers_bounded_projected_desc (Some bound) s = (Inr (map ?strip (take bound ?rows)), s)"
    by (simp add: all_drawers_bounded_projected_desc_def act_bind_Inr desc)
  have mem: "d \<in> set (es_drawers s)" if "d \<in> set (take bound ?rows)" for d
    using in_set_takeD [OF that] by simp
  show ?thesis
  proof (cases "chain_has_content_predicate (filter_chain frame) \<or> frame_hydration frame = Full")
    case True
    then have "scanned_candidates frame bound s = (Inr (filter live (take bound ?rows), []), s)"
      by (simp add: scanned_candidates_def attempt_bind desc filter_live)
    then show ?thesis using False mem by (auto simp: live_def)
  next
    case plain: False
    then have "scanned_candidates frame bound s = (Inr (map ?strip (filter live (take bound ?rows)), []), s)"
      by (simp add: scanned_candidates_def attempt_bind proj filter_live filter_map o_def)
    then show ?thesis using False plain mem by (auto simp: live_def)
  qed
qed

lemma recall_rows:
  assumes q: "quiet s" and now_frame: "frame_as_of frame = None"
    and run: "recall env pc hist lower frame now s = (Inr st, s')" and r: "r \<in> set (rs_rows st)"
  shows "\<exists>d \<in> set (es_drawers s). live d \<and> drawer_id r = drawer_id d
    \<and> (\<exists>names. row_passes (env_extract env) pc lower names (insert_defaults (filter_chain frame)) d)"
proof -
  let ?find = "if chain_has_prunable_filter (filter_chain frame)
      then pruned_candidates env (filter_chain frame) (recall_bound frame) else scanned_candidates frame (recall_bound frame)"
  obtain rows where rows: "?find s = (Inr (rows, []), s)"
    "\<forall>r \<in> set rows. \<exists>d \<in> set (es_drawers s). live d
       \<and> (r = d \<or> r = d\<lparr>content := []\<rparr> \<and> \<not> chain_has_content_predicate (filter_chain frame))"
    using candidates_live [OF q] by blast
  obtain names where names: "resolve_node_names_for_drawers env rows s = (Inr names, s)"
    using resolve_each_quiet [OF q] unfolding resolve_node_names_for_drawers_def by blast
  let ?result = "sort_drawers names (frame_ordering frame)
      (filter (row_passes (env_extract env) pc lower names (insert_defaults (filter_chain frame))) rows)"
  have eval: "attempt (evaluate_candidates env pc hist lower frame rows) s = (Inr (Inr ?result), s)"
    using names by (simp add: attempt_def evaluate_candidates_def act_bind_Inr evaluate_current [OF now_frame])
  have find: "act_bind ?find f s = f (rows, []) s" for f :: "_ \<Rightarrow> recall_stream act"
    by (rule act_bind_Inr, rule rows(1))
  have "rs_rows st = ?result"
    using run unfolding recall_def Let_def recall_bound_def [symmetric] find
    by (auto simp: eval act_bind_def with_degraded_stages_def recall_stream_new_def split: prod.splits sum.splits)
  then have r: "r \<in> set rows" "row_passes (env_extract env) pc lower names (insert_defaults (filter_chain frame)) r"
    using r by simp_all
  obtain d where d: "d \<in> set (es_drawers s)" "live d"
    "r = d \<or> r = d\<lparr>content := []\<rparr> \<and> \<not> chain_has_content_predicate (filter_chain frame)" using rows(2) r(1) by blast
  then have "row_passes (env_extract env) pc lower names (insert_defaults (filter_chain frame)) d"
    using r(2) row_passes_content insert_defaults_content by metis
  then show ?thesis using d by (intro bexI [of _ d]) auto
qed

section \<open>Moving a row's state\<close>

context estate_env
begin

lemma move_effect:
  assumes q: "quiet s" and run: "mutate_state env iid st via by reason s = (Inr (), s')"
  shows "\<exists>d. List.find (\<lambda>d. drawer_id d = iid) (es_drawers s) = Some d \<and> quiet s' \<and> es_nodes s' = es_nodes s
    \<and> es_drawers s' = map (\<lambda>r. if drawer_id r = iid
        then r\<lparr>adjective_bitmap := env_write env (word_of_int (State_raw st)) (adjective_bitmap d) 0 6\<rparr> else r) (es_drawers s)"
proof -
  let ?find = "List.find (\<lambda>d. drawer_id d = iid) (es_drawers s)"
  show ?thesis
  proof (cases ?find)
    case None
    then show ?thesis using run q
      by (auto simp: mutate_state_def validate_non_empty_def read_bitmaps_def read_drawer_bitmap_def read_drawer_def
          act_bind_assoc split: if_splits)
  next
    case (Some d)
    have read: "act_bind (read_drawer iid f) g s = g (f d) s" for f and g :: "_ \<Rightarrow> unit act"
      using q Some by (simp add: read_drawer_def act_bind_assoc)
    have seq: "act_seq (read_drawer iid f) m s = m s" for f :: "drawer \<Rightarrow> unit" and m :: "unit act"
      by (simp add: act_seq_def read)
    let ?b = "(adjective_bitmap d, operational_bitmap d, provenance d)"
    let ?req = "\<lambda>uuid. \<lparr>req_row = uuid, req_verb = via, req_prior = Some ?b, req_prior_anchor = Some (udc_code d, []),
      req_writes = [\<lparr>fw_slot = state_slot, fw_value = word_of_int (State_raw st)\<rparr>],
      req_anchor = (udc_code d, []), req_actor = by\<rparr>"
    have "iid \<noteq> [] \<and> by \<noteq> [] \<and> (\<exists>after. env_admit env (?req iid) = Inr after
        \<and> update_audited iid (set_column Adjective after) (sealed_event (?req iid) after reason) s = (Inr (), s'))"
      using run
      by (auto simp: mutate_state_def validate_non_empty_def read_bitmaps_def read_drawer_bitmap_def read_drawer_udc_def
          recomputed_fingerprint_def the_uuid_def require_uuid_def admit_def Let_def act_bind_assoc read seq
          split: if_splits sum.splits)
    then obtain after where after: "env_admit env (?req iid) = Inr after"
      "update_audited iid (set_column Adjective after) (sealed_event (?req iid) after reason) s = (Inr (), s')" by blast
    have "fst after = env_write env (word_of_int (State_raw st)) (adjective_bitmap d) 0 6"
      using gate_law [OF after(1)] by (simp add: apply_write_def Let_def state_slot_def slot_def)
    then show ?thesis using after(2) q Some
      by (auto simp: update_audited_def storage_quiet set_column_def quiet_def split: prod.split)
  qed
qed

lemma withdraw_effect:
  assumes q: "quiet s" and run: "withdraw env iid reason s = (Inr (), s')"
  shows "\<exists>d. List.find (\<lambda>d. drawer_id d = iid) (es_drawers s) = Some d \<and> quiet s' \<and> es_nodes s' = es_nodes s
    \<and> es_drawers s' = map (\<lambda>r. if drawer_id r = iid
        then r\<lparr>adjective_bitmap := env_write env (word_of_int (State_raw State_Withdrawn)) (adjective_bitmap d) 0 6\<rparr> else r)
        (es_drawers s)"
proof -
  obtain who s1 where own: "changed_by_or_estate s = (Inr who, s1)" "s1 = s"
    using q by (cases "es_owner s = []") (simp_all add: changed_by_or_estate_def attempt_def act_bind_def storage_quiet)
  have "mutate_state env iid State_Withdrawn VRetract who (or_text reason ''withdrawn via Estate.withdraw'') s = (Inr (), s')"
    using run q own by (auto simp: withdraw_def move_state_def found_drawer_def get_drawer_def act_bind_assoc act_bind_Inr
        split: option.splits)
  then show ?thesis by (rule move_effect [OF q])
qed

end

context estate_env
begin

lemma withdrawn_fails:
  assumes "adjective_bitmap d = env_write env (word_of_int (State_raw State_Withdrawn)) b 0 6"
  shows "\<not> evaluate_one (env_extract env) ref_popcount (adjective_bitmap d) op prov F_CurrentlyBelieve"
proof -
  have "bit (17 :: i64) 4" by (simp add: bit_numeral_rec)
  then have "bit (env_extract env (adjective_bitmap d) 4 2) 0"
    using assms by (simp add: est.bit_extract_field est.bit_write_field)
  then have "env_extract env (adjective_bitmap d) 4 2 \<noteq> 0" by auto
  then show ?thesis by simp
qed

end

section \<open>Pages\<close>

text \<open>The pages from a stream on are its remaining rows, hydrated, in at most the rounds they need.\<close>

lemma collect_from_rest:
  "0 < rs_page_size st \<Longrightarrow> rs_offset st \<le> length (rs_rows st) \<Longrightarrow>
    (rs_exhausted st \<longrightarrow> rs_offset st = length (rs_rows st)) \<Longrightarrow>
    collect_from st = map (hydrate (rs_hydration st)) (drop (rs_offset st) (rs_rows st))"
proof (induction st rule: collect_from.induct)
  case (1 st)
  show ?case
  proof (cases "rs_exhausted st")
    case True
    then show ?thesis using 1(2,4) by (subst collect_from.simps) (simp add: next_page_def)
  next
    case False
    let ?stop = "min (rs_offset st + rs_page_size st) (length (rs_rows st))"
    let ?st = "st\<lparr>rs_offset := ?stop, rs_page_index := rs_page_index st + 1, rs_exhausted := ?stop \<ge> length (rs_rows st)\<rparr>"
    obtain page where page: "next_page st = (Some page, ?st)"
      "page_rows page = map (hydrate (rs_hydration st)) (drop (rs_offset st) (take ?stop (rs_rows st)))"
      using False by (simp add: next_page_def Let_def)
    have "collect_from ?st = map (hydrate (rs_hydration st)) (drop ?stop (rs_rows st))"
      using 1(1) [OF _ page(1)[symmetric]] 1(2,3) by simp
    moreover have "drop (rs_offset st) (rs_rows st) = drop (rs_offset st) (take ?stop (rs_rows st)) @ drop ?stop (rs_rows st)"
      using 1(3) append_take_drop_id [of "?stop - rs_offset st" "drop (rs_offset st) (rs_rows st)"]
      by (simp add: drop_take)
    moreover have "collect_from st = page_rows page @ collect_from ?st"
      using 1(2) page(1) by (subst collect_from.simps) simp
    ultimately show ?thesis using page(2) by simp
  qed
qed

fun pages :: "nat \<Rightarrow> recall_stream \<Rightarrow> recall_stream" where
  "pages 0 st = st"
| "pages (Suc n) st = pages n (snd (next_page st))"

lemma pages_exhaust:
  "0 < rs_page_size st \<Longrightarrow> length (rs_rows st) - rs_offset st \<le> n * rs_page_size st \<Longrightarrow> 0 < n \<Longrightarrow> rs_exhausted (pages n st)"
proof (induction n arbitrary: st)
  case (Suc n)
  have stay: "rs_exhausted st \<Longrightarrow> rs_exhausted (pages n st)" for n and st :: recall_stream
    by (induction n arbitrary: st) (simp_all add: next_page_def)
  show ?case
  proof (cases "rs_exhausted (snd (next_page st))")
    case True
    then show ?thesis using stay by simp
  next
    case False
    then have st: "snd (next_page st) = st\<lparr>rs_offset := rs_offset st + rs_page_size st, rs_page_index := rs_page_index st + 1,
        rs_exhausted := False\<rparr>" "rs_offset st + rs_page_size st < length (rs_rows st)"
      by (auto simp: next_page_def Let_def min_def split: if_splits)
    then have "n \<noteq> 0" using Suc.prems(2) by (intro notI) simp
    then show ?thesis using Suc.IH [of "snd (next_page st)"] Suc.prems st by simp
  qed
qed simp

section \<open>Failed reads\<close>

text \<open>Actions that return a result in every state, with a property of the result.\<close>

definition yields :: "'a act \<Rightarrow> ('a \<Rightarrow> bool) \<Rightarrow> bool" where
  "yields m Q \<longleftrightarrow> (\<forall>s. \<exists>a s'. m s = (Inr a, s') \<and> Q a)"

lemma yields_ok: "Q a \<Longrightarrow> yields (act_ok a) Q"
  by (simp add: yields_def)

lemma yields_bind: "yields m Q \<Longrightarrow> (\<And>a. Q a \<Longrightarrow> yields (f a) R) \<Longrightarrow> yields (act_bind m f) R"
  unfolding yields_def by (metis act_bind_Inr)

lemma yields_attempt: "yields (attempt m) (\<lambda>_. True)"
  by (simp add: yields_def attempt_def split: prod.split)

lemma yields_resolve: "yields (resolve_each env ids) (\<lambda>_. True)"
proof (induction ids)
  case (Cons i ids)
  note steps = yields_bind [OF yields_attempt] yields_bind [OF Cons.IH] yields_ok Cons.IH
  have "yields (case r of Inr (Some room) \<Rightarrow>
            act_bind (case node_parent room of
                None \<Rightarrow> act_ok []
              | Some wing_id \<Rightarrow> act_bind (attempt (get_node wing_id)) (\<lambda>w.
                  act_ok (case w of Inr (Some wn) \<Rightarrow> display_name wn | _ \<Rightarrow> []))) (\<lambda>wing.
            act_bind (resolve_each env ids) (\<lambda>names. act_ok (names(i \<mapsto> (wing, display_name room)))))
        | _ \<Rightarrow> resolve_each env ids) (\<lambda>_. True)" for r :: "estate_error + node option"
    by (cases r) (auto simp: act_bind_assoc intro!: steps split: option.split)
  then show ?case by (auto intro!: yields_bind [OF yields_attempt] Cons.IH)
qed (simp add: yields_def)

lemma yields_wing: "yields (wing_decision chain wing cache) (\<lambda>_. True)"
  unfolding wing_decision_def
  by (cases "cache wing") (auto intro!: yields_ok yields_bind [OF yields_attempt])

lemma yields_scan: "yields (scan_rooms env chain entries cache) (\<lambda>_. True)"
proof (induction entries arbitrary: cache)
  case (Cons entry entries)
  obtain wing room fp where entry: "entry = ((wing, room), fp)" by (metis surj_pair)
  show ?case
    by (auto simp: entry Let_def intro!: yields_bind [OF yields_wing] yields_bind [OF yields_attempt]
        yields_bind [OF Cons.IH] yields_ok Cons.IH split: prod.split)
qed (simp only: scan_rooms.simps, rule yields_ok, rule TrueI)

lemma yields_traces: "yields (write_traces env frame ds now) (\<lambda>stages. set stages \<subseteq> {TRACE_WRITE_FAILED})"
proof -
  have new: "yields (new_trace env d t) (\<lambda>_. True)" for d t
    by (simp add: yields_def new_trace_def draw_uuid_def act_bind_def)
  have "yields (new_traces env t ds) (\<lambda>_. True)" for t ds
  proof (induction ds)
    case (Cons d ds)
    then show ?case unfolding new_traces.simps
      by (intro yields_bind [OF new] yields_bind [OF Cons.IH] yields_ok) simp
  qed (simp only: new_traces.simps, rule yields_ok, rule TrueI)
  then show ?thesis unfolding write_traces_def Let_def
    by (auto intro!: yields_ok yields_bind yields_bind [OF yields_attempt] split: option.split sum.split)
qed

text \<open>A recall always returns a stream; a stage other than that of the traces leaves it without rows.\<close>

lemma recall_yields:
  "yields (recall env pc hist lower frame now)
    (\<lambda>st. set (rs_degraded st) \<subseteq> {TRACE_WRITE_FAILED} \<or> rs_rows st = [])"
proof -
  let ?find = "\<lambda>bound. if chain_has_prunable_filter (filter_chain frame)
      then pruned_candidates env (filter_chain frame) bound else scanned_candidates frame bound"
  have find: "yields (?find bound) (\<lambda>_. True)" for bound
    by (auto simp: pruned_candidates_def scanned_candidates_def
        intro!: yields_bind [OF yields_attempt] yields_bind [OF yields_scan] yields_ok split: prod.split)
  have eval: "yields (if stages \<noteq> [] then act_ok ([], stages)
      else act_bind (attempt (evaluate_candidates env pc hist lower frame rows)) (\<lambda>r.
        act_ok (case r of Inr f \<Rightarrow> (f, stages) | Inl _ \<Rightarrow> ([], stages @ [BITMAP_EVAL_FAILED]))))
      (\<lambda>(filtered, stages). stages = [] \<or> filtered = [])" for rows :: "drawer list" and stages
    by (auto intro!: yields_ok yields_bind [OF yields_attempt] split: sum.splits)
  show ?thesis unfolding recall_def Let_def
  proof (rule yields_bind [OF find], clarify)
    fix rows :: "drawer list" and stages
    show "yields (act_bind (if stages \<noteq> [] then act_ok ([], stages)
        else act_bind (attempt (evaluate_candidates env pc hist lower frame rows)) (\<lambda>r.
          act_ok (case r of Inr f \<Rightarrow> (f, stages) | Inl _ \<Rightarrow> ([], stages @ [BITMAP_EVAL_FAILED]))))
      (\<lambda>(filtered, stages). act_bind (write_traces env frame filtered now) (\<lambda>trace_stages.
        act_ok (with_degraded_stages (stages @ trace_stages) (recall_stream_new filtered
          (case frame_limit frame of Some n \<Rightarrow> n | None \<Rightarrow> DEFAULT_PAGE_SIZE) (frame_hydration frame))))))
      (\<lambda>st. set (rs_degraded st) \<subseteq> {TRACE_WRITE_FAILED} \<or> rs_rows st = [])"
      by (rule yields_bind [OF eval], clarify, rule yields_bind [OF yields_traces], rule yields_ok)
        (auto simp: with_degraded_stages_def recall_stream_new_def)
  qed
qed

text \<open>When the first read fails, the recall has no rows and says so.\<close>

lemma attempt_failed:
  "es_io s = Io_fails e # io \<Longrightarrow> act_bind (attempt (storage f)) g s = g (Inl (DatabaseUnavailable e)) (s\<lparr>es_io := io\<rparr>)"
  by (simp add: act_bind_def attempt_def storage_def)

lemma first_read_failed:
  assumes "es_io s = Io_fails e # io"
  shows "\<exists>st s' stage. recall env pc hist lower frame now s = (Inr st, s') \<and> rs_rows st = [] \<and> stage \<in> set (rs_degraded st)
    \<and> stage = (if chain_has_prunable_filter (filter_chain frame) then ROOM_FINGERPRINTS_READ_FAILED else LIVE_ROWS_READ_FAILED)"
proof -
  let ?find = "\<lambda>bound. if chain_has_prunable_filter (filter_chain frame)
      then pruned_candidates env (filter_chain frame) bound else scanned_candidates frame bound"
  let ?stage = "if chain_has_prunable_filter (filter_chain frame) then ROOM_FINGERPRINTS_READ_FAILED else LIVE_ROWS_READ_FAILED"
  let ?s = "s\<lparr>es_io := io\<rparr>"
  have room: "attempt room_level_fingerprints s = (Inr (Inl (DatabaseUnavailable e)), ?s)"
    using assms by (simp add: attempt_def room_level_fingerprints_def fp_open_def act_seq_def act_bind_def storage_def)
  have desc: "all_drawers_bounded_desc limit s = (Inl (DatabaseUnavailable e), ?s)" for limit
    using assms by (simp add: all_drawers_bounded_desc_def storage_def)
  then have proj: "all_drawers_bounded_projected_desc limit s = (Inl (DatabaseUnavailable e), ?s)" for limit
    by (simp add: all_drawers_bounded_projected_desc_def act_bind_def)
  have "\<exists>rows stages s1. ?find bound s = (Inr (rows, stages), s1) \<and> ?stage \<in> set stages" for bound
  proof (cases "chain_has_prunable_filter (filter_chain frame)")
    case True
    then show ?thesis by (simp add: pruned_candidates_def act_bind_def room)
  next
    case False
    then show ?thesis by (simp add: scanned_candidates_def act_bind_def attempt_def desc proj)
  qed
  then obtain rows stages s1 where find: "?find (recall_bound frame) s = (Inr (rows, stages), s1)" "?stage \<in> set stages"
    by meson
  obtain ts s2 where t: "write_traces env frame [] now s1 = (Inr ts, s2)"
    using yields_traces unfolding yields_def by blast
  have go: "act_bind (?find (recall_bound frame)) f s = f (rows, stages) s1" for f :: "_ \<Rightarrow> recall_stream act"
    by (rule act_bind_Inr, rule find(1))
  have "stages \<noteq> []" using find(2) by auto
  then have "recall env pc hist lower frame now s = (Inr (with_degraded_stages (stages @ ts) (recall_stream_new []
      (case frame_limit frame of Some n \<Rightarrow> n | None \<Rightarrow> DEFAULT_PAGE_SIZE) (frame_hydration frame))), s2)"
    unfolding recall_def Let_def recall_bound_def [symmetric] go using t by (simp add: act_bind_def)
  then show ?thesis using find(2) by (simp add: with_degraded_stages_def recall_stream_new_def)
qed

section \<open>One parent\<close>

definition live_parents :: "string \<Rightarrow> tunnel list \<Rightarrow> tunnel list" where
  "live_parents child ts = filter (\<lambda>t. tunnel_kind t = TunnelKind_Parent \<and> source_drawer_id t = Some child
     \<and> tunnel_tombstoned_at t = None) ts"

definition one_parent :: "estate \<Rightarrow> bool" where
  "one_parent s \<longleftrightarrow> quiet s \<and> distinct (map tunnel_id (es_tunnels s))
     \<and> (\<forall>child. length (live_parents child (es_tunnels s)) \<le> 1)"

lemma parent_tunnel_quiet:
  "quiet s \<Longrightarrow> parent_tunnel_of child s = (Inr (case live_parents child (es_tunnels s) of [] \<Rightarrow> None | t # _ \<Rightarrow> Some t), s)"
proof -
  have "List.find p xs = (case filter p xs of [] \<Rightarrow> None | t # _ \<Rightarrow> Some t)" for p and xs :: "tunnel list"
    by (induction xs) auto
  then show "quiet s \<Longrightarrow> ?thesis" by (simp add: parent_tunnel_of_def live_parents_def)
qed

lemma live_parents_append: "live_parents child (ts @ us) = live_parents child ts @ live_parents child us"
  by (simp add: live_parents_def)

lemma insert_tunnel_quiet:
  "quiet s \<Longrightarrow> insert_tunnel t s = (if tunnel_id t \<in> tunnel_id ` set (es_tunnels s)
     then (Inl (DatabaseUnavailable ''duplicate primary key''), s) else (Inr (), s\<lparr>es_tunnels := es_tunnels s @ [t]\<rparr>))"
  by (simp add: insert_tunnel_def insert_row_def storage_quiet)

text \<open>What a successful \<open>add_tunnel\<close> did.\<close>

lemma add_tunnel_cases:
  assumes q: "quiet s" and run: "add_tunnel t s = (r, s')"
  shows "(\<exists>e. r = Inl e) \<and> s' = s \<or> r = Inr () \<and> tunnel_id t \<notin> tunnel_id ` set (es_tunnels s)
    \<and> s' = s\<lparr>es_tunnels := es_tunnels s @ [t]\<rparr>
    \<and> (\<forall>child. tunnel_kind t = TunnelKind_Parent \<and> source_drawer_id t = Some child \<longrightarrow> live_parents child (es_tunnels s) = [])"
proof -
  let ?check = "case (tunnel_kind t, source_drawer_id t) of
      (TunnelKind_Parent, Some child) \<Rightarrow> act_bind (parent_tunnel_of child) (\<lambda>existing.
        if existing \<noteq> None then act_fail (InvalidContent (''Drawer '' @ child @ '' already has a parent tunnel'')) else act_ok ())
    | _ \<Rightarrow> act_ok ()"
  have check: "(\<exists>e. ?check s = (Inl e, s)) \<or> ?check s = (Inr (), s)
      \<and> (\<forall>child. tunnel_kind t = TunnelKind_Parent \<and> source_drawer_id t = Some child \<longrightarrow> live_parents child (es_tunnels s) = [])"
    using parent_tunnel_quiet [OF q]
    by (auto simp: act_bind_def split: TunnelKind.split option.split list.split)
  have "(\<exists>e. r = Inl e) \<and> s' = s \<or> act_seq ?check (insert_tunnel t) s = (r, s')"
    using run unfolding add_tunnel_def validate_non_empty_def by (auto simp: act_seq_Inl split: if_splits)
  then show ?thesis
  proof
    assume go: "act_seq ?check (insert_tunnel t) s = (r, s')"
    from check show ?thesis
    proof
      assume "\<exists>e. ?check s = (Inl e, s)"
      then obtain e where "?check s = (Inl e, s)" by blast
      from act_seq_Inl [where m = ?check and n = "insert_tunnel t", OF this] go show ?thesis by (simp only: prod.inject) blast
    next
      assume ok: "?check s = (Inr (), s)
        \<and> (\<forall>child. tunnel_kind t = TunnelKind_Parent \<and> source_drawer_id t = Some child \<longrightarrow> live_parents child (es_tunnels s) = [])"
      from act_seq_Inr [where m = ?check and n = "insert_tunnel t", OF conjunct1 [OF ok]] go have "insert_tunnel t s = (r, s')" by (simp only:)
      then show ?thesis using ok q by (auto simp: insert_tunnel_quiet split: if_splits)
    qed
  qed blast
qed

lemma one_parent_added:
  assumes one: "one_parent s" and new: "tunnel_id t \<notin> tunnel_id ` set (es_tunnels s)"
    and free: "\<forall>child. tunnel_kind t = TunnelKind_Parent \<and> source_drawer_id t = Some child \<longrightarrow> live_parents child (es_tunnels s) = []"
  shows "one_parent (s\<lparr>es_tunnels := es_tunnels s @ [t]\<rparr>)"
proof -
  have "length (live_parents child (es_tunnels s @ [t])) \<le> 1" for child
    using one free by (auto simp: one_parent_def live_parents_append) (auto simp: live_parents_def split: if_splits)
  then show ?thesis using one new by (simp add: one_parent_def)
qed

lemma keeps_one_parent: "keeps one_parent (add_tunnel t)"
proof (rule keepsI)
  fix s assume one: "one_parent s"
  obtain r s' where run: "add_tunnel t s = (r, s')" by force
  have q: "quiet s" using one by (simp add: one_parent_def)
  show "one_parent (snd (add_tunnel t s))"
    using add_tunnel_cases [OF q run] one one_parent_added [OF one] run by auto
qed

lemma filter_map_same: "\<forall>r \<in> set us. f r = r \<or> \<not> p r \<and> \<not> p (f r) \<Longrightarrow> filter p (map f us) = filter p us"
  by (induction us) auto

text \<open>Tombstoning a child's parent tunnel leaves it without one, and the other children as they were.\<close>

lemma retire_parent:
  fixes now
  defines "retire \<equiv> \<lambda>t ts. map (\<lambda>r. if tunnel_id r = tunnel_id t then r\<lparr>tunnel_tombstoned_at := Some now\<rparr> else r) ts"
  assumes "distinct (map tunnel_id ts)" "live_parents child ts = [t]"
  shows "live_parents child (retire t ts) = []" "child' \<noteq> child \<Longrightarrow> live_parents child' (retire t ts) = live_parents child' ts"
    "map tunnel_id (retire t ts) = map tunnel_id ts"
proof -
  have t: "t \<in> set ts" "source_drawer_id t = Some child"
    using assms(3) by (auto simp: live_parents_def dest: filter_eq_ConsD)
  have same: "r = t" if "r \<in> set ts" "tunnel_id r = tunnel_id t" for r
    using that t(1) assms(2) by (auto simp: distinct_map inj_on_def)
  have src: "source_drawer_id r = Some child" if "r \<in> set ts" "tunnel_id r = tunnel_id t" for r
    using same [OF that] t(2) by simp
  have only: "r = t" if "r \<in> set ts" "tunnel_kind r = TunnelKind_Parent" "source_drawer_id r = Some child" "tunnel_tombstoned_at r = None" for r
  proof -
    have "r \<in> set (live_parents child ts)" using that by (simp add: live_parents_def)
    then show ?thesis by (simp add: assms(3))
  qed
  show "map tunnel_id (retire t ts) = map tunnel_id ts" by (simp add: retire_def)
  show "live_parents child (retire t ts) = []"
    using only by (auto simp: live_parents_def retire_def filter_empty_conv)
  show "live_parents child' (retire t ts) = live_parents child' ts" if "child' \<noteq> child"
  proof -
    let ?p = "\<lambda>r. tunnel_kind r = TunnelKind_Parent \<and> source_drawer_id r = Some child' \<and> tunnel_tombstoned_at r = None"
    let ?f = "\<lambda>r. if tunnel_id r = tunnel_id t then r\<lparr>tunnel_tombstoned_at := Some now\<rparr> else r"
    have "\<forall>r \<in> set ts. ?f r = r \<or> \<not> ?p r \<and> \<not> ?p (?f r)"
    proof
      fix r assume "r \<in> set ts"
      then show "?f r = r \<or> \<not> ?p r \<and> \<not> ?p (?f r)"
        using src [of r] \<open>child' \<noteq> child\<close> by (cases "tunnel_id r = tunnel_id t") simp_all
    qed
    then have "filter ?p (map ?f ts) = filter ?p ts" by (rule filter_map_same)
    then show ?thesis by (simp only: live_parents_def retire_def)
  qed
qed

lemma update_tunnels_quiet:
  "quiet s \<Longrightarrow> update_rows es_tunnels_update p f s = (Inr (), s\<lparr>es_tunnels := map (\<lambda>r. if p r then f r else r) (es_tunnels s)\<rparr>)"
  by (cases s) (simp add: update_rows_def storage_quiet)

lemma reparent_effect:
  assumes one: "one_parent s" and run: "reparent_drawer env child parent key wing room by now s = (Inr (), s')"
  shows "one_parent s' \<and> map (\<lambda>t. (target_drawer_id t, order_key t)) (live_parents child (es_tunnels s'))
      = (case parent of Some p \<Rightarrow> [(Some p, Some key)] | None \<Rightarrow> [])
    \<and> (\<forall>other. other \<noteq> child \<longrightarrow> live_parents other (es_tunnels s') = live_parents other (es_tunnels s))"
proof -
  have q: "quiet s" and dist: "distinct (map tunnel_id (es_tunnels s))" using one by (simp_all add: one_parent_def)
  let ?old = "live_parents child (es_tunnels s)"
  let ?retire = "\<lambda>t. map (\<lambda>r. if tunnel_id r = tunnel_id t then r\<lparr>tunnel_tombstoned_at := Some now\<rparr> else r) (es_tunnels s)"
  let ?ts = "case ?old of [] \<Rightarrow> es_tunnels s | t # _ \<Rightarrow> ?retire t"
  let ?s1 = "s\<lparr>es_tunnels := ?ts\<rparr>"
  have "length ?old \<le> 1" using one by (simp add: one_parent_def)
  then have old: "?old = [] \<or> (\<exists>t. ?old = [t])" by (cases ?old) auto
  have ts: "live_parents child ?ts = []" "\<And>other. other \<noteq> child \<Longrightarrow> live_parents other ?ts = live_parents other (es_tunnels s)"
    "map tunnel_id ?ts = map tunnel_id (es_tunnels s)"
    using old retire_parent [OF dist] by (auto split: list.split)
  have "length (live_parents other ?ts) \<le> 1" for other
    using ts one by (cases "other = child") (simp_all add: one_parent_def)
  then have one1: "one_parent ?s1" using q dist ts(3) by (simp add: one_parent_def)
  let ?new = "\<lambda>iid p. (tunnel_new iid wing room wing room ''parent'' by now)
    \<lparr>tunnel_kind := TunnelKind_Parent, source_drawer_id := Some child, target_drawer_id := Some p, order_key := Some key\<rparr>"
  have step: "reparent_drawer env child parent key wing room by now s =
      (case parent of None \<Rightarrow> (Inr (), ?s1)
       | Some p \<Rightarrow> add_tunnel (?new (env_fresh env (es_drawn s)) p) (?s1\<lparr>es_drawn := es_drawn s + 1\<rparr>))"
    using old q by (auto simp: reparent_drawer_def act_bind_Inr parent_tunnel_quiet act_seq_Inr update_tunnels_quiet
        draw_uuid_def act_bind_def split: option.split)
  show ?thesis
  proof (cases parent)
    case None
    then show ?thesis using run step one1 ts by simp
  next
    case (Some p)
    let ?t = "?new (env_fresh env (es_drawn s)) p" and ?s2 = "?s1\<lparr>es_drawn := es_drawn s + 1\<rparr>"
    have add: "add_tunnel ?t ?s2 = (Inr (), s')" using run step Some by simp
    have "one_parent ?s2" using one1 by (simp add: one_parent_def)
    then have "one_parent s'" using keepsD [OF keeps_one_parent, of ?s2 ?t] add by simp
    moreover have "quiet ?s2" using q by simp
    from add_tunnel_cases [OF this add] have "es_tunnels s' = ?ts @ [?t]" by auto
    then have "live_parents child (es_tunnels s') = [?t]"
      "other \<noteq> child \<Longrightarrow> live_parents other (es_tunnels s') = live_parents other (es_tunnels s)" for other
      using ts by (simp_all add: live_parents_append) (simp_all add: live_parents_def tunnel_new_def)
    ultimately show ?thesis using Some by simp
  qed
qed

section \<open>Expunge\<close>

text \<open>
  What an expunge makes of the rows \<open>os\<close>: those with an id in \<open>ids\<close> are scrubbed, without content and
  tombstoned, or, unless they are in \<open>own\<close>, left as they were when the gate refuses to tombstone
  them; the others are left as they were.
\<close>

definition scrubbed :: "env \<Rightarrow> drawer \<Rightarrow> bool" where
  "scrubbed env d \<longleftrightarrow> content d = [] \<and> drawer_state (env_extract env) d = State_Tombstoned"

definition tombstone_refused :: "env \<Rightarrow> drawer \<Rightarrow> bool" where
  "tombstone_refused env d \<longleftrightarrow> (\<exists>uuid by. isl (env_admit env
     (tombstone_request env uuid (adjective_bitmap d, operational_bitmap d, provenance d) (udc_code d) by)))"

definition expunged_row :: "env \<Rightarrow> string set \<Rightarrow> string set \<Rightarrow> drawer \<Rightarrow> drawer \<Rightarrow> bool" where
  "expunged_row env own ids orig d \<longleftrightarrow> drawer_id d = drawer_id orig \<and> lineage_id d = lineage_id orig
     \<and> (if drawer_id orig \<in> ids then scrubbed env d \<or> drawer_id orig \<notin> own \<and> d = orig \<and> tombstone_refused env orig
        else d = orig)"

definition erased :: "env \<Rightarrow> drawer list \<Rightarrow> string set \<Rightarrow> string set \<Rightarrow> estate \<Rightarrow> bool" where
  "erased env os own ids s \<longleftrightarrow> quiet s \<and> list_all2 (expunged_row env own ids) os (es_drawers s)"

definition kin :: "drawer list \<Rightarrow> string \<Rightarrow> string set" where
  "kin os iid = {i. \<exists>d \<in> set os. \<exists>e \<in> set os. drawer_id d = i \<and> drawer_id e = iid \<and> lineage_id d = lineage_id e}"

lemma erased_core: "core_only (erased env os own ids)"
  by (simp add: core_only_def erased_def core_def)

lemma erased_step:
  "keeps (erased env os own ids) m \<Longrightarrow> triple (erased env os own ids) m (\<lambda>_. erased env os own ids) (\<lambda>_. True)"
  by (rule triple_true)

lemma erased_bind:
  "keeps (erased env os own ids) m \<Longrightarrow> (\<And>a. triple (erased env os own ids) (f a) Q (\<lambda>_. True)) \<Longrightarrow>
    triple (erased env os own ids) (act_bind m f) Q (\<lambda>_. True)"
  by (rule triple_bind [OF triple_true])

lemma erased_seq:
  "keeps (erased env os own ids) m \<Longrightarrow> triple (erased env os own ids) n Q (\<lambda>_. True) \<Longrightarrow>
    triple (erased env os own ids) (act_seq m n) Q (\<lambda>_. True)"
  by (rule triple_seq [OF triple_true])

lemma erased_ids:
  assumes "erased env os own ids s"
  shows "map drawer_id (es_drawers s) = map drawer_id os"
    "map (\<lambda>d. (drawer_id d, lineage_id d)) (es_drawers s) = map (\<lambda>d. (drawer_id d, lineage_id d)) os"
  using assms by (auto simp: erased_def expunged_row_def list_all2_conv_all_nth intro!: nth_equalityI)

lemma erased_extend:
  assumes "erased env os own ids s" "\<And>d d'. d \<in> set os \<Longrightarrow> expunged_row env own ids d d' \<Longrightarrow> expunged_row env own' ids' d d'"
  shows "erased env os own' ids' s"
  using assms unfolding erased_def by (auto elim!: list.rel_mono_strong)

lemma erased_absent:
  assumes "erased env os own ids s" "sib \<notin> drawer_id ` set os"
  shows "erased env os own (insert sib ids) s"
  by (rule erased_extend [OF assms(1)]) (use assms(2) in \<open>auto simp: expunged_row_def\<close>)

lemma update_drawer_quiet:
  "quiet s \<Longrightarrow> update_drawer iid f s = (Inr (), s\<lparr>es_drawers := map (\<lambda>d. if drawer_id d = iid then f d else d) (es_drawers s)\<rparr>)"
  by (cases s) (simp add: update_drawer_def update_rows_def storage_quiet)

lemma erased_update:
  assumes f: "\<And>d. drawer_id (f d) = drawer_id d" "\<And>d. lineage_id (f d) = lineage_id d"
    and s: "erased env os own ids s" and own: "own' \<subseteq> insert iid own"
    and st: "\<And>d. d \<in> set (es_drawers s) \<Longrightarrow> drawer_id d = iid \<Longrightarrow> scrubbed env (f d)"
  shows "erased env os own' (insert iid ids) (s\<lparr>es_drawers := map (\<lambda>d. if drawer_id d = iid then f d else d) (es_drawers s)\<rparr>)"
proof -
  let ?f = "\<lambda>d. if drawer_id d = iid then f d else d"
  have "expunged_row env own' (insert iid ids) d (?f d')"
    if "expunged_row env own ids d d'" "d' \<in> set (es_drawers s)" for d d'
    using that st [of d'] own f by (auto simp: expunged_row_def split: if_splits)
  note row = this
  have "list_all2 (expunged_row env own ids) os (es_drawers s)" using s by (simp add: erased_def)
  then have "list_all2 (\<lambda>d d'. expunged_row env own' (insert iid ids) d (?f d')) os (es_drawers s)"
    by (rule list.rel_mono_strong) (rule row)
  then show ?thesis using s by (simp add: erased_def list_all2_map2)
qed

context estate_env
begin

lemma tombstoned_after:
  assumes "env_admit env (tombstone_request env uuid prior udc by) = Inr after"
  shows "State_from_raw (sint (env_extract env (fst after) 0 6)) = State_Tombstoned"
proof -
  let ?adj = "env_write env (word_of_int (State_raw State_Tombstoned)) (fst prior) 0 6"
  have "\<exists>v. fst after = env_write env v ?adj 24 3"
    using gate_law [OF assms]
    by (cases prior) (auto simp: tombstone_request_def apply_write_def Let_def state_slot_def flags_slot_def slot_def)
  then obtain v where "env_extract env (fst after) 0 6 = env_extract env ?adj 0 6"
    using est.extract_write_other [of 3 24 6 0] by auto
  then show ?thesis using est.State_field.read_written [of 0 State_Tombstoned "fst prior"] by simp
qed

lemma scrub_erased:
  assumes "env_admit env (tombstone_request env uuid prior udc by) = Inr after" "erased env os own ids s" "own' \<subseteq> insert iid own"
  shows "erased env os own' (insert iid ids)
    (s\<lparr>es_drawers := map (\<lambda>d. if drawer_id d = iid then scrub after now d else d) (es_drawers s)\<rparr>)"
  by (rule erased_update [OF _ _ assms(2,3)])
    (use tombstoned_after [OF assms(1)] in \<open>simp_all add: scrub_def scrubbed_def drawer_state_def\<close>)

lemma scrub_triple:
  assumes "env_admit env (tombstone_request env uuid prior udc by) = Inr after" "own' \<subseteq> insert iid own"
  shows "triple (erased env os own ids) (update_drawer iid (scrub after now)) (\<lambda>_. erased env os own' (insert iid ids)) E"
  unfolding triple_def
proof (intro allI impI)
  fix s assume s: "erased env os own ids s"
  then have "quiet s" by (simp add: erased_def)
  from update_drawer_quiet [OF this]
  show "case update_drawer iid (scrub after now) s of (Inl _, s') \<Rightarrow> E s' | (Inr _, s') \<Rightarrow> erased env os own' (insert iid ids) s'"
    using scrub_erased [OF assms(1) s assms(2)] by simp
qed

text \<open>A sibling that is not tombstoned yet.\<close>

lemma tombstone_erased:
  assumes s: "erased env os own ids s" and dist: "distinct (map drawer_id os)" and own: "sib \<notin> own"
    and e: "List.find (\<lambda>d. drawer_id d = sib) (es_drawers s) = Some e"
    and run: "tombstone_sibling env iid sib (adjective_bitmap e) by now seal s = (Inr (), s')"
  shows "erased env os own (insert sib ids) s'"
proof -
  have q: "quiet s" using s by (simp add: erased_def)
  have read: "act_bind (read_drawer sib g) f s = f (g e) s" for g :: "drawer \<Rightarrow> 'x" and f :: "'x \<Rightarrow> unit act"
    using e q by (simp add: read_drawer_def act_bind_assoc)
  have readu: "act_bind (read_drawer_udc sib) f s = f (udc_code e) s" for f :: "string \<Rightarrow> unit act"
    using e q by (simp add: read_drawer_udc_def read_drawer_def act_bind_assoc)
  have fp: "act_bind (attempt (recomputed_fingerprint sib)) f s = f (Inr ()) s" for f :: "_ \<Rightarrow> unit act"
    using e q by (simp add: attempt_def recomputed_fingerprint_def read_drawer_def act_bind_def)
  have upd: "act_bind (attempt (update_drawer sib g)) f s
      = f (Inr ()) (s\<lparr>es_drawers := map (\<lambda>d. if drawer_id d = sib then g d else d) (es_drawers s)\<rparr>)" for g and f :: "_ \<Rightarrow> unit act"
    using q by (simp add: attempt_def act_bind_def update_drawer_quiet)
  let ?req = "\<lambda>uuid. tombstone_request env uuid (adjective_bitmap e, operational_bitmap e, provenance e) (udc_code e) by"
  let ?seal = "\<lambda>uuid after. if seal then act_bind (attempt (append_audit (sealed_event (?req uuid) after
      (Some (''lineage expunge cascade from '' @ iid))))) (\<lambda>_. act_ok ()) else act_ok ()"
  let ?t = "\<lambda>after. s\<lparr>es_drawers := map (\<lambda>d. if drawer_id d = sib then scrub after now d else d) (es_drawers s)\<rparr>"
  have "\<exists>uuid. case env_admit env (?req uuid) of Inl _ \<Rightarrow> s' = s | Inr after \<Rightarrow> ?seal uuid after (?t after) = (Inr (), s')"
  proof (cases "require_uuid (\<lambda>s. if env_is_uuid env s then Some s else None) sib ''siblingId'' :: estate_error + string")
    case (Inl err)
    then show ?thesis using run by (simp add: tombstone_sibling_def the_uuid_def)
  next
    case (Inr u)
    show ?thesis
      by (rule exI [of _ u])
        (use run Inr in \<open>auto simp: tombstone_sibling_def read_drawer_bitmap_def read readu fp upd the_uuid_def Let_def split: sum.splits\<close>)
  qed
  then obtain uuid where run': "case env_admit env (?req uuid) of Inl _ \<Rightarrow> s' = s | Inr after \<Rightarrow> ?seal uuid after (?t after) = (Inr (), s')"
    by blast
  show ?thesis
  proof (cases "env_admit env (?req uuid)")
    case (Inl why)
    have mem: "e \<in> set (es_drawers s)" "drawer_id e = sib" using find_SomeD [OF e] by simp_all
    have "distinct (map drawer_id (es_drawers s))" using dist erased_ids(1) [OF s] by simp
    then have only: "d = e" if "d \<in> set (es_drawers s)" "drawer_id d = sib" for d
      using that mem by (auto simp: distinct_map inj_on_def)
    have "tombstone_refused env e" 
      unfolding tombstone_refused_def by (rule exI [of _ uuid], rule exI [of _ "by"], simp add: Inl)
    then have "expunged_row env own (insert sib ids) d d'"
      if "expunged_row env own ids d d'" "d' \<in> set (es_drawers s)" for d d'
      using that only [of d'] own by (auto simp: expunged_row_def split: if_splits)
    then have "erased env os own (insert sib ids) s"
      using s unfolding erased_def by (auto elim: list.rel_mono_strong)
    then show ?thesis using run' Inl by simp
  next
    case (Inr after)
    have t: "erased env os own (insert sib ids) (?t after)" using Inr by (intro scrub_erased [OF _ s]) auto
    have "keeps (erased env os own (insert sib ids)) (?seal uuid after)"
      by (intro keeps_if keeps_bind keeps_attempt keeps_ok keeps_reads erased_core)
    from this t have "erased env os own (insert sib ids) (snd (?seal uuid after (?t after)))" by (rule keepsD)
    moreover have "?seal uuid after (?t after) = (Inr (), s')" using run' by (simp only: Inr sum.case)
    ultimately show ?thesis by (simp only: snd_conv)
  qed
qed

lemma sibling_triple:
  assumes dist: "distinct (map drawer_id os)" and own: "sib = iid \<longleftrightarrow> sib \<in> own" "own \<subseteq> ids"
  shows "triple (erased env os own ids) (scrub_sibling env iid by now seal sib) (\<lambda>_. erased env os own (insert sib ids)) (\<lambda>_. True)"
proof (cases "sib = iid")
  case True
  then have "insert sib ids = ids" using own by auto
  then show ?thesis using True by (auto simp: scrub_sibling_def intro!: triple_ok)
next
  case other: False
  show ?thesis unfolding triple_def
  proof (intro allI impI)
    fix s assume s: "erased env os own ids s"
    then have q: "quiet s" by (simp add: erased_def)
    show "case scrub_sibling env iid by now seal sib s of (Inl _, s') \<Rightarrow> True | (Inr _, s') \<Rightarrow> erased env os own (insert sib ids) s'"
    proof (cases "List.find (\<lambda>d. drawer_id d = sib) (es_drawers s)")
      case None
      then have "sib \<notin> set (map drawer_id (es_drawers s))" by (auto simp: find_None_iff)
      then have "sib \<notin> drawer_id ` set os" using erased_ids(1) [OF s] by simp
      then show ?thesis using erased_absent [OF s] None other q
        by (simp add: scrub_sibling_def act_bind_def attempt_def read_drawer_bitmap_def read_drawer_def)
    next
      case (Some e)
      have e: "e \<in> set (es_drawers s)" "drawer_id e = sib" using find_SomeD [OF Some] by simp_all
      have "distinct (map drawer_id (es_drawers s))" using dist erased_ids(1) [OF s] by simp
      then have only: "d = e" if "d \<in> set (es_drawers s)" "drawer_id d = sib" for d
        using that e by (auto simp: distinct_map inj_on_def)
      have fp: "attempt (recomputed_fingerprint sib) s = (Inr (Inr ()), s)"
        using Some q by (simp add: attempt_def recomputed_fingerprint_def read_drawer_def act_bind_def)
      have run: "scrub_sibling env iid by now seal sib s =
        (if sint (env_extract env (adjective_bitmap e) 0 6) = State_raw State_Tombstoned
         then (Inr (), s\<lparr>es_drawers := map (\<lambda>d. if drawer_id d = sib then d\<lparr>content := []\<rparr> else d) (es_drawers s)\<rparr>)
         else tombstone_sibling env iid sib (adjective_bitmap e) by now seal s)"
        using other Some q fp
        by (simp add: scrub_sibling_def act_bind_def attempt_def read_drawer_bitmap_def read_drawer_def update_drawer_quiet)
      show ?thesis
      proof (cases "sint (env_extract env (adjective_bitmap e) 0 6) = State_raw State_Tombstoned")
        case True
        have "scrubbed env (d\<lparr>content := []\<rparr>)" if d: "d \<in> set (es_drawers s)" "drawer_id d = sib" for d
          using True only [OF d] est.State_field.from_raw_raw [of State_Tombstoned] by (simp add: scrubbed_def drawer_state_def)
        then show ?thesis using erased_update [OF _ _ s subset_insertI, of "\<lambda>d. d\<lparr>content := []\<rparr>" sib] run True by simp
      next
        case False
        then show ?thesis using tombstone_erased [OF s dist _ Some, of iid "by" now seal] own(1) other
          by (auto simp: run split: prod.split sum.split)
      qed
    qed
  qed
qed

lemma siblings_triple:
  assumes "distinct (map drawer_id os)" "iid \<in> ids"
  shows "triple (erased env os {iid} ids) (for_each (scrub_sibling env iid by now seal) sibs)
    (\<lambda>_. erased env os {iid} (set sibs \<union> ids)) (\<lambda>_. True)"
  using assms(2)
proof (induction sibs arbitrary: ids)
  case (Cons sib sibs)
  have "triple (erased env os {iid} (insert sib ids)) (for_each (scrub_sibling env iid by now seal) sibs)
    (\<lambda>_. erased env os {iid} (set sibs \<union> insert sib ids)) (\<lambda>_. True)"
    by (rule Cons.IH) (simp add: Cons.prems)
  note rest = this
  have "triple (erased env os {iid} ids) (scrub_sibling env iid by now seal sib)
    (\<lambda>_. erased env os {iid} (insert sib ids)) (\<lambda>_. True)"
    by (rule sibling_triple [OF assms(1)]) (use Cons.prems in auto)
  from triple_seq [OF this rest]
  show ?case by (simp only: for_each.simps list.set Un_insert_right Un_insert_left)
qed (simp add: triple_def)

lemma lineage_triple:
  assumes dist: "distinct (map drawer_id os)"
  shows "triple (erased env os own ids) (lineage_chain iid) (\<lambda>r s. erased env os own ids s \<and> set r = kin os iid) (\<lambda>_. True)"
  unfolding triple_def
proof (intro allI impI)
  fix s assume s: "erased env os own ids s"
  then have q: "quiet s" by (simp add: erased_def)
  have pairs: "(\<lambda>d. (drawer_id d, lineage_id d)) ` set (es_drawers s) = (\<lambda>d. (drawer_id d, lineage_id d)) ` set os"
    using arg_cong [OF erased_ids(2) [OF s], of set] by simp
  have "kin xs iid = {i. \<exists>l. (i, l) \<in> (\<lambda>d. (drawer_id d, lineage_id d)) ` set xs
      \<and> (iid, l) \<in> (\<lambda>d. (drawer_id d, lineage_id d)) ` set xs}" for xs
    unfolding kin_def by (auto simp: image_iff)
  then have kin: "kin os iid = kin (es_drawers s) iid" using pairs by simp
  show "case lineage_chain iid s of (Inl _, s') \<Rightarrow> True | (Inr r, s') \<Rightarrow> erased env os own ids s' \<and> set r = kin os iid"
  proof (cases "List.find (\<lambda>d. drawer_id d = iid) (es_drawers s)")
    case None
    then have "kin os iid = {}" unfolding kin by (auto simp: kin_def find_None_iff)
    then show ?thesis using None q s by (simp add: lineage_chain_def)
  next
    case (Some d)
    have d: "d \<in> set (es_drawers s)" "drawer_id d = iid" using find_SomeD [OF Some] by simp_all
    have "distinct (map drawer_id (es_drawers s))" using dist erased_ids(1) [OF s] by simp
    then have "e = d" if "e \<in> set (es_drawers s)" "drawer_id e = iid" for e
      using that d by (auto simp: distinct_map inj_on_def)
    then have "kin os iid = drawer_id ` {r \<in> set (es_drawers s). lineage_id r = lineage_id d}"
      using d unfolding kin by (fastforce simp: kin_def)
    then show ?thesis using Some q s by (simp add: lineage_chain_def)
  qed
qed

lemma expunge_gated_erases:
  assumes dist: "distinct (map drawer_id os)"
  shows "triple (erased env os {} {}) (expunge_gated env iid by reason now seal)
    (\<lambda>_. erased env os {iid} (kin os iid)) (\<lambda>_. True)"
proof -
  note reads = keeps_read_drawer [OF erased_core] keeps_reads [OF erased_core] keeps_pure
  have tail: "triple (\<lambda>s. erased env os {} {} s \<and> set lineage = kin os iid)
      (act_bind (read_bitmaps iid) (\<lambda>prior. act_bind (the_uuid env iid ''drawerId'') (\<lambda>uuid.
       act_bind (read_drawer_udc iid) (\<lambda>udc.
       act_bind (admit env ''expunge'' (tombstone_request env uuid prior udc by)) (\<lambda>after.
         act_seq (recomputed_fingerprint iid)
         (act_seq (update_drawer iid (scrub after now))
         (act_seq (for_each (scrub_sibling env iid by now seal) lineage)
         (act_seq (if seal then append_audit (sealed_event (tombstone_request env uuid prior udc by) after None) else act_ok ())
            (act_ok (sealed_event (tombstone_request env uuid prior udc by) after reason))))))))))
      (\<lambda>_. erased env os {iid} (kin os iid)) (\<lambda>_. True)" for lineage
  proof (cases "set lineage = kin os iid")
    case True
    have "triple (erased env os {} {}) (act_bind (admit env ''expunge'' req) f) Q (\<lambda>_. True)"
      if "\<And>after. env_admit env req = Inr after \<Longrightarrow> triple (erased env os {} {}) (f after) Q (\<lambda>_. True)"
      for req and f :: "_ \<Rightarrow> audit_event act" and Q
      using that by (cases "env_admit env req") (simp_all add: admit_def triple_def)
    note admitted = this
    have final: "erased env os {iid} (kin os iid) s" if "erased env os {iid} (set lineage \<union> {iid}) s" for s
      by (rule erased_extend [OF that]) (use True in \<open>auto simp: expunged_row_def kin_def split: if_splits\<close>)
    have "triple (erased env os {} {}) (act_seq (update_drawer iid (scrub after now))
         (act_seq (for_each (scrub_sibling env iid by now seal) lineage)
         (act_seq (if seal then append_audit ev else act_ok ()) (act_ok ev'))))
      (\<lambda>_. erased env os {iid} (kin os iid)) (\<lambda>_. True)"
      if "env_admit env (tombstone_request env uuid prior udc by) = Inr after" for uuid prior udc after ev ev'
    proof (rule triple_seq [OF scrub_triple [OF that, of "{iid}"] triple_seq [OF siblings_triple [OF dist]]])
      show "{iid} \<subseteq> {iid}" "iid \<in> {iid}" by simp_all
      have "triple (erased env os {iid} (set lineage \<union> {iid})) (if seal then append_audit ev else act_ok ())
          (\<lambda>_. erased env os {iid} (set lineage \<union> {iid})) (\<lambda>_. True)"
        by (rule erased_step) (intro keeps_if keeps_ok reads)
      then show "triple (erased env os {iid} (set lineage \<union> {iid}))
          (act_seq (if seal then append_audit ev else act_ok ()) (act_ok ev')) (\<lambda>_. erased env os {iid} (kin os iid)) (\<lambda>_. True)"
        by (rule triple_seq) (rule triple_ok, erule final)
    qed
    note scrubbed = this
    show ?thesis
      unfolding True simp_thms
      by (intro erased_bind erased_seq reads admitted scrubbed)
  qed (auto simp: triple_def)
  show ?thesis unfolding expunge_gated_def Let_def
    by (intro erased_seq reads triple_bind [OF lineage_triple [OF dist]] tail)
qed

lemma expunge_erases:
  assumes dist: "distinct (map drawer_id os)"
  shows "triple (erased env os {} {}) (expunge env iid why confirmed now seal)
    (\<lambda>_. erased env os {iid} (kin os iid)) (\<lambda>_. True)"
proof -
  note reads = keeps_read_drawer [OF erased_core] keeps_reads [OF erased_core] keeps_pure
  show ?thesis unfolding expunge_def Let_def
    by (intro erased_seq erased_bind reads keeps_attempt keeps_for_each keeps_bind keeps_ok expunge_gated_erases [OF dist])
qed

lemma expunge_effect:
  assumes q: "quiet s" and dist: "distinct (map drawer_id (es_drawers s))"
    and run: "expunge env iid why confirmed now seal s = (Inr ev, s')"
  shows "list_all2 (expunged_row env {iid} (kin (es_drawers s) iid)) (es_drawers s) (es_drawers s')"
proof -
  have "erased env (es_drawers s) {} {} s" using q by (simp add: erased_def expunged_row_def list.rel_refl)
  from triple_result [OF expunge_erases [OF dist] this run] show ?thesis by (simp add: erased_def)
qed

end

end
