(* ===== verification/Spec2Isabelle.thy ===== *)
theory Spec2Isabelle
  imports Stale_Postings Resident_Store Max_Sim Recall_Laws Index_Store Estate_Effects
begin

text \<open>
  This development models the Rust implementation of moot-memory: the dense vector engine of
  VectorKit (\<open>packages/kits/VectorKit/rust/src\<close>), the row, discipline and recall
  layer of LocusKit (\<open>packages/kits/LocusKit/rust/src\<close>) and the sparse lane of CorpusKit
  (\<open>packages/kits/CorpusKit/rust/src\<close>).

  \<^bold>\<open>Parts and theories.\<close>

  \<^item> \<open>Prelude\<close>, \<open>Top_K\<close>: word types, saturating arithmetic, little-endian codecs,
    \<open>partition_point\<close> and \<open>binary_search\<close> of the standard library, and the \<open>k\<close> smallest
    elements of a set (\<open>topk\<close>).
  \<^item> \<open>Vector_Types\<close>: keys, payloads, metrics, hits, filters and errors (\<open>key.rs\<close>,
    \<open>payload.rs\<close>, \<open>metric.rs\<close>, \<open>hit.rs\<close>, \<open>seam.rs\<close>, \<open>error.rs\<close>), the locale
    \<open>engram_lib\<close> for the external distance functions, and the contract \<open>knn_spec\<close> of a search.
  \<^item> \<open>Heap_Sift\<close>: the sifts of both bounded heaps over an argument comparison, with the locale
    \<open>sifting\<close> of what a comparison must be and \<open>ranked_heap\<close> of what the heap then keeps.
  \<^item> \<open>Flip_Masks\<close>, \<open>Bounded_Heap\<close>, \<open>MIH\<close>, \<open>MIH_Tables\<close>, \<open>MIH_Search\<close>: multi-index hashing
    (\<open>engine/mih.rs\<close>): Gosper's enumeration and the budget projection, the bounded heap, the
    index with its operations, the invariant of the substring tables, and the exactness of the
    search. \<open>Stale_Postings\<close> shows what a rebuild with a repeated key does to it.
  \<^item> \<open>Resident_Array\<close>, \<open>Brute_Force\<close>: the packed array with tombstones and partitions
    (\<open>engine/resident.rs\<close>) and the linear scan over it (\<open>engine/brute_force.rs\<close>).
  \<^item> \<open>Dense_Index\<close>: the interface of both indexes (\<open>trait DenseIndex\<close>) as a locale, its
    interpretations on the two models, and the conformance of the two.
  \<^item> \<open>Sidecar\<close>, \<open>Resident_Store\<close>: the \<open>.vec\<close> file format and the store with eager and
    deferred writes, tombstones and compaction (\<open>engine/resident_store.rs\<close>).
  \<^item> \<open>Max_Sim\<close>: the late-interaction scorer (\<open>engine/max_sim.rs\<close>).
  \<^item> \<open>Bit_Field\<close>, \<open>Locus_Enums\<close>, \<open>Locus_Rows\<close>: the bit fields of \<open>substrate_kernel\<close> as a
    locale, the thirty-two enums stored in them, and the rows of an estate with their accessors
    and writers (\<open>adjectives.rs\<close>, \<open>provenance.rs\<close>, \<open>drawer.rs\<close>, \<open>tunnel.rs\<close>, \<open>proposal.rs\<close>,
    \<open>kg_fact.rs\<close>, \<open>diary_entry.rs\<close>, \<open>association.rs\<close> and their \<open>_operational\<close> files).
  \<^item> \<open>Row_Discipline\<close>: the two validators (\<open>forbidden_combination_validator.rs\<close>,
    \<open>drawer_state_validator.rs\<close>) and the error type (\<open>error.rs\<close>).
  \<^item> \<open>Bitmap_Evaluator\<close>, \<open>Recall_Laws\<close>: the filter language and the three-tier recall
    evaluator (\<open>filter.rs\<close>, \<open>bitmap_ops.rs\<close>, \<open>bitmap_evaluator.rs\<close>), and its laws.
  \<^item> \<open>Estate_Store\<close>, \<open>Drawer_Store\<close>, \<open>Estate_Verbs\<close>: an estate. Its tables with the storage calls and
    their failures, the node tree (\<open>node.rs\<close>, \<open>node_store.rs\<close>) and the container aggregates
    (\<open>container_fingerprint_store.rs\<close>); the drawer store with its gated writes, capture and
    supersession, expunge, reanchoring and outlines (\<open>drawer_store_inmemory.rs\<close>, \<open>vocabulary.rs\<close>);
    the verbs, recall and its pages (\<open>estate_verbs.rs\<close>, \<open>recall_stream.rs\<close>, \<open>frames.rs\<close>).
  \<^item> \<open>Learned_Rows\<close>, \<open>Noun_Store\<close>, \<open>Noun_Laws\<close>: the other nouns of an estate, tunnels, facts, proposals,
    associations, learned references and their sources, the diary, traces and summaries, with the verbs that
    write them and the audit of a two-step expunge (\<open>learned_reference.rs\<close>, \<open>source_catalog_entry.rs\<close>,
    \<open>summaries.rs\<close>, \<open>recall_trace_item.rs\<close>, and again \<open>drawer_store_inmemory.rs\<close> and \<open>estate_verbs.rs\<close>);
    that they keep the invariants of the drawers, and what they do.
  \<^item> \<open>Estate_Logic\<close>, \<open>Estate_Laws\<close>, \<open>Estate_History\<close>: a Hoare logic for actions on an estate, the
    locale \<open>estate_env\<close> of the external functions, the invariant, its preservation by every
    verb, and the histories of an estate. \<open>Recall_Complete\<close>: recall equals the evaluation of its frame
    over all live drawers. \<open>Estate_Effects\<close>: what capture, withdrawal, expunge, reparenting, failed reads and
    paging do.
  \<^item> \<open>Sparse_Index\<close>, \<open>Sparse_Search\<close>: the inverted index with its cursors and result heap, and
    the loops of WAND, Block-Max WAND and the exhaustive scan (\<open>engine/inverted_index.rs\<close>).
    \<open>Wand_Exact\<close>, \<open>Wand_Loop\<close> and \<open>Sparse_Exact\<close> hold the proof that WAND is exact.
  \<^item> \<open>Bm25_Index\<close>: the BM25 weighting and the cached in-memory index
    (\<open>engine/bm25_weighting.rs\<close>, \<open>bm25_index.rs\<close>).
  \<^item> \<open>Index_Store\<close>: the persistent index (\<open>engine/inverted_index_store.rs\<close>): its two SQL tables with
    the transaction bracket and failing statements, its cache, and the shards of a bulk import.

  \<^bold>\<open>Conventions.\<close> A fallible function returns \<open>error + value\<close>; an outer option is a panic
  (an index out of range, a division by zero), and theorems that give \<open>Some\<close> show that none
  happens. Strings are byte strings. \<open>usize\<close> is 64 bits wide; indexes and lengths are natural
  numbers, with saturation or wrap-around written out where the code has it. A hash map whose
  iteration order could matter is an association list, so that theorems hold for every order.
  File-system and storage calls consume a list of outcomes in the state, so every failure is a case;
  an estate is quiet when none is left, and its calls then succeed. Error texts are shortened where the code
  formats values into them.

  \<^bold>\<open>External code\<close> is a parameter with its documented behaviour as a locale or a hypothesis:
  \<open>engram_lib\<close> (Hamming distance), \<open>bit_field\<close> (\<open>substrate_kernel\<close>), the automaton of
  \<open>substrate_lib\<close> and the audit fold of \<open>substrate_ml\<close> (arbitrary functions), and \<open>estate_env\<close>: the
  gate of \<open>substrate_lib\<close>, which merges the writes it admits into the prior bitmaps, the OR of
  \<open>substrate_types\<close>, fresh identifiers, and name normalisation. The storage of \<open>persistence_kit\<close> is
  read by its documented relational behaviour. Every locale is
  interpreted on concrete functions or on the model.

  \<^bold>\<open>Loops.\<close> All loops are total functions: the radius loop of a search stops at 256, the heap
  sifts and the projection have measures, and Gosper's loop ends because the mask grows
  (\<open>Flip_Masks\<close>); each turn of a sparse search passes a posting (\<open>Sparse_Search\<close>); a page of a stream moves its offset
  (\<open>Estate_Verbs\<close>). The only fuel is the bound 256 that the code itself puts on the walk to the root of
  an outline.

  \<^bold>\<open>What is shown.\<close> Searches refine \<open>knn_spec\<close> after any history of operations, in both
  lanes, which therefore agree; WAND returns the exhaustive result; the store keeps a readable file and reloads to itself under any
  failures; codecs round-trip and parsers bound what they accept; recall excludes what its
  defaults promise and computes the documented filters where its tiers can; an estate keeps a well-formed
  tree and, while its aggregates are kept, a pruned recall is complete; captures, withdrawals,
  expunges and reparenting do what they promise; and the places where
  code and documentation part are stated as theorems.

  \<^bold>\<open>Not modelled.\<close> The float lane and the embedding providers (IEEE arithmetic); the SQL text and
  row marshalling of the back ends; of an estate the content fingerprints, the Merkle rollup and the
  erasure ledger, whose results the verbs ignore, the hybrid clock, corrupt rows, telemetry and test seams; direct writes of
  the operational bitmap, which no verb makes, are modelled but not part of the histories; and the rest of
  CorpusKit (chunking, fusion, ingestion, persistence and training over external crates).
  The \<open>f64\<close> formula of BM25 is a parameter. The tombstone ratio is a rational
  in place of \<open>f64\<close>, which compares the same below \<open>2 ^ 53\<close> slots.
\<close>

section \<open>Sample inputs\<close>

definition sample_key :: "string \<Rightarrow> vector_record_key" where
  "sample_key s = \<lparr>item_id = s, vector_index = 0, model_id = ''m'', model_version = ''1''\<rparr>"

definition sample_payload :: "u8 \<Rightarrow> vector_payload" where
  "sample_payload b =
     \<lparr>payload_kind = Binary, payload_dim = 256, payload_bytes = replicate 32 b, payload_scale = None\<rparr>"


definition sample_drawer :: "i64 \<Rightarrow> i64 \<Rightarrow> drawer" where
  "sample_drawer adj op =
     (drawer_new 7 ''d'' ''text'' ''n'' ''me'' 5 ''m'')\<lparr>adjective_bitmap := adj, operational_bitmap := op\<rparr>"

definition sample_frame :: "filter list \<Rightarrow> nat recall_frame" where
  "sample_frame chain = recall_frame_new chain"

definition no_history :: "string \<Rightarrow> nat \<Rightarrow> nat locuskit_error + projected_row_state option" where
  "no_history row h = Inr None"

text \<open>Offering a list of entries to a heap, one after the other.\<close>

fun offer_all :: "bounded_max_heap \<Rightarrow> entry list \<Rightarrow> bounded_max_heap option" where
  "offer_all h [] = Some h"
| "offer_all h ((d, key) # es) = (case offer h d key of None \<Rightarrow> None | Some h' \<Rightarrow> offer_all h' es)"

lemma sample_binary32 [simp]: "binary32 (sample_payload b)"
  by (simp add: binary32_def sample_payload_def)


section \<open>Dense search\<close>





text \<open>
  The tables of the index: after any history, the posting list of a band value in a band's table
  is the strictly ascending list of exactly the stored keys whose code has that value in that band.
\<close>

theorem mih_tables_index_codes:
  assumes "list_all op_ok ops" "idx = foldl mih_step (mih_new_with_budget b budget) ops" "t < mih_m idx"
  shows "sorted (postings (tables idx ! t) sub) \<and> distinct (postings (tables idx ! t) sub)
    \<and> set (postings (tables idx ! t) sub)
      = {key. \<exists>e. spec_run ops key = Some e \<and> extract_band e t (sub_bits idx) = sub}"
proof -
  have "mih_ok idx \<and> map_of (codes idx) = spec_run ops"
    using mih_lane.run_from [OF mih_new_ok assms(1), of b budget]
    by (simp add: assms(2) codes_new spec_run_def)
  with assms(3) show ?thesis by (auto simp: mih_ok_def table_ok_def)
qed

theorem mih_tables_index_codes_witness:
  "distinct (postings (tables (mih_new_with_budget M4 None) ! 0) 0)"
  using mih_tables_index_codes [of "[]" "mih_new_with_budget M4 None" M4 None 0 0]
  by (simp add: mih_new_with_budget_def)



section \<open>The parts of the search\<close>

text \<open>
  The mask enumeration: for every width of at most 64 bits and every radius, Gosper's hack
  terminates without dividing by zero and calls the visitor exactly once on every mask of the width
  with at most that many set bits, lighter masks first and masks of one weight in ascending order.
\<close>

theorem flip_masks_enumeration:
  assumes "1 \<le> width" "width \<le> 64"
  shows "\<exists>ms. colex_flip_masks width rho = Some ms
    \<and> set ms = {w. unat w < 2 ^ width \<and> popcount w \<le> rho}
    \<and> sorted_wrt (\<lambda>v w. popcount v < popcount w \<or> popcount v = popcount w \<and> v < w) ms"
  using colex_flip_masks_set [OF assms] colex_flip_masks_sorted [OF assms]
    colex_flip_masks_lists [OF assms, of rho] by blast

theorem flip_masks_enumeration_witness:
  "\<exists>ms. colex_flip_masks 64 3 = Some ms \<and> set ms = {w. unat w < 2 ^ 64 \<and> popcount w \<le> 3}"
  using flip_masks_enumeration [of 64 3] by auto

text \<open>
  The budget projection: for the band widths 8, 16 and 32 at every radius, and for the width 64
  up to radius 26, the projected count is the number of masks the enumeration visits.
\<close>

theorem mask_projection_exact:
  assumes "width \<in> {8, 16, 32} \<or> width = 64 \<and> rho \<le> 26"
  shows "map_option length (colex_flip_masks width rho) = Some (cumulative_choose width rho)"
proof -
  have w: "1 \<le> width" "width \<le> 64" using assms by auto
  have "cumulative_choose width rho = (\<Sum>i\<le>rho. width choose i)"
    using assms by (auto intro: cumulative_choose_narrow cumulative_choose_wide)
  then show ?thesis by (simp add: colex_flip_masks_length [OF w])
qed

theorem mask_projection_exact_witness:
  "map_option length (colex_flip_masks 64 26) = Some (cumulative_choose 64 26)"
  using mask_projection_exact [of 64 26] by simp

text \<open>
  The saturation of the projection is not a bound from above: at width 64 and radius 27 the
  product saturates before the division, and the projected count is below the number of masks.
\<close>

theorem mask_projection_saturates_low:
  "cumulative_choose 64 27 = 2238669057057460562
    \<and> map_option length (colex_flip_masks 64 27) = Some 2402093292062053101"
  by (simp add: colex_flip_masks_length cumulative_choose_64_27 masks_64_27)

text \<open>
  The pigeonhole step of the search: two codes within distance \<open>r\<close> agree, up to
  \<open>r div m\<close> flipped bits, on the extracted value of at least one of the \<open>m\<close> bands.
\<close>

theorem band_pigeonhole:
  assumes "hamming a b \<le> r"
  shows "\<exists>t < band_count_value m.
    popcount (extract_band a t (sub_bits_of m) XOR extract_band b t (sub_bits_of m)) \<le> r div band_count_value m"
  using close_band [OF band_config_of assms] .

theorem band_pigeonhole_witness:
  "\<exists>t < 4. popcount (extract_band (le_engram (replicate 32 3)) t 64
      XOR extract_band (le_engram (replicate 32 3)) t 64) \<le> 0"
  using band_pigeonhole [of "le_engram (replicate 32 3)" "le_engram (replicate 32 3)" 0 M4]
  by (simp add: hamming_def popcount_def sub_bits_of_def)

text \<open>
  The bounded heap: offering distinct candidates one after the other to a fresh heap of positive
  capacity \<open>k\<close> never panics, and the drained heap is the \<open>k\<close> smallest of them in ascending order.
\<close>

theorem heap_keeps_best:
  assumes "0 < k" "distinct es"
  shows "map_option sorted_ascending (offer_all (heap_new k) es) = Some (take k (sort es))"
proof -
  have "\<exists>h'. offer_all h es = Some h' \<and> retains k (S \<union> set es) h'"
    if "finite S" "retains k S h" "distinct es" "S \<inter> set es = {}" for S h
    using that
  proof (induction es arbitrary: S h)
    case (Cons e es)
    obtain d key where e: "e = (d, key)" by fastforce
    obtain h1 where h1: "offer h d key = Some h1" "retains k (insert e S) h1"
      using offer_retains [of S k h d key] Cons.prems assms(1) e by auto
    then show ?case using Cons.IH [of "insert e S" h1] Cons.prems e by (auto simp: insert_commute)
  qed simp
  from this [OF finite.emptyI retains_new] assms(2)
  obtain h' where "offer_all (heap_new k) es = Some h'" "retains k (set es) h'" by auto
  then show ?thesis
    using assms(2) retains_sorted [of "set es" k h']
    by (simp add: sorted_list_of_set_sort_remdups distinct_remdups_id)
qed

theorem heap_keeps_best_witness:
  "map_option sorted_ascending
      (offer_all (heap_new 1) [(3, sample_key ''b''), (2, sample_key ''c''), (2, sample_key ''a'')])
    = Some (take 1 (sort [(3, sample_key ''b''), (2, sample_key ''c''), (2, sample_key ''a'')]))"
  using heap_keeps_best [of 1 "[(3, sample_key ''b''), (2, sample_key ''c''), (2, sample_key ''a'')]"]
  by (simp add: sample_key_def)

text \<open>
  The errors of a search, in both lanes and in the order of the checks: a probe of another kind
  and a metric other than binary Hamming are refused; \<open>k = 0\<close> and an empty index answer with the
  empty list before the length of the probe is looked at; otherwise a probe of another length
  is refused.
\<close>

theorem search_guards:
  "((\<exists>e. mih_search distance idx probe metric k f = Some (Inl e))
      \<longleftrightarrow> payload_kind probe \<noteq> Binary \<or> metric \<noteq> DenseBinary Hamming
        \<or> 0 < k \<and> codes idx \<noteq> [] \<and> length (payload_bytes probe) \<noteq> 32)
    \<and> ((\<exists>e. bf_search distances bf probe metric k f = Some (Inl e))
      \<longleftrightarrow> payload_kind probe \<noteq> Binary \<or> metric \<noteq> DenseBinary Hamming
        \<or> 0 < k \<and> length (payload_bytes probe) \<noteq> 32)"
  by (auto simp: mih_search_def bf_search_def mih_payload_to_engram_def payload_to_engram_def
      bytes_to_engram_def Let_def split: option.splits prod.splits if_splits)

theorem search_guards_witness:
  "(\<exists>e. mih_search hamming_u32 (mih_new M4) (from_f32 []) (DenseBinary Hamming) 1 None = Some (Inl e))
    \<and> \<not> (\<exists>e. bf_search (\<lambda>a. map (hamming_u32 a)) bf_new (sample_payload 1) (DenseBinary Hamming) 1 None
        = Some (Inl e))"
  using search_guards [of hamming_u32 "mih_new M4" "from_f32 []" "DenseBinary Hamming" 1 None
      "\<lambda>a. map (hamming_u32 a)" bf_new]
    search_guards [of hamming_u32 "mih_new M4" "sample_payload 1" "DenseBinary Hamming" 1 None
      "\<lambda>a. map (hamming_u32 a)" bf_new]
  by (simp add: from_f32_def sample_payload_def mih_new_def mih_new_with_budget_def)

text \<open>
  Float payloads: packing \<open>f32\<close> values, as their bits, into little-endian bytes and reading
  them back returns the values, for every vector.
\<close>

theorem f32_payload_round_trip: "as_f32_vec (from_f32 vs) = Inr vs"
  by (simp add: as_f32_vec_def from_f32_def chunks_exact4_concat word_of_le_bytes_u32 o_def
      length_concat sum_list_triv)

text \<open>
  C32. A rebuild that repeats a key leaves stale postings behind: the key is posted under the bands of
  both codes while only the last code is stored, so that removing the key keeps the postings of the
  first code. A later search from the first code marks them as seen, counts them against the
  stored codes and stops: it returns nothing although a vector is stored. The distinct keys that the
  other theorems ask of a rebuild are needed.
\<close>

theorem mih_duplicate_build_loses_vectors:
  assumes "binary32 p" "binary32 q" "a \<noteq> b" "0 < k"
    and "\<And>t. t < band_count_value m \<Longrightarrow>
      extract_band (le_engram (payload_bytes p)) t (sub_bits_of m)
        \<noteq> extract_band (le_engram (payload_bytes q)) t (sub_bits_of m)"
    and "idx = foldl mih_step (mih_new m) [Build [p, q] [a, a], Remove a, Add b q]"
  shows "codes idx = [(b, le_engram (payload_bytes q))]
    \<and> mih_search distance idx p (DenseBinary Hamming) k None = Some (Inr [])"
  using stale_tables(3) [OF assms(1-3,5)] stale_search [OF assms(1-5)]
  by (simp add: assms(6) stale_ops_def)

lemma le_engram_replicate:
  "le_engram (replicate 32 b) = (let w = word_of_nat (unat b * 72340172838076673)
     in \<lparr>block0 = w, block1 = w, block2 = w, block3 = w\<rparr>)"
proof -
  have "replicate 8 b = [b, b, b, b, b, b, b, b]" by (simp add: numeral_eq_Suc)
  then have "from_le_bytes (replicate 8 b) = unat b * 72340172838076673" by simp
  then show ?thesis by (simp add: le_engram_def Let_def)
qed

lemma sample_bands_differ:
  assumes "t < 4"
  shows "extract_band (le_engram (replicate 32 0)) t 64 \<noteq> extract_band (le_engram (replicate 32 1)) t 64"
proof -
  from assms consider "t = 0" | "t = 1" | "t = 2" | "t = 3" by linarith
  then show ?thesis by cases (simp_all add: extract_band_def le_engram_replicate Let_def)
qed

theorem mih_duplicate_build_loses_vectors_witness:
  "mih_search hamming_u32
      (foldl mih_step (mih_new M4)
        [Build [sample_payload 0, sample_payload 1] [sample_key ''a'', sample_key ''a''],
         Remove (sample_key ''a''), Add (sample_key ''b'') (sample_payload 1)])
      (sample_payload 0) (DenseBinary Hamming) 1 None = Some (Inr [])"
  using mih_duplicate_build_loses_vectors [OF sample_binary32 [of 0] sample_binary32 [of 1], of "sample_key ''a''"
      "sample_key ''b''" 1 M4, OF _ _ _ refl] sample_bands_differ
  by (simp add: sample_key_def sub_bits_of_def sample_payload_def)

section \<open>The resident array and its sidecar\<close>

definition sample_array :: resident_vector_array where
  "sample_array = build_array [(sample_key ''a'', [1, 2]), (sample_key ''b'', [3, 4])] Binary 2"

lemma sample_array_ok: "arr_ok sample_array"
  and sample_array_live: "live_records sample_array = [(sample_key ''a'', [1, 2]), (sample_key ''b'', [3, 4])]"
  unfolding sample_array_def by (rule build_array_ok; simp)+

lemma sample_array_encodable: "encodable sample_array"
  by (simp add: encodable_def sample_array_def sample_key_def key_ok_def string_ok_def as_bytes_def)

text \<open>
  The partition index: in every well-formed array the range recorded for a model spans from its
  first to one past its last live slot, and a model without live slots has no range, so that a
  scan restricted to the range misses no vector of the model.
\<close>

theorem partition_spans_live_slots:
  assumes "arr_ok arr"
  shows "partition_range arr mid =
    (let S = {i \<in> set (live_slots arr). model_id (arr_keys arr ! i) = mid}
     in if S = {} then None else Some (Min S, Suc (Max S)))"
  using partition_range_exact [OF assms] .

theorem partition_spans_live_slots_witness: "partition_range sample_array ''n'' = None"
  using partition_spans_live_slots [OF sample_array_ok, of "''n''"]
  by (auto simp: sample_array_def live_slots_def sample_key_def Let_def upt_rec nth_Cons' split: if_splits)

text \<open>
  C16. The sidecar codec round-trips: parsing the bytes written for a well-formed array that fits
  the 32-bit fields of the format returns the array.
\<close>

theorem sidecar_round_trip:
  assumes "arr_ok arr" "encodable arr"
  shows "parse_sidecar (sidecar_bytes arr) = Inr arr"
  using parse_sidecar_bytes [OF assms] .

theorem sidecar_round_trip_witness: "parse_sidecar (sidecar_bytes sample_array) = Inr sample_array"
  using sidecar_round_trip [OF sample_array_ok sample_array_encodable] .

text \<open>
  What the parser accepts from untrusted bytes: an accepted file starts with the magic number, and
  the array it yields has one key per slot, exactly \<open>count * stride\<close> bytes of vectors, all of them
  bytes of the file, and sizes below the limits of the format.
\<close>

theorem sidecar_parse_shape:
  assumes "parse_sidecar data = Inr arr"
  shows "take 4 data = vec_magic \<and> kind_of_byte (data ! 6) = Some (arr_kind arr)
    \<and> length (arr_keys arr) = arr_count arr \<and> length (arr_storage arr) = arr_count arr * arr_stride arr
    \<and> arr_count arr * arr_stride arr \<le> length data
    \<and> arr_count arr < 2 ^ 32 \<and> arr_stride arr < 2 ^ 32 \<and> length (tombstones arr) < 2 ^ 32"
  using parse_sidecar_shape [OF assms] by simp

theorem sidecar_parse_shape_witness: "take 4 (sidecar_bytes sample_array) = vec_magic"
  using sidecar_parse_shape [OF parse_sidecar_bytes [OF sample_array_ok sample_array_encodable]] by simp

text \<open>
  A truncated partition index is not detected: a file cut within the first four bytes of the
  index is accepted as an array without partitions, which has all the live records of the written
  array while no model has a range, so that a search filtered by model finds nothing.
\<close>

theorem sidecar_truncated_index_accepted:
  assumes "arr_ok arr" "encodable arr" "(key, bs) \<in> set (live_records arr)"
    and "length (sidecar_blocks arr) \<le> n" "n < length (sidecar_blocks arr) + 4"
  shows "\<exists>arr'. parse_sidecar (take n (sidecar_bytes arr)) = Inr arr' \<and> live_records arr' = live_records arr
    \<and> partition_range arr' (model_id key) = None \<and> partition_range arr (model_id key) \<noteq> None"
proof (intro exI conjI)
  let ?arr' = "arr\<lparr>model_partitions := []\<rparr>"
  have "take n (sidecar_bytes arr)
      = sidecar_blocks arr @ take (n - length (sidecar_blocks arr)) (encode_partitions (model_partitions arr))"
    using assms(4) by (simp add: sidecar_bytes_blocks)
  then show "parse_sidecar (take n (sidecar_bytes arr)) = Inr ?arr'"
    using parse_sidecar_truncated [OF assms(1,2)] assms(4,5) by simp
  show "live_records ?arr' = live_records arr"
    by (simp add: live_records_def live_slots_def slot_bytes_def is_tombstoned_def)
  show "partition_range ?arr' (model_id key) = None"
    by (simp add: partition_range_def binary_search_by_def partition_point_def partition_between.simps)
  obtain i where "i \<in> set (live_slots arr)" "arr_keys arr ! i = key"
    using assms(3) by (auto simp: live_records_def)
  then show "partition_range arr (model_id key) \<noteq> None"
    using partition_range_exact [OF assms(1), of "model_id key"] by (auto simp: Let_def)
qed

theorem sidecar_truncated_index_accepted_witness:
  "\<exists>arr'. parse_sidecar (take (length (sidecar_blocks sample_array) + 3) (sidecar_bytes sample_array)) = Inr arr'
    \<and> partition_range arr' ''m'' = None"
  using sidecar_truncated_index_accepted [OF sample_array_ok sample_array_encodable, of "sample_key ''a''" "[1, 2]"
      "length (sidecar_blocks sample_array) + 3"]
  by (auto simp: sample_array_live sample_key_def)

section \<open>The resident store\<close>





text \<open>
  C17. An eager append never panics on a well-formed array. When it succeeds the record is added to
  the live records, the store is clean, the sidecar holds the array, and the tombstone ratio is
  within a non-negative threshold.
\<close>

theorem append_adds_record:
  assumes "arr_ok (store_array s)" "length bs = arr_stride (store_array s)"
  shows "\<exists>s' w' r. append_record key bs (s, w) = Some ((s', w'), r) \<and> arr_ok (store_array s')
    \<and> (isl r \<or> mset (live_records (store_array s')) = add_mset (key, bs) (mset (live_records (store_array s)))
        \<and> \<not> is_dirty s' \<and> disk w' = Some (sidecar_bytes (store_array s'))
        \<and> (compaction_threshold s < 0 \<or> tombstone_ratio s' \<le> compaction_threshold s))"
proof -
  note ok = appending_array_ok [OF assms, of key]
  obtain s' w' r where a: "append_record key bs (s, w) = Some ((s', w'), r)"
    "eager_outcome (appending_array (store_array s) key bs) (s, w) (s', w') r"
    using append_outcome [OF assms, of key w] by auto
  then show ?thesis
    using ok assms(1) compacted_arr_ok [OF ok(1)] live_records_compacted [OF ok(1)]
    by (intro exI [of _ s'] exI [of _ w'] exI [of _ r])
      (auto simp: eager_outcome_def)
qed

theorem append_adds_record_witness:
  "\<exists>s' w' r. append_record (sample_key ''a'') (replicate 32 1) (store_new_binary ''p'', \<lparr>disk = None, pending_io = []\<rparr>)
    = Some ((s', w'), r) \<and> arr_ok (store_array s')"
proof -
  have "arr_ok (store_array (store_new_binary ''p''))"
    using store_new_inv [of 32 "''p''" Binary "1 / 4" "[]"] by (simp add: store_inv_def store_new_binary_def)
  then show ?thesis
    using append_adds_record [of "store_new_binary ''p''" "replicate 32 1" "sample_key ''a''"
        "\<lparr>disk = None, pending_io = []\<rparr>"]
    by (auto simp: store_new_binary_def store_new_def arr_empty_def)
qed

text \<open>
  C19. A failed write changes nothing but the list of outcomes still to come: when the next file-system
  call fails, a rebuild, an append, a tombstone of a stored key, a flush of a dirty store and a
  compaction all report an error, and the resident array, the dirty flag, the write count and the
  bytes on disk are as before.
\<close>

theorem failed_write_changes_nothing:
  assumes "arr_ok (store_array s)" "pending_io w = fault # io" "fault \<noteq> IoOk"
    and "op = rebuild_from records
      \<or> op = append_record key bs \<and> length bs = arr_stride (store_array s)
      \<or> op = tombstone key \<and> key \<in> set (arr_keys (store_array s))
      \<or> op = flush \<and> is_dirty s \<or> op = compact"
  shows "\<exists>e. op (s, w) = Some ((s, w\<lparr>pending_io := io\<rparr>), Inl e)"
proof -
  have f: "\<exists>e. persist arr (s, w) = Some ((s, w\<lparr>pending_io := io\<rparr>), Inl e)" for arr
    using assms(2,3) by (cases fault) (simp_all add: persist_def write_sidecar_def next_io_def)
  then have g: "\<exists>e. and_then (persist arr (s, w)) k = Some ((s, w\<lparr>pending_io := io\<rparr>), Inl e)" for arr k
  proof -
    obtain e where "persist arr (s, w) = Some ((s, w\<lparr>pending_io := io\<rparr>), Inl e)" using f by blast
    then show ?thesis by (simp add: and_then_def)
  qed
  have t: "\<exists>e. tombstone key (s, w) = Some ((s, w\<lparr>pending_io := io\<rparr>), Inl e)"
    if k: "key \<in> set (arr_keys (store_array s))"
  proof -
    obtain ws where "mark_slots (\<lambda>k'. k' = key) (store_array s) = (ws, True)"
      using tombstone_outcome [OF assms(1) k, of w] by blast
    then show ?thesis using g by (simp add: tombstone_def)
  qed
  from assms(4) show ?thesis
    using f g t compact_eq [OF assms(1), of w]
    by (auto simp: rebuild_from_def append_record_def flush_def)
qed

lemma sample_store_ok: "arr_ok (store_array (store_new_binary path))"
  using store_new_inv [of 32 path Binary "1 / 4" "[]"] by (simp add: store_inv_def store_new_binary_def)

lemma sample_store_simps [simp]:
  "arr_stride (store_array (store_new_binary path)) = 32"
  "arr_keys (store_array (store_new_binary path)) = []"
  "arr_kind (store_array (store_new_binary path)) = Binary"
  "compaction_threshold (store_new_binary path) = 1 / 4"
  "\<not> is_dirty (store_new_binary path)"
  by (simp_all add: store_new_binary_def store_new_def arr_empty_def)

theorem failed_write_changes_nothing_witness:
  "\<exists>e. compact (store_new_binary ''p'', \<lparr>disk = None, pending_io = [WriteFailed ''full'']\<rparr>)
    = Some ((store_new_binary ''p'', \<lparr>disk = None, pending_io = []\<rparr>), Inl e)"
  using failed_write_changes_nothing [OF sample_store_ok, of "\<lparr>disk = None, pending_io = [WriteFailed ''full'']\<rparr>"
      "WriteFailed ''full''" "[]" compact] by simp

text \<open>
  An error from an append does not mean that nothing happened: when the append is written but
  pushes the tombstone ratio over the threshold and the write of the compaction fails, the
  caller gets the error although the record is live and on disk.
\<close>

theorem append_error_after_success:
  assumes "arr_ok (store_array s)" "length bs = arr_stride (store_array s)"
    and "pending_io w = IoOk # WriteFailed e # io"
    and "compaction_threshold s < tombstone_ratio (s\<lparr>store_array := appending_array (store_array s) key bs\<rparr>)"
  shows "\<exists>s' w' err. append_record key bs (s, w) = Some ((s', w'), Inl err)
    \<and> live_records (store_array s') = live_records (store_array s) @ [(key, bs)]
    \<and> disk w' = Some (sidecar_bytes (store_array s'))"
proof -
  let ?arr = "appending_array (store_array s) key bs"
  let ?s = "s\<lparr>store_array := ?arr, sidecar_write_count := sidecar_write_count s + 1, is_dirty := False\<rparr>"
  let ?w = "w\<lparr>pending_io := WriteFailed e # io, disk := Some (sidecar_bytes ?arr)\<rparr>"
  note ok = appending_array_ok [OF assms(1,2), of key]
  have p: "persist ?arr (s, w) = Some ((?s, ?w), Inr ())"
    using assms(3) by (simp add: persist_def write_sidecar_def next_io_def)
  have "tombstone_ratio ?s = tombstone_ratio (s\<lparr>store_array := ?arr\<rparr>)"
    by (simp add: tombstone_ratio_def Let_def)
  then have "auto_compact (?s, ?w) = compact (?s, ?w)"
    using assms(4) by (simp add: auto_compact_def)
  also have "\<exists>w' err. compact (?s, ?w) = Some ((?s, w'), Inl err) \<and> disk w' = disk ?w"
    using ok by (simp add: compact_eq persist_def write_sidecar_def next_io_def)
  finally show ?thesis
    using assms(2) p ok by (auto simp: append_record_def and_then_def)
qed

definition worn_store :: resident_array_store where
  "worn_store = (store_new ''p'' Binary 1 (1 / 4))\<lparr>store_array :=
     with_tombstones (build_array [(sample_key ''a'', [7])] Binary 1) [1]\<rparr>"

lemma one_dead: "is_dead [1] i \<longleftrightarrow> i = 0"
proof (cases "i < 64")
  case True
  then show ?thesis by (simp add: is_dead_bit bit_1_iff)
next
  case False
  then have "1 \<le> i div 64" by (simp add: div_greater_zero_iff Suc_le_eq)
  with False show ?thesis by (auto simp: is_dead_bit)
qed

lemma worn_store_ok: "arr_ok (store_array worn_store)"
proof -
  have "slot_extents [sample_key ''a''] [1] = ([], [])"
    by (simp add: slot_extents_def one_dead)
  then show ?thesis
    by (simp add: arr_ok_def worn_store_def with_tombstones_def build_array_def is_tombstoned_def one_dead
        build_partitions_def Let_def)
qed

theorem append_error_after_success_witness:
  "\<exists>s' w' err. append_record (sample_key ''b'') [8]
      (worn_store, \<lparr>disk = None, pending_io = [IoOk, WriteFailed ''full'']\<rparr>) = Some ((s', w'), Inl err)
    \<and> (sample_key ''b'', [8]) \<in> set (live_records (store_array s'))"
proof -
  let ?arr = "appending_array (store_array worn_store) (sample_key ''b'') [8]"
  have "is_tombstoned ?arr i \<longleftrightarrow> i = 0" for i
    by (simp add: worn_store_def with_tombstones_def appending_array_def with_slot_def Let_def
        is_tombstoned_def one_dead pad_words_def)
  then have "tombstone_ratio (worn_store\<lparr>store_array := ?arr\<rparr>) = 1 / 2"
    by (simp add: tombstone_ratio_def Let_def appending_array_def with_slot_def worn_store_def with_tombstones_def upt_rec)
  then show ?thesis
    using append_error_after_success [OF worn_store_ok, of "[8]" "\<lparr>disk = None, pending_io = [IoOk, WriteFailed ''full'']\<rparr>"
        "''full''" "[]" "sample_key ''b''"]
    by (auto simp: worn_store_def store_new_def with_tombstones_def)
qed



text \<open>
  C18. Tombstones and compaction: a successful \<open>tombstone\<close> of a stored key removes exactly its
  live records, and a successful \<open>compact\<close> leaves the live records sorted by key and no
  tombstoned slot.
\<close>

theorem tombstone_and_compact_effect:
  assumes "arr_ok (store_array s)"
  shows "(\<exists>s' w' r. tombstone key (s, w) = Some ((s', w'), r) \<and> arr_ok (store_array s')
      \<and> (isl r \<or> mset (live_records (store_array s'))
          = filter_mset (\<lambda>(k, _). k \<noteq> key) (mset (live_records (store_array s)))))
    \<and> (\<exists>s' w' r. compact (s, w) = Some ((s', w'), r)
      \<and> (isl r \<or> live_records (store_array s') = sort_key fst (live_records (store_array s))
          \<and> live_count (store_array s') = arr_count (store_array s')))"
proof
  show "\<exists>s' w' r. tombstone key (s, w) = Some ((s', w'), r) \<and> arr_ok (store_array s')
      \<and> (isl r \<or> mset (live_records (store_array s'))
          = filter_mset (\<lambda>(k, _). k \<noteq> key) (mset (live_records (store_array s))))"
  proof (cases "key \<in> set (arr_keys (store_array s))")
    case True
    then obtain ws s' w' r where t: "tombstone key (s, w) = Some ((s', w'), r)"
      "mark_slots (\<lambda>k'. k' = key) (store_array s) = (ws, True)"
      "eager_outcome (with_tombstones (store_array s) ws) (s, w) (s', w') r"
      using tombstone_outcome [OF assms True, of w] by auto
    note m = arr_ok_marked [OF assms t(2)]
    show ?thesis
      using t(1,3) assms m compacted_arr_ok [OF m(1)] live_records_compacted [OF m(1)]
      by (intro exI [of _ s'] exI [of _ w'] exI [of _ r]) (auto simp: eager_outcome_def mset_filter)
  next
    case False
    then have "filter (\<lambda>(k, _). k \<noteq> key) (live_records (store_array s)) = live_records (store_array s)"
      using assms by (auto simp: filter_id_conv live_records_def set_live_slots arr_ok_def)
    then have "filter_mset (\<lambda>(k, _). k \<noteq> key) (mset (live_records (store_array s))) = mset (live_records (store_array s))"
      by (simp flip: mset_filter)
    then show ?thesis using tombstone_absent [OF assms False, of w] assms by auto
  qed
  show "\<exists>s' w' r. compact (s, w) = Some ((s', w'), r)
      \<and> (isl r \<or> live_records (store_array s') = sort_key fst (live_records (store_array s))
          \<and> live_count (store_array s') = arr_count (store_array s'))"
    using live_records_compacted [OF assms]
    by (cases rule: persist_cases [of "compacted (store_array s)" s w])
      (auto simp: compact_eq [OF assms] compacted_def live_count_def)
qed

theorem tombstone_and_compact_effect_witness:
  "\<exists>s' w' r. compact (store_new_binary ''p'', \<lparr>disk = None, pending_io = []\<rparr>) = Some ((s', w'), r)"
  using tombstone_and_compact_effect [OF sample_store_ok] by blast

section \<open>Late-interaction scores\<close>

text \<open>
  C23. The score of a document is the sum, over the tokens of the query, of the best similarity to a
  token of the document, without wrap-around for queries of fewer than \<open>2 ^ 24\<close> tokens.
\<close>

theorem max_sim_score:
  assumes "engram_lib distance distances" "length Q < 2 ^ 24"
  shows "unat (compute_max_sim distance Q D)
    = (if D = [] then 0 else (\<Sum>q\<leftarrow>Q. 256 - Min ((\<lambda>d. hamming q d) ` set D)))"
  using engram_lib.compute_max_sim_value [OF assms] by (simp add: max_sim_def)

theorem max_sim_score_witness:
  "unat (compute_max_sim hamming_u32 [le_engram []] [le_engram []]) = 256"
  using max_sim_score [OF hamming_lib.engram_lib_axioms, of "[le_engram []]" "[le_engram []]"]
  by (simp add: hamming_def popcount_def)

text \<open>
  The ranking: \<open>score\<close> returns as many hits as documents up to \<open>k\<close>, by descending score and
  then ascending item, and every document that is left out ranks after every returned hit.
\<close>

theorem max_sim_ranking:
  assumes "hits = score distance Q docs k"
  shows "length hits = min k (length docs) \<and> sorted_wrt ranks_before hits
    \<and> (\<exists>rest. mset hits + mset rest
          = mset (map (\<lambda>(iid, D). \<lparr>ms_item_id = iid, ms_score = compute_max_sim distance Q D\<rparr>) docs)
        \<and> (\<forall>h \<in> set hits. \<forall>r \<in> set rest. ranks_before h r))"
  using score_ranking [OF assms refl] by simp

theorem max_sim_ranking_witness:
  "length (score hamming_u32 [le_engram []] [(''x'', []), (''y'', [le_engram []])] 1) = 1"
  using max_sim_ranking [OF refl, of hamming_u32 "[le_engram []]" "[(''x'', []), (''y'', [le_engram []])]" 1]
  by simp

text \<open>
  The accumulator is not wide enough for every query: a query of \<open>2 ^ 24\<close> tokens that all occur in
  the document has the best possible score, and the \<open>u32\<close> sum wraps to zero.
\<close>

theorem max_sim_overflow:
  assumes "engram_lib distance distances"
  shows "compute_max_sim distance (replicate (2 ^ 24) q) [q] = 0
    \<and> max_sim (replicate (2 ^ 24) q) [q] = 2 ^ 32"
proof -
  have "max_sim (replicate n q) [q] = n * 256" for n
    by (simp add: max_sim_def sum_list_replicate hamming_def popcount_def)
  then have m: "max_sim (replicate (2 ^ 24) q) [q] = 2 ^ 32" by (simp only:) simp
  then show ?thesis
    using engram_lib.compute_max_sim_word [OF assms, of "replicate (2 ^ 24) q" "[q]"] by (simp only: m) simp
qed

theorem max_sim_overflow_witness:
  "compute_max_sim hamming_u32 (replicate (2 ^ 24) (le_engram [])) [le_engram []] = 0"
  using max_sim_overflow [OF hamming_lib.engram_lib_axioms, of "le_engram []"] by (rule conjunct1)

section \<open>Recall\<close>

lemma ref_fields: "bit_field ref_extract_field ref_extract_flag ref_write_field ref_popcount"
  by (rule ref_bits.bit_field_axioms)

lemma sample_frame_simps [simp]:
  "frame_as_of (sample_frame chain) = None" "filter_chain (sample_frame chain) = chain"
  "frame_ordering (sample_frame chain) = ByCaptureTimeDesc"
  by (simp_all add: sample_frame_def recall_frame_new_def)

lemma sample_recall:
  assumes "row_passes ext pc lower names (insert_defaults chain) d"
  shows "evaluate ext pc no_history lower (sample_frame chain) [d] names = Inr [d]"
  using assms by (simp add: evaluate_current sort_drawers_def)

lemma sample_passes:
  "row_passes ref_extract_field ref_popcount lower names (insert_defaults []) (sample_drawer 0 0)"
  by (simp add: insert_defaults_def row_passes_tiers tiers_def sample_drawer_def drawer_new_def
      ref_bits.state_field ref_bits.cluster_field ref_bits.trust_field ref_bits.sens_field ref_extract_field_def)

text \<open>
  C10. What a recall of the current state never returns: a tombstoned row; a row of trust beyond
  \<open>Canonical\<close>, unless the chain names trust; a restricted or secret row, unless the chain names
  sensitivity; a row that is not currently believed, unless the chain names the state. The bit
  fields are any functions that meet the documentation of \<open>substrate_kernel\<close>.
\<close>

theorem default_recall_safety:
  assumes "bit_field ext flag wr pc" "frame_as_of frame = None"
    and "evaluate ext pc rec lower frame drawers names = Inr result" "d \<in> set result"
  shows "drawer_state ext d \<noteq> State_Tombstoned
    \<and> (list_ex is_bitmap_trust_filter (filter_chain frame) \<or> trust ext d \<le> Trust_Canonical)
    \<and> (list_ex is_bitmap_sensitivity_filter (filter_chain frame)
        \<or> adjective_sensitivity ext d \<in> {AdjectiveSensitivity_Normal, AdjectiveSensitivity_Elevated})
    \<and> (list_ex is_bitmap_state_filter (filter_chain frame) \<or> is_currently_believed ext d)"
  using bit_field.evaluate_safe [OF assms] .

theorem default_recall_safety_witness:
  "drawer_state ref_extract_field (sample_drawer 0 0) \<noteq> State_Tombstoned"
  using default_recall_safety [OF ref_fields _ sample_recall [OF sample_passes [of id Map.empty]]] by simp



text \<open>
  C33. A negation outside the bitmap tier rejects every row: the bitmap tier lets a structural or content
  filter pass and so fails its negation, whatever the rows are.
\<close>

theorem negated_structural_filter_rejects_all:
  assumes "frame_as_of frame = None" "F_Not f \<in> set (filter_chain frame)" "structural_only f \<or> content_only f"
  shows "evaluate ext pc rec lower frame drawers names = Inr []"
  using evaluate_not_structural [OF assms] .

theorem negated_structural_filter_rejects_all_witness:
  "evaluate ref_extract_field ref_popcount no_history id (sample_frame [F_Not (F_InRoom ''kitchen'')])
      [sample_drawer 0 0] Map.empty = Inr []
    \<and> matches ref_extract_field ref_popcount id Map.empty (sample_drawer 0 0) (F_Not (F_InRoom ''kitchen''))"
  using negated_structural_filter_rejects_all [of "sample_frame [F_Not (F_InRoom ''kitchen'')]" "F_InRoom ''kitchen''"]
  by (simp add: wing_room_def)

text \<open>
  A disjunction across tiers is evaluated as a conjunction: asking for a room or a substring gives
  the rows that are in the room and contain the substring.
\<close>

theorem any_across_tiers_is_conjunction:
  "evaluate ext pc rec lower (sample_frame [F_Any [F_InRoom r, F_ContentMatches s]]) drawers names
    = evaluate ext pc rec lower (sample_frame [F_InRoom r, F_ContentMatches s]) drawers names"
proof -
  have "insert_defaults [F_Any [F_InRoom r, F_ContentMatches s]]
      = insert_defaults [] @ [F_Any [F_InRoom r, F_ContentMatches s]]"
    "insert_defaults [F_InRoom r, F_ContentMatches s] = insert_defaults [] @ [F_InRoom r, F_ContentMatches s]"
    by (simp_all add: insert_defaults_def)
  then have "row_passes ext pc lower names (insert_defaults [F_Any [F_InRoom r, F_ContentMatches s]])
      = row_passes ext pc lower names (insert_defaults [F_InRoom r, F_ContentMatches s])"
    by (intro ext) (auto simp: row_passes_tiers tiers_def)
  then show ?thesis by (simp add: evaluate_current)
qed

text \<open>
  Container pruning loses no row: if the operational bits of every row of a container are covered by
  its fingerprint and the chain does not let the container survive, the recall over its rows is empty.
\<close>

theorem container_pruning_sound:
  assumes "frame_as_of frame = None" "\<not> container_survives (filter_chain frame) fp"
    and "\<forall>d \<in> set drawers. covers fp (operational_bitmap d)"
  shows "evaluate ext pc rec lower frame drawers names = Inr []"
  using evaluate_pruned [OF assms] .

theorem container_pruning_sound_witness:
  "evaluate ref_extract_field ref_popcount no_history id (sample_frame [F_HasFeatureFlag HAS_VOICE])
      [sample_drawer 0 HAS_LINKS] Map.empty = Inr []"
  using container_pruning_sound [of "sample_frame [F_HasFeatureFlag HAS_VOICE]"
      "\<lparr>cf_adjective = 0, cf_operational = HAS_LINKS, cf_provenance = 0\<rparr>" "[sample_drawer 0 HAS_LINKS]"]
  by (simp add: container_survives_def covers_def sample_drawer_def drawer_new_def HAS_VOICE_def HAS_LINKS_def)



text \<open>
  A state value outside the enum is read in two ways: the decoder says \<open>Active\<close>, hence currently
  believed, while the default filter of a recall, which reads the bits, never returns the row.
\<close>

theorem unassigned_state_not_recalled:
  assumes "bit_field ext flag wr pc" "sint (ext (adjective_bitmap d) 0 6) = 40" "frame_as_of frame = None"
    and "\<not> list_ex is_bitmap_state_filter (filter_chain frame)"
    and "evaluate ext pc rec lower frame drawers names = Inr result"
  shows "drawer_state ext d = State_Active \<and> is_currently_believed ext d \<and> d \<notin> set result"
proof -
  note u = bit_field.unassigned_state [OF assms(1,2)]
  have "F_CurrentlyBelieve \<in> set (insert_defaults (filter_chain frame))"
    using assms(4) by (simp add: insert_defaults_set)
  then have "d \<notin> set result"
    using evaluate_current_mem [OF assms(3,5)] row_passes_one u(2) by blast
  then show ?thesis using u(1) assms(2) by (simp add: drawer_state_def State_from_raw_def)
qed

lemma sample_drawer_state: "sint (ref_extract_field (adjective_bitmap (sample_drawer 40 op)) 0 6) = 40"
  by (simp add: sample_drawer_def drawer_new_def ref_bits.field_value)

theorem unassigned_state_not_recalled_witness:
  "is_currently_believed ref_extract_field (sample_drawer 40 0)
    \<and> (case evaluate ref_extract_field ref_popcount no_history id (sample_frame []) [sample_drawer 40 0] Map.empty of
         Inl e \<Rightarrow> False | Inr result \<Rightarrow> sample_drawer 40 0 \<notin> set result)"
proof -
  obtain result where r: "evaluate ref_extract_field ref_popcount no_history id (sample_frame [])
      [sample_drawer 40 0] Map.empty = Inr result"
    by (simp add: evaluate_current)
  show ?thesis
    using unassigned_state_not_recalled [OF ref_fields sample_drawer_state _ _ r] by (simp add: r)
qed

section \<open>Rows and their discipline\<close>

text \<open>
  Every field enum decodes what it encodes: for each of the thirty-two enums, reading the raw value
  of a case gives the case back.
\<close>

theorem enum_codes_round_trip:
  "State_from_raw (State_raw x0) = x0
    \<and> Trust_from_raw (Trust_raw x1) = x1
    \<and> AdjectiveSensitivity_from_raw (AdjectiveSensitivity_raw x2) = x2
    \<and> AdjectiveExportability_from_raw (AdjectiveExportability_raw x3) = x3
    \<and> CaptureChannel_from_raw (CaptureChannel_raw x4) = x4
    \<and> ContentKind_from_raw (ContentKind_raw x5) = x5
    \<and> SourceType_from_raw (SourceType_raw x6) = x6
    \<and> Channel_from_raw (Channel_raw x7) = x7
    \<and> Confirmation_from_raw (Confirmation_raw x8) = x8
    \<and> Confidence_from_raw (Confidence_raw x9) = x9
    \<and> Sensitivity_from_raw (Sensitivity_raw x10) = x10
    \<and> EnrichmentStatus_from_raw (EnrichmentStatus_raw x11) = x11
    \<and> TunnelKind_from_raw (TunnelKind_raw x12) = x12
    \<and> TunnelDirection_from_raw (TunnelDirection_raw x13) = x13
    \<and> TunnelLifecycle_from_raw (TunnelLifecycle_raw x14) = x14
    \<and> TunnelOriginClass_from_raw (TunnelOriginClass_raw x15) = x15
    \<and> TunnelStrength_from_raw (TunnelStrength_raw x16) = x16
    \<and> ProposalKind_from_raw (ProposalKind_raw x17) = x17
    \<and> ProposalTargetObjectType_from_raw (ProposalTargetObjectType_raw x18) = x18
    \<and> ProposalConfirmationSource_from_raw (ProposalConfirmationSource_raw x19) = x19
    \<and> ProposalGeneratedByClass_from_raw (ProposalGeneratedByClass_raw x20) = x20
    \<and> ProposalConfidenceBucket_from_raw (ProposalConfidenceBucket_raw x21) = x21
    \<and> KGExtractorClass_from_raw (KGExtractorClass_raw x22) = x22
    \<and> KGAssertionKind_from_raw (KGAssertionKind_raw x23) = x23
    \<and> KGSpecificity_from_raw (KGSpecificity_raw x24) = x24
    \<and> KGConfidenceBand_from_raw (KGConfidenceBand_raw x25) = x25
    \<and> DiaryEventClass_from_raw (DiaryEventClass_raw x26) = x26
    \<and> DiarySeverity_from_raw (DiarySeverity_raw x27) = x27
    \<and> DiaryActorClass_from_raw (DiaryActorClass_raw x28) = x28
    \<and> DiaryBatchMembership_from_raw (DiaryBatchMembership_raw x29) = x29
    \<and> AssociationDecayClass_from_raw (AssociationDecayClass_raw x30) = x30
    \<and> AssociationArity_from_raw (AssociationArity_raw x31) = x31"
  by (simp only: State.from_raw_raw Trust.from_raw_raw AdjectiveSensitivity.from_raw_raw AdjectiveExportability.from_raw_raw
      CaptureChannel.from_raw_raw ContentKind.from_raw_raw SourceType.from_raw_raw Channel.from_raw_raw
      Confirmation.from_raw_raw Confidence.from_raw_raw Sensitivity.from_raw_raw EnrichmentStatus.from_raw_raw
      TunnelKind.from_raw_raw TunnelDirection.from_raw_raw TunnelLifecycle.from_raw_raw TunnelOriginClass.from_raw_raw
      TunnelStrength.from_raw_raw ProposalKind.from_raw_raw ProposalTargetObjectType.from_raw_raw ProposalConfirmationSource.from_raw_raw
      ProposalGeneratedByClass.from_raw_raw ProposalConfidenceBucket.from_raw_raw KGExtractorClass.from_raw_raw KGAssertionKind.from_raw_raw
      KGSpecificity.from_raw_raw KGConfidenceBand.from_raw_raw DiaryEventClass.from_raw_raw DiarySeverity.from_raw_raw
      DiaryActorClass.from_raw_raw DiaryBatchMembership.from_raw_raw AssociationDecayClass.from_raw_raw AssociationArity.from_raw_raw simp_thms)

text \<open>
  Writing one field of a bitmap leaves the others alone: a tunnel's new lifecycle reads back
  with its direction, origin, strength, inverse and retirement flags as before; a drawer's new state with
  its sensitivity, exportability, trust and seal as before; and a composed proposal reads back all
  four composed axes.
\<close>

theorem field_writes_isolated:
  assumes "bit_field ext flag wr pc"
    and "t' = with_lifecycle wr t l"
    and "adjective_bitmap d' = wr (word_of_int (State_raw s)) (adjective_bitmap d) 0 6"
    and "proposal_operational p = compose_operational wr kind target generated conf"
  shows "lifecycle ext t' = l \<and> direction ext t' = direction ext t \<and> origin_class ext t' = origin_class ext t
    \<and> strength ext t' = strength ext t \<and> has_inverse flag t' = has_inverse flag t \<and> is_retired t' = is_retired t
    \<and> drawer_state ext d' = s \<and> adjective_sensitivity ext d' = adjective_sensitivity ext d
    \<and> exportability ext d' = exportability ext d \<and> trust ext d' = trust ext d \<and> sealed flag d' = sealed flag d
    \<and> proposal_kind ext p = kind \<and> target_object_type ext p = target
    \<and> generated_by_class ext p = generated \<and> confidence_bucket ext p = conf"
  using bit_field.lifecycle_written [OF assms(1), of t l] bit_field.state_written [OF assms(1,3)]
    bit_field.composed_proposal [OF assms(1,4)]
  by (simp add: assms(2))

theorem field_writes_isolated_witness:
  "drawer_state ref_extract_field
      ((sample_drawer 0 0)\<lparr>adjective_bitmap := ref_write_field (word_of_int (State_raw State_Expired)) 0 0 6\<rparr>)
    = State_Expired"
  using field_writes_isolated [OF ref_fields refl, of
      "(sample_drawer 0 0)\<lparr>adjective_bitmap := ref_write_field (word_of_int (State_raw State_Expired)) 0 0 6\<rparr>"
      State_Expired "sample_drawer 0 0"
      "(proposal_new ''p'' ''t'' \<lparr>anchor_udc_code = [], anchor_udc_facets = None, anchor_wikidata_qid = None, anchor_wikidata_qids_secondary = None\<rparr> 5)\<lparr>proposal_operational :=
        compose_operational ref_write_field ProposalKind_NewTunnel ProposalTargetObjectType_Drawer
          ProposalGeneratedByClass_DreamingDaemon ProposalConfidenceBucket_Null\<rparr>"]
  by (simp add: sample_drawer_def drawer_new_def)

text \<open>
  The forbidden combination: an adjective bitmap is rejected exactly when the row would decode as
  secret and public at once; every other combination of sensitivity and exportability is accepted.
\<close>

theorem forbidden_combination_exact:
  "isl (validate_combination ext (adjective_bitmap d))
    = (adjective_sensitivity ext d = AdjectiveSensitivity_Secret
        \<and> exportability ext d = AdjectiveExportability_Public)"
  by (simp add: validate_combination_def secret_exportable_typed)

text \<open>
  C22. State transitions: a transition is accepted exactly when the external automaton takes the prior
  state by the verb to the announced state, so that at most one target is accepted for each verb;
  every rejection reports the raw values of both states.
\<close>

theorem transition_validation_exact:
  "(case validate_transition row_from_raw row_raw transition frm to via of
      Inr _ \<Rightarrow> \<exists>prior nxt. row_from_raw (word_of_int (State_raw frm)) = Some prior
        \<and> transition prior via = Some nxt \<and> uint (row_raw nxt) = State_raw to
    | Inl e \<Rightarrow> (\<exists>why. e = DisciplineViolation (State_raw frm) (State_raw to) why)
        \<and> (\<nexists>prior nxt. row_from_raw (word_of_int (State_raw frm)) = Some prior
              \<and> transition prior via = Some nxt \<and> uint (row_raw nxt) = State_raw to))
    \<and> (\<exists>target. {to. validate_transition row_from_raw row_raw transition frm to via = Inr ()} \<subseteq> {target})"
proof
  show "\<exists>target. {to. validate_transition row_from_raw row_raw transition frm to via = Inr ()} \<subseteq> {target}"
  proof (cases "\<exists>target. validate_transition row_from_raw row_raw transition frm target via = Inr ()")
    case True
    then obtain target where "validate_transition row_from_raw row_raw transition frm target via = Inr ()" by blast
    then have "{to. validate_transition row_from_raw row_raw transition frm to via = Inr ()} \<subseteq> {target}"
      by (auto simp: validate_transition_Ok intro: injD [OF State.inj_raw])
    then show ?thesis by blast
  qed blast
qed (auto simp: validate_transition_def bridge_error_def target_error_def split: option.splits)

section \<open>The sparse lane\<close>

abbreviation posting :: "string \<Rightarrow> i32 \<Rightarrow> impact_posting" where
  "posting item i \<equiv> \<lparr>post_item = item, impact = i\<rparr>"

text \<open>
  C12. WAND is exact: when every list of the query has positive impacts, a positive weight, no repeated
  item and products within \<open>i32\<close>, \<open>top_k\<close> with \<open>Algorithm::Wand\<close> returns the hits of the exhaustive
  scan, in the same order, for every \<open>k\<close>.
\<close>

theorem wand_matches_exhaustive:
  assumes "\<forall>(t, w) \<in> set query. \<forall>posts. pls t = Some posts \<longrightarrow>
      distinct (map post_item posts) \<and> 0 < sint w
      \<and> (\<forall>p \<in> set posts. 0 < sint (impact p) \<and> sint w * sint (impact p) \<le> 2 ^ 31 - 1)"
  shows "top_k surface (inverted_index_new pls n) query k Wand
    = Some (exhaustive_scan surface (inverted_index_new pls n) query k)"
  by (rule top_k_wand_exact [OF index_ok_new query_ok_new]) (use assms in \<open>simp add: list_ok_def\<close>)

definition sample_postings :: "u32 \<rightharpoonup> impact_posting list" where
  "sample_postings = [1 \<mapsto> [posting ''b'' 1, posting ''p'' 3], 2 \<mapsto> [posting ''b'' 3],
     3 \<mapsto> [posting ''p'' 3], 4 \<mapsto> [posting ''p'' 3], 5 \<mapsto> [posting ''a'' 6]]"

definition sample_terms :: "(u32 \<times> i32) list" where
  "sample_terms = [(1, 1), (2, 1), (3, 1), (4, 1), (5, 1)]"

theorem wand_matches_exhaustive_witness:
  "top_k id (inverted_index_new sample_postings 3) sample_terms 1 Wand = Some [(''p'', 9)]"
proof -
  have "exhaustive_scan id (inverted_index_new sample_postings 3) sample_terms 1 = [(''p'', 9)]"
    by code_simp
  then show ?thesis
    using wand_matches_exhaustive [of sample_terms sample_postings id 3 1]
    by (simp add: sample_terms_def sample_postings_def)
qed


text \<open>
  WAND outside those conditions: an item of score 0 is in the exhaustive scan but never a pivot, and
  an upper bound clamped to \<open>i32::MAX\<close> is below the contributions it bounds, so the search stops
  before a better item.
\<close>

theorem wand_misses_outside:
  "top_k surface (inverted_index_new [1 \<mapsto> [posting ''x'' 0]] 1) [(1, 1)] 1 Wand = Some []
    \<and> exhaustive_scan surface (inverted_index_new [1 \<mapsto> [posting ''x'' 0]] 1) [(1, 1)] 1 = [(''x'', surface 0)]
    \<and> top_k surface (inverted_index_new [1 \<mapsto> [posting ''a'' 32768], 2 \<mapsto> [posting ''b'' 65536]] 2)
        [(1, 65536), (2, 65536)] 1 Wand = Some [(''a'', surface (2 ^ 31))]
    \<and> exhaustive_scan surface (inverted_index_new [1 \<mapsto> [posting ''a'' 32768], 2 \<mapsto> [posting ''b'' 65536]] 2)
        [(1, 65536), (2, 65536)] 1 = [(''b'', surface (2 ^ 32))]"
proof -
  let ?zero = "inverted_index_new [1 \<mapsto> [posting ''x'' 0]] 1"
  let ?big = "inverted_index_new [1 \<mapsto> [posting ''a'' 32768], 2 \<mapsto> [posting ''b'' 65536]] 2"
  have "run_wand (build_cursors ?zero [(1, 1)]) 1 = Some []" "build_cursors ?zero [(1, 1)] \<noteq> []"
    "take 1 (sort_key (\<lambda>(i, s). (- s, i)) (scan_scores ?zero [(1, 1)])) = [(''x'', 0)]"
    "run_wand (build_cursors ?big [(1, 65536), (2, 65536)]) 1 = Some [(''a'', 2147483648)]"
    "build_cursors ?big [(1, 65536), (2, 65536)] \<noteq> []"
    "take 1 (sort_key (\<lambda>(i, s). (- s, i)) (scan_scores ?big [(1, 65536), (2, 65536)])) = [(''b'', 4294967296)]"
    by code_simp+
  then show ?thesis by (simp add: top_k_def exhaustive_scan_def)
qed


text \<open>
  C35. After any history of indexing, removals and queries, a BM25 search returns what an index rebuilt
  from the current tables returns, and only documents that are indexed at that moment; a removed
  document is not.
\<close>

theorem bm25_search_current:
  fixes ops :: "bm25_op list" and bm25 :: bm25_weight and toks :: "string \<Rightarrow> string list"
  defines "ix \<equiv> fold (bm25_step bm25 toks) ops bm25_new"
  shows "(\<exists>hits ix'. bm25_top_k bm25 surface parse k tokens ix = Some (hits, ix')
      \<and> map_option fst (bm25_top_k bm25 surface parse k tokens (ix\<lparr>cached := None\<rparr>)) = Some hits
      \<and> length hits \<le> k \<and> Some ` fst ` set hits \<subseteq> parse ` fst ` set (doc_lengths ix))
    \<and> fst ` set (doc_lengths (bm25_remove item ix)) = fst ` set (doc_lengths ix) - {item}"
proof -
  have "bm25_index_ok bm25 ix" unfolding ix_def by (rule bm25_history_ok)
  from bm25_top_k_result [OF this, of surface parse k tokens]
  obtain hits ix' where "bm25_top_k bm25 surface parse k tokens ix = Some (hits, ix')"
      "map_option fst (bm25_top_k bm25 surface parse k tokens (ix\<lparr>cached := None\<rparr>)) = Some hits"
      "length hits \<le> k" and found: "\<forall>(u, s) \<in> set hits. \<exists>item \<in> fst ` set (doc_lengths ix). parse item = Some u"
    by (elim exE conjE)
  moreover have "Some u \<in> parse ` fst ` set (doc_lengths ix)" if us: "(u, s) \<in> set hits" for u s
  proof -
    obtain item where "item \<in> fst ` set (doc_lengths ix)" "parse item = Some u"
      using bspec [OF found us] by auto
    then show ?thesis by (metis image_eqI)
  qed
  then have "Some ` fst ` set hits \<subseteq> parse ` fst ` set (doc_lengths ix)"
    by (intro image_subsetI) (erule imageE, simp only: split_paired_all fst_conv)
  ultimately show ?thesis by (intro conjI exI bm25_remove_lengths)
qed

section \<open>The persistent sparse index\<close>

text \<open>
  C36. After any history of writes, removals, batches, imports and queries in which no statement
  fails and nothing is rolled back, a search of the persistent index returns what it would return
  after a reload of the tables, at most \<open>k\<close> hits, all of them documents with rows at that moment.
\<close>

theorem iix_search_current:
  fixes d :: sql_tables and ops :: "'p iix_op list" and bm25 :: "'p \<Rightarrow> bm25_weight"
  defines "s \<equiv> fold (iix_step bm25) ops (iix_open \<lparr>conn_db = d, conn_saved = None, conn_outcomes = []\<rparr>)"
  shows "\<exists>hits s'. iix_top_k bm25 surface terms k p alg s = Some (hits, s')
    \<and> map_option fst (iix_top_k bm25 surface terms k p alg (s\<lparr>iix_cached := None\<rparr>)) = Some hits
    \<and> length hits \<le> k \<and> fst ` set hits \<subseteq> snd ` fst ` set (tf_rows (conn_db (conn s)))"
proof -
  have ok: "iix_ok bm25 s" unfolding s_def by (rule iix_history_ok)
  then have fresh: "iix_ok bm25 (s\<lparr>iix_cached := None\<rparr>)" by (simp add: iix_ok_def)
  from iix_top_k_result [OF ok, of surface terms k p alg] iix_top_k_result [OF fresh, of surface terms k p alg]
  show ?thesis by auto
qed

text \<open>
  C37. A write replaces the rows of its document and leaves all others: each token of the document is
  stored with its number of occurrences and the document with its length, and an empty document
  leaves no row.
\<close>

theorem iix_index_replaces:
  fixes s :: "'p iix_store" and item :: string and tokens :: "string list"
  defines "d \<equiv> conn_db (conn s)" and "d' \<equiv> conn_db (conn (snd (iix_index item tokens s)))"
  assumes "conn_outcomes (conn s) = []"
  shows "map_of (tf_rows d') (t, i) = (if i \<noteq> item then map_of (tf_rows d) (t, i)
      else if t \<in> set tokens then Some (count_list tokens t) else None)
    \<and> map_of (len_rows d') i = (if i \<noteq> item then map_of (len_rows d) i
      else if tokens = [] then None else Some (length tokens))"
proof -
  have "d' = conn_db (snd (write_document item tokens (conn s)))"
    by (simp add: d'_def iix_index_def writing_def write_document_quiet [OF assms(3)])
  then show ?thesis using written_rows [OF assms(3), of item tokens] by (simp add: d_def)
qed

theorem iix_index_replaces_witness:
  "map_of (tf_rows (conn_db (conn (snd (iix_index ''m1'' [''a'', ''b'', ''a'']
      (iix_open empty_conn :: nat iix_store)))))) (''a'', ''m1'') = Some 2"
proof -
  have "conn_outcomes (conn (iix_open empty_conn :: nat iix_store)) = []"
    by (simp add: iix_open_def empty_conn_def)
  from iix_index_replaces [OF this, of "''m1''" "[''a'', ''b'', ''a'']" "''a''" "''m1''"] show ?thesis by simp
qed


definition flat_weight :: "nat \<Rightarrow> bm25_weight" where
  "flat_weight p = (\<lambda>_ _ _ tf _. of_nat (p + tf))"




text \<open>
  A failing load is cached: when the first statement of a search fails, the index built from
  nothing is kept for later searches with the same parameters, which find no document although
  one is stored and nothing fails any more; a write clears it.
\<close>

theorem iix_failed_load_is_cached:
  fixes s :: "'p iix_store"
  assumes "conn_outcomes (conn s) = [Sql_fails 0]" "iix_cached s = None"
  shows "\<exists>s'. iix_top_k bm25 surface terms k p alg s = Some ([], s')
    \<and> conn_db (conn s') = conn_db (conn s) \<and> conn_outcomes (conn s') = []
    \<and> iix_top_k bm25 surface terms' k' p alg' s' = Some ([], s')
    \<and> iix_cached (snd (iix_index item tokens s')) = None"
proof -
  let ?c = "(conn s)\<lparr>conn_outcomes := []\<rparr>"
  let ?s = "s\<lparr>conn := ?c, iix_cached := Some (p, bm25_build (bm25 p) [] [])\<rparr>"
  have empty: "query_pairs ts (snd (bm25_build w [] [])) = []" for ts w
    by (simp add: bm25_build_def query_pairs_def query_pairs_from_none)
  have load: "load_state (conn s) = (([], []), ?c)"
    using assms(1) by (simp add: load_state_def sql_next_def load_tf_def)
  then have "refresh bm25 p s = ?s" using assms(2) by (simp add: refresh_def build_index_def)
  moreover have "refresh bm25 p ?s = ?s" by (simp add: refresh_def)
  ultimately have "iix_top_k bm25 surface terms k p alg s = Some ([], ?s)"
    "iix_top_k bm25 surface terms' k' p alg' ?s = Some ([], ?s)"
    using empty [of terms "bm25 p"] empty [of terms' "bm25 p"]
    by (simp_all add: iix_top_k_def Let_def split_def)
  moreover have "iix_cached (snd (iix_index item tokens ?s)) = None"
    by (simp add: iix_index_def writing_def write_document_quiet)
  ultimately show ?thesis by (intro exI [of _ ?s]) simp
qed

theorem iix_failed_load_is_cached_witness:
  "let s = snd (iix_index ''m1'' [''a''] (iix_open empty_conn :: nat iix_store));
       s = s\<lparr>conn := (conn s)\<lparr>conn_outcomes := [Sql_fails 0]\<rparr>\<rparr>
   in \<exists>s'. iix_top_k flat_weight id [''a''] 3 5 Wand s = Some ([], s') \<and> fst (iix_document_count s') = 1
        \<and> iix_top_k flat_weight id [''a''] 3 5 BlockMaxWand s' = Some ([], s')"
proof -
  define s where "s = snd (iix_index ''m1'' [''a''] (iix_open empty_conn :: nat iix_store))"
  define t where "t = s\<lparr>conn := (conn s)\<lparr>conn_outcomes := [Sql_fails 0]\<rparr>\<rparr>"
  have s: "iix_cached s = None" "length (len_rows (conn_db (conn s))) = 1"
    unfolding s_def by code_simp+
  have "conn_outcomes (conn t) = [Sql_fails 0]" "iix_cached t = None" by (simp_all add: t_def s(1))
  from iix_failed_load_is_cached [OF this, of flat_weight id "[''a'']" 3 5 Wand "[''a'']" 3 BlockMaxWand "[]" "[]"]
  obtain s' where "iix_top_k flat_weight id [''a''] 3 5 Wand t = Some ([], s')" "conn_db (conn s') = conn_db (conn t)"
      "conn_outcomes (conn s') = []" "iix_top_k flat_weight id [''a''] 3 5 BlockMaxWand s' = Some ([], s')" by blast
  then show ?thesis using s(2) unfolding Let_def s_def [symmetric] t_def [symmetric]
    by (intro exI [of _ s']) (simp add: iix_document_count_def t_def)
qed

text \<open>
  C40. A bulk import through a shard gives the rows that indexing its documents one by one gives, when
  the documents are new, distinct and not empty; the cache is cleared in both cases.
\<close>

theorem shard_import_equals_serial:
  fixes s :: "'p iix_store" and bm25 :: "'p \<Rightarrow> bm25_weight" and docs :: "(string \<times> string list) list"
  defines "s' \<equiv> iix_step bm25 (ImportShard (shard_tables docs)) s"
    and "t' \<equiv> fold (\<lambda>(item, tokens). iix_step bm25 (IndexDoc item tokens)) docs s"
  assumes "conn_outcomes (conn s) = []" "conn_saved (conn s) = None"
    and "distinct (map fst docs)" "[] \<notin> snd ` set docs" "docs \<noteq> []"
    and "fst ` set docs \<inter> (snd ` fst ` set (tf_rows (conn_db (conn s))) \<union> fst ` set (len_rows (conn_db (conn s)))) = {}"
  shows "map_of (tf_rows (conn_db (conn s'))) = map_of (tf_rows (conn_db (conn t')))
    \<and> map_of (len_rows (conn_db (conn s'))) = map_of (len_rows (conn_db (conn t')))
    \<and> iix_cached s' = None \<and> iix_cached t' = None"
proof -
  let ?db = "conn_db (conn s)"
  have s': "conn_db (conn s') = copied (shard_tables docs) ?db" "iix_cached s' = None"
    using assms(3,4) by (simp_all add: s'_def iix_step_def merge_shard_def keeping_def merge_rows_quiet fold_postings_def)
  have t': "conn t' = write_serially docs (conn s)" "iix_cached t' = None"
    using serial_store [OF assms(3), of bm25 docs] assms(7) by (simp_all add: t'_def)
  show ?thesis using merged_rows [OF assms(5), of ?db] serial_rows [OF assms(3,5,6,8)] s' t' by simp
qed

theorem shard_import_equals_serial_witness:
  fixes s :: "nat iix_store" and docs :: "(string \<times> string list) list"
  defines "s \<equiv> iix_open empty_conn" and "docs \<equiv> [(''m2'', [''b'', ''a'', ''b'']), (''m1'', [''a''])]"
  shows "map_of (tf_rows (conn_db (conn (iix_step flat_weight (ImportShard (shard_tables docs)) s))))
    = map_of (tf_rows (conn_db (conn (fold (\<lambda>(item, tokens). iix_step flat_weight (IndexDoc item tokens)) docs s))))"
proof -
  have "conn_outcomes (conn s) = []" "conn_saved (conn s) = None" "distinct (map fst docs)" "[] \<notin> snd ` set docs"
    "docs \<noteq> []"
    "fst ` set docs \<inter> (snd ` fst ` set (tf_rows (conn_db (conn s))) \<union> fst ` set (len_rows (conn_db (conn s)))) = {}"
    by (simp_all add: s_def docs_def iix_open_def empty_conn_def)
  from shard_import_equals_serial [OF this, of flat_weight] show ?thesis by simp
qed

section \<open>Estates\<close>

text \<open>An estate with one captured drawer, and reads of its recalls.\<close>

definition sample_anchor :: lattice_anchor where
  "sample_anchor = \<lparr>anchor_udc_code = ''5'', anchor_udc_facets = None, anchor_wikidata_qid = None,
     anchor_wikidata_qids_secondary = None\<rparr>"

definition sample_capture :: capture_frame where
  "sample_capture = (capture_frame_new ''text'' CaptureChannel_Typed ''room'' sample_anchor ''me'' ''m'')
     \<lparr>cap_feature_flags := HAS_LINKS, cap_lineage := Some 7\<rparr>"

definition opened_estate :: estate where
  "opened_estate = snd (create_root ref_env ''Estate'' 0 (empty_estate ''me''))"

definition sample_estate :: estate where
  "sample_estate = snd (capture ref_env sample_capture 1 opened_estate)"

definition sample_row :: drawer where
  "sample_row = hd (es_drawers sample_estate)"

definition no_audit :: "unit history" where
  "no_audit events iid moment = Inr None"

definition chain_frame :: "filter list \<Rightarrow> unit recall_frame" where
  "chain_frame chain = recall_frame_new chain"


definition accepted_lineage :: estate where
  "accepted_lineage = snd (act_seq (mutate ref_env ''uuuu'' (CorrectTrust Trust_Canonical) None)
     (act_seq (mutate ref_env ''uuuu'' Accept None) (capture ref_env sample_capture 3)) sample_estate)"

lemma run_ok: "fst r = Inr a \<Longrightarrow> r = (Inr a, snd r)"
  by (rule prod_eqI) simp_all


lemma sample_opened: "fst (create_root ref_env ''Estate'' 0 (empty_estate ''me'')) = Inr (hd (es_nodes opened_estate))"
  by code_simp

lemma sample_captured: "fst (capture ref_env sample_capture 1 opened_estate) = Inr sample_row"
  by code_simp

lemma sample_quiet: "quiet sample_estate"
  unfolding quiet_def by code_simp

lemma sample_history: "estate_history ref_env no_audit True sample_estate"
proof (rule estate_history.captured)
  show "estate_history ref_env no_audit True opened_estate"
    by (rule estate_history.opened [OF prod_eqI]) (simp_all add: sample_opened opened_estate_def)
  show "capture ref_env sample_capture 1 opened_estate = (Inr sample_row, sample_estate)"
    by (rule prod_eqI) (simp_all add: sample_captured sample_estate_def)
qed

lemmas sample_env = ref_estate.estate_env_axioms




text \<open>
  C8. After every history of an estate's verbs over storage that does not fail the node tree is
  well formed: ids are unique, one root, depth at most two, lookup names unique among siblings,
  every parent present; and every drawer has its own id and sits in a room of a wing.
\<close>

theorem containment_tree_well_formed:
  assumes "estate_env env" "estate_history env hist c s"
  shows "tree_ok env (es_nodes s) \<and> distinct (map drawer_id (es_drawers s))
    \<and> (\<forall>d \<in> set (es_drawers s). \<exists>wr. place (es_nodes s) (parent_node_id d) wr)"
  using estate_env.history_ok [OF assms] by (simp add: estate_ok_def base_ok_def)

theorem containment_tree_well_formed_witness:
  "tree_ok ref_env (es_nodes sample_estate) \<and> es_nodes sample_estate \<noteq> []"
proof
  show "tree_ok ref_env (es_nodes sample_estate)"
    using containment_tree_well_formed [OF sample_env sample_history] by simp
qed code_simp







text \<open>
  C9. After a successful withdrawal no recall of the current state returns the row, unless the chain names
  the state.
\<close>

theorem withdrawn_not_recalled:
  assumes "estate_env env" "estate_history env hist c s" "withdraw env iid reason s = (Inr (), s')"
    and "frame_as_of frame = None" "\<not> list_ex is_bitmap_state_filter (filter_chain frame)"
    and "recall env ref_popcount hist lower frame now s' = (Inr st, s'')"
  shows "iid \<notin> drawer_id ` set (rs_rows st)"
proof
  assume "iid \<in> drawer_id ` set (rs_rows st)"
  then obtain r where r: "r \<in> set (rs_rows st)" "drawer_id r = iid" by auto
  have ok: "estate_ok env c s" by (rule estate_env.history_ok [OF assms(1,2)])
  then have "quiet s" by (simp add: estate_ok_def base_ok_def)
  from estate_env.withdraw_effect [OF assms(1) this assms(3)] obtain d :: drawer where q: "quiet s'"
    and ds: "es_drawers s' = map (\<lambda>r. if drawer_id r = iid
        then r\<lparr>adjective_bitmap := env_write env (word_of_int (State_raw State_Withdrawn)) (adjective_bitmap d) 0 6\<rparr> else r) (es_drawers s)"
    by blast
  obtain e names where e: "e \<in> set (es_drawers s')" "drawer_id e = iid"
    "row_passes (env_extract env) ref_popcount lower names (insert_defaults (filter_chain frame)) e"
    using recall_rows [OF q assms(4,6) r(1)] r(2) by metis
  have "F_CurrentlyBelieve \<in> set (insert_defaults (filter_chain frame))" using assms(5) by (simp add: insert_defaults_set)
  then have believed: "evaluate_one (env_extract env) ref_popcount (adjective_bitmap e) (operational_bitmap e) (provenance e) F_CurrentlyBelieve"
    using e(3) by (auto simp only: row_passes_def evaluate_bitmap_tier_def list_all_iff split: if_splits)
  let ?adj = "env_write env (word_of_int (State_raw State_Withdrawn)) (adjective_bitmap d) 0 6"
  from e(1) obtain r0 where "e = (if drawer_id r0 = iid then r0\<lparr>adjective_bitmap := ?adj\<rparr> else r0)"
    unfolding ds set_map by (rule imageE)
  then have "adjective_bitmap e = ?adj" using e(2) by (cases "drawer_id r0 = iid") simp_all
  from estate_env.withdrawn_fails [OF assms(1) this] believed show False by (rule notE)
qed

theorem withdrawn_not_recalled_witness:
  "\<exists>st s'. recall ref_env ref_popcount no_audit id (chain_frame []) 5 (snd (withdraw ref_env ''uuuu'' None sample_estate)) = (Inr st, s')
    \<and> ''uuuu'' \<notin> drawer_id ` set (rs_rows st)"
proof -
  obtain st s' where run: "recall ref_env ref_popcount no_audit id (chain_frame []) 5 (snd (withdraw ref_env ''uuuu'' None sample_estate)) = (Inr st, s')"
    using recall_yields unfolding yields_def by blast
  have "fst (withdraw ref_env ''uuuu'' None sample_estate) = Inr ()" by code_simp
  from withdrawn_not_recalled [OF sample_env sample_history run_ok [OF this] _ _ run] run show ?thesis
    by (auto simp: chain_frame_def recall_frame_new_def)
qed




text \<open>
  C28. The sweep after a crash: it reports exactly the tombstoned rows that no event of an expunge records;
  sealing each of them succeeds, adds one event per row, changes no row, and leaves nothing to the next sweep.
\<close>

theorem sweep_seals_orphans:
  assumes "quiet s" "\<forall>d \<in> set (es_drawers s). env_is_uuid env (drawer_id d)"
  shows "case tombstoned_rows_without_expunge_audit env s of
      (Inr ds, s1) \<Rightarrow> s1 = s
        \<and> set ds = {d \<in> set (es_drawers s). drawer_tombstoned_at d \<noteq> None \<and>
            \<not> (\<exists>ev \<in> set (es_audit s). ev_row ev = drawer_id d \<and> ev_verb ev \<in> set expunge_verbs)}
        \<and> (case for_each (\<lambda>d. seal_expunge_orphan_audit_synthetic env (drawer_id d)) ds s of
            (Inr _, s2) \<Rightarrow> es_drawers s2 = es_drawers s \<and> length (es_audit s2) = length (es_audit s) + length ds
              \<and> tombstoned_rows_without_expunge_audit env s2 = (Inr [], s2)
          | _ \<Rightarrow> False)
    | _ \<Rightarrow> False"
proof -
  have u: "drawer_uuids env s" using assms(2) by (simp add: drawer_uuids_def)
  have "set (orphans s) \<subseteq> set (es_drawers s)" by (auto simp: orphans_def)
  from seals_quiet [OF assms(1) u this] obtain evs where
    run: "for_each (\<lambda>d. seal_expunge_orphan_audit_synthetic env (drawer_id d)) (orphans s) s
      = (Inr (), s\<lparr>es_audit := es_audit s @ evs\<rparr>)"
    and evs: "map ev_row evs = map drawer_id (orphans s)" "\<forall>ev \<in> set evs. ev_verb ev = EXPUNGE_ORPHAN" by blast
  let ?s = "s\<lparr>es_audit := es_audit s @ evs\<rparr>"
  have "quiet ?s" "drawer_uuids env ?s" using assms(1) u by (simp_all add: drawer_uuids_def)
  then have "tombstoned_rows_without_expunge_audit env ?s = (Inr [], ?s)"
    using sweep_quiet orphans_sealed [OF evs] by simp
  moreover have "length evs = length (orphans s)" using evs(1) map_eq_imp_length_eq by blast
  ultimately show ?thesis using sweep_quiet [OF assms(1) u] run
    by (auto simp: orphans_def expunge_recorded_def)
qed

definition unsealed_expunge :: estate where
  "unsealed_expunge = snd (act_bind (act_bind (capture ref_env sample_capture 3) (\<lambda>d.
     expunge ref_env (drawer_id d) ''why'' True 9 False)) seal_expunge_audit sample_estate)"

theorem sweep_seals_orphans_witness:
  "\<exists>ds s. tombstoned_rows_without_expunge_audit ref_env unsealed_expunge = (Inr ds, unsealed_expunge) \<and> length ds = 1
    \<and> for_each (\<lambda>d. seal_expunge_orphan_audit_synthetic ref_env (drawer_id d)) ds unsealed_expunge = (Inr (), s)
    \<and> tombstoned_rows_without_expunge_audit ref_env s = (Inr [], s)"
proof -
  have q: "quiet unsealed_expunge" unfolding quiet_def by code_simp
  have u: "\<forall>d \<in> set (es_drawers unsealed_expunge). env_is_uuid ref_env (drawer_id d)" by code_simp
  have "case tombstoned_rows_without_expunge_audit ref_env unsealed_expunge of (Inr ds, _) \<Rightarrow> length ds = 1 | _ \<Rightarrow> False"
    by code_simp
  then obtain ds s1 where ds: "tombstoned_rows_without_expunge_audit ref_env unsealed_expunge = (Inr ds, s1)" "length ds = 1"
    by (auto split: prod.splits sum.splits)
  obtain r s2 where r: "for_each (\<lambda>d. seal_expunge_orphan_audit_synthetic ref_env (drawer_id d)) ds unsealed_expunge = (r, s2)"
    by (rule prod.exhaust)
  show ?thesis using sweep_seals_orphans [OF q u] ds r by (cases r) simp_all
qed

text \<open>
  An expunge whose event the caller seals itself leaves the other tombstoned rows of the lineage without an
  event, as only the event of the target is returned: the sweep then reports them as orphans of a crash.
\<close>

lemma sealed_expunge_leaves_siblings:
  "map (\<lambda>d. (drawer_id d, drawer_state ref_extract_field d)) (es_drawers unsealed_expunge)
      = [(''uuuu'', State_Tombstoned), (''uuuuu'', State_Tombstoned)]
    \<and> (case tombstoned_rows_without_expunge_audit ref_env unsealed_expunge of
         (Inr ds, _) \<Rightarrow> map drawer_id ds = [''uuuu''] | _ \<Rightarrow> False)"
  by code_simp

text \<open>
  Associating two drawers again stores nothing, as the natural key is taken, but still returns a new association:
  its id is the id of no stored row.
\<close>

lemma associate_again_unstored:
  "case act_bind (associate ref_env \<lparr>end_a = ''uuuu'', end_b = ''uuuuu''\<rparr> 5)
      (\<lambda>_. associate ref_env \<lparr>end_a = ''uuuu'', end_b = ''uuuuu''\<rparr> 6) accepted_lineage of
     (Inr r, s) \<Rightarrow> length (es_associations s) = 1 \<and> association_id r \<notin> association_id ` set (es_associations s)
   | _ \<Rightarrow> False"
  by code_simp

text \<open>
  C24. A recall returns a stream in every state, whatever its storage does; a degraded stage other than the one of
  the traces leaves the stream without rows; and when the first read fails, the stage that names it is there.
\<close>

theorem recall_reports_failed_reads:
  shows "\<exists>st s'. recall env pc hist lower frame now s = (Inr st, s')
    \<and> (set (rs_degraded st) \<subseteq> {TRACE_WRITE_FAILED} \<or> rs_rows st = [])
    \<and> (hd (es_io s @ [Io_ok]) \<noteq> Io_ok \<longrightarrow>
        (if chain_has_prunable_filter (filter_chain frame) then ROOM_FINGERPRINTS_READ_FAILED else LIVE_ROWS_READ_FAILED)
          \<in> set (rs_degraded st))"
proof -
  obtain st s' where run: "recall env pc hist lower frame now s = (Inr st, s')"
    "set (rs_degraded st) \<subseteq> {TRACE_WRITE_FAILED} \<or> rs_rows st = []"
    using recall_yields unfolding yields_def by blast
  have "(if chain_has_prunable_filter (filter_chain frame) then ROOM_FINGERPRINTS_READ_FAILED else LIVE_ROWS_READ_FAILED)
      \<in> set (rs_degraded st)" if failed: "hd (es_io s @ [Io_ok]) \<noteq> Io_ok"
  proof -
    obtain e io where "es_io s = Io_fails e # io" using failed by (cases "es_io s"; cases "hd (es_io s)") auto
    from first_read_failed [OF this] run show ?thesis by (metis Pair_inject sum.inject(2))
  qed
  then show ?thesis using run by blast
qed

theorem recall_reports_failed_reads_witness:
  "\<exists>st s'. recall ref_env ref_popcount no_audit id (chain_frame []) 5 (sample_estate\<lparr>es_io := [Io_fails ''disk'']\<rparr>) = (Inr st, s')
    \<and> LIVE_ROWS_READ_FAILED \<in> set (rs_degraded st)"
  using recall_reports_failed_reads [of ref_env ref_popcount no_audit id "chain_frame []" 5 "sample_estate\<lparr>es_io := [Io_fails ''disk'']\<rparr>"]
  by (auto simp: chain_frame_def recall_frame_new_def chain_has_prunable_filter_def)


text \<open>
  C26. Reading a stream page by page ends and returns every row once: the pages joined are the rows, hydrated at the
  stream's level, and a stream is exhausted after as many pages as its rows need, at least one.
\<close>

theorem pages_return_every_row:
  assumes "length rows \<le> n * max page_size 1" "0 < n"
  shows "collect_all (recall_stream_new rows page_size level) = map (hydrate level) rows
    \<and> rs_exhausted (pages n (recall_stream_new rows page_size level))"
proof
  let ?st = "recall_stream_new rows page_size level"
  show "collect_all ?st = map (hydrate level) rows"
    unfolding collect_all_def by (subst collect_from_rest) (simp_all add: recall_stream_new_def)
  show "rs_exhausted (pages n ?st)"
    by (rule pages_exhaust) (use assms in \<open>simp_all add: recall_stream_new_def\<close>)
qed

theorem pages_return_every_row_witness:
  "collect_all (recall_stream_new [sample_row, sample_row, sample_row] 2 Full) = [sample_row, sample_row, sample_row]
    \<and> rs_exhausted (pages 2 (recall_stream_new [sample_row, sample_row, sample_row] 2 Full))"
  using pages_return_every_row [of "[sample_row, sample_row, sample_row]" 2 2 Full] by (simp add: hydrate_def)

text \<open>
  C27. Reparenting keeps outlines forests: every drawer has at most one live parent tunnel before and after; the
  child's is then the one asked for, with its order key, or none; the parents of other drawers stay.
\<close>

theorem reparent_keeps_one_parent:
  assumes "quiet s" "distinct (map tunnel_id (es_tunnels s))" "\<forall>other. length (live_parents other (es_tunnels s)) \<le> 1"
    and "reparent_drawer env child outline_parent key wing room author now s = (Inr (), s')"
  shows "(\<forall>other. length (live_parents other (es_tunnels s')) \<le> 1)
    \<and> map (\<lambda>t. (target_drawer_id t, order_key t)) (live_parents child (es_tunnels s'))
      = (case outline_parent of Some p \<Rightarrow> [(Some p, Some key)] | None \<Rightarrow> [])
    \<and> (\<forall>other. other \<noteq> child \<longrightarrow> live_parents other (es_tunnels s') = live_parents other (es_tunnels s))"
proof -
  have "one_parent s" using assms(1-3) by (simp add: one_parent_def)
  from reparent_effect [OF this assms(4)] show ?thesis by (simp add: one_parent_def)
qed

theorem reparent_keeps_one_parent_witness:
  "map target_drawer_id (live_parents ''uuuu'' (es_tunnels (snd (reparent_drawer ref_env ''uuuu'' (Some ''p'') 3 ''w'' ''r'' ''me'' 8 sample_estate))))
    = [Some ''p'']"
proof -
  have "fst (reparent_drawer ref_env ''uuuu'' (Some ''p'') 3 ''w'' ''r'' ''me'' 8 sample_estate) = Inr ()" by code_simp
  moreover have "es_tunnels sample_estate = []" by code_simp
  ultimately have "map (\<lambda>t. (target_drawer_id t, order_key t)) (live_parents ''uuuu''
      (es_tunnels (snd (reparent_drawer ref_env ''uuuu'' (Some ''p'') 3 ''w'' ''r'' ''me'' 8 sample_estate)))) = [(Some ''p'', Some 3)]"
    using reparent_keeps_one_parent [OF sample_quiet _ _ run_ok, of ref_env "''uuuu''" "Some ''p''" 3 "''w''" "''r''" "''me''" 8]
    by (simp add: live_parents_def)
  then show ?thesis by (auto simp: map_eq_Cons_conv)
qed



end
